(* ===== verification/Prelude.thy ===== *)
theory Prelude
  imports Main "HOL-Library.Word"
begin

text \<open>
  Shared vocabulary of the development: the Go types the plugin uses (byte strings, runes,
  64-bit integers, 64-bit atomic counters, errors, panics), the collections of simp rules the
  component theories extend, and the generic lemmas they share.

  A Go \<^verbatim>\<open>string\<close> is a sequence of bytes, and so is HOL's \<^typ>\<open>string\<close>: a \<^typ>\<open>char\<close> is one byte.
  An \<^verbatim>\<open>error\<close> result is the left summand of a sum; a nil pointer is \<^const>\<open>None\<close>.
\<close>

named_theorems int64_defs \<open>the bounds of a signed 64-bit integer\<close>
named_theorems queue_defs \<open>the way of one message from the runtime into the publisher's queue\<close>
named_theorems demo_store_defs \<open>the concrete store on which the witnesses run\<close>

type_synonym bytes = string
type_synonym rune = nat
type_synonym counter = "64 word"
type_synonym time = int
type_synonym duration = int

datatype go_error =
    ErrAuthEntryNotFound
  | ErrAuthStoreUnavailable
  | ErrText string
  | ErrWrap string go_error

datatype go_panic = NilDereference | SendOnClosedChannel | CloseOfClosedChannel | PanicText string

type_synonym 'a result = "go_error + 'a"

text \<open>\<^verbatim>\<open>errors.Is\<close>: compare with the target along the chain of wrapped errors.\<close>

fun errors_Is :: "go_error \<Rightarrow> go_error \<Rightarrow> bool" where
  "errors_Is (ErrWrap m e) t \<longleftrightarrow> ErrWrap m e = t \<or> errors_Is e t"
| "errors_Is e t \<longleftrightarrow> e = t"

text \<open>Signed 64-bit wrap-around, and the saturation that \<^verbatim>\<open>time.Time.Sub\<close> applies instead.\<close>

definition int64 :: "int \<Rightarrow> int" where
  "int64 x = (x + 2 ^ 63) mod 2 ^ 64 - 2 ^ 63"

definition max_int64 :: int where "max_int64 = 2 ^ 63 - 1"
definition min_int64 :: int where "min_int64 = - (2 ^ 63)"

declare max_int64_def [int64_defs] min_int64_def [int64_defs]

definition sat64 :: "int \<Rightarrow> int" where
  "sat64 x = max min_int64 (min max_int64 x)"

definition is_Inr :: "'a + 'b \<Rightarrow> bool" where
  "is_Inr x = (case x of Inl _ \<Rightarrow> False | Inr _ \<Rightarrow> True)"

lemma is_Inr_simps [simp]: "is_Inr (Inr y)" "\<not> is_Inr (Inl x)"
  by (simp_all add: is_Inr_def)

lemma int64_range: "min_int64 \<le> int64 x \<and> int64 x \<le> max_int64"
proof -
  have "0 \<le> (x + 2 ^ 63) mod 2 ^ 64" "(x + 2 ^ 63) mod 2 ^ 64 < (2 ^ 64 :: int)"
    by simp_all
  then show ?thesis
    by (simp add: int64_def min_int64_def max_int64_def)
qed

lemma int64_id: "min_int64 \<le> x \<Longrightarrow> x \<le> max_int64 \<Longrightarrow> int64 x = x"
  by (simp add: int64_def min_int64_def max_int64_def)

lemma sat64_id: "min_int64 \<le> x \<Longrightarrow> x \<le> max_int64 \<Longrightarrow> sat64 x = x"
  by (simp add: sat64_def)

lemma sat64_le_iff: "min_int64 \<le> y \<Longrightarrow> y < max_int64 \<Longrightarrow> sat64 x \<le> y \<longleftrightarrow> x \<le> y"
  by (auto simp: sat64_def)

lemma sum_case_Inr [simp]: "(case Inr x of Inl e \<Rightarrow> f e | Inr y \<Rightarrow> g y) = g x"
  by simp

lemma length_filter_update:
  assumes "i < length xs"
  shows "length (filter P (xs[i := y])) + (if P (xs ! i) then 1 else 0)
       = length (filter P xs) + (if P y then 1 else 0)"
  using assms
proof (induction xs arbitrary: i)
  case Nil
  then show ?case by simp
next
  case (Cons x xs)
  then show ?case by (cases i) auto
qed

lemma filter_nonempty_nth:
  "i < length xs \<Longrightarrow> P (xs ! i) \<Longrightarrow> 0 < length (filter P xs)"
  by (metis filter_empty_conv length_greater_0_conv nth_mem)

section \<open>Runs\<close>

text \<open>
  What the stateful components have in common: an action that may be refused and the runs of a
  list of actions. An invariant that every admissible action keeps holds after every run.
\<close>

locale run_system =
  fixes act :: "'a \<Rightarrow> 's \<Rightarrow> 's option"
    and exec :: "'a list \<Rightarrow> 's \<Rightarrow> 's option"
  assumes exec_Nil: "exec [] y = Some y"
    and exec_Cons: "exec (a # as) y = (case act a y of None \<Rightarrow> None | Some z \<Rightarrow> exec as z)"
begin

lemma exec_append: "exec (as @ bs) y = (case exec as y of None \<Rightarrow> None | Some z \<Rightarrow> exec bs z)"
  by (induction as arbitrary: y) (auto simp: exec_Nil exec_Cons split: option.splits)

lemma exec_inv:
  assumes keep: "\<And>a y z. act a y = Some z \<Longrightarrow> a \<in> set as \<Longrightarrow> P y \<Longrightarrow> P z"
    and "exec as y = Some z" "P y"
  shows "P z"
  using assms
proof (induction as arbitrary: y)
  case (Cons a as)
  from Cons.prems(2) obtain y' where y': "act a y = Some y'" "exec as y' = Some z"
    by (auto simp: exec_Cons split: option.splits)
  have "P y'" using Cons.prems(1)[OF y'(1)] Cons.prems(3) by simp
  with Cons.IH[OF _ y'(2)] Cons.prems(1) show ?case by simp
qed (simp add: exec_Nil)

end

end
