(* ===== verification/NatsPublisher.thy ===== *)
theory NatsPublisher
  imports Prelude
begin

text \<open>
  \<^verbatim>\<open>src/nats_publisher.go\<close>: the bounded asynchronous publisher, each operation as one call that
  runs alone. The interleaving of producers, workers and \<open>Drain\<close> is the subject of the theory of
  its concurrent runs, which builds on the definitions here.

  A Go channel is its buffer, its capacity and whether it is closed. The underlying NATS client
  is outside: what its \<open>Publish\<close> does with a job is an outcome, chosen by the environment.
  \<open>in_work\<close> holds the jobs that workers have received and not published yet, the local variable
  \<open>job\<close> of each busy worker; with several workers they are published in any order. The theory of
  the concurrent runs keeps them in the program counters instead and leaves \<open>in_work\<close> empty.
\<close>

section \<open>Definitions\<close>

record publishJob =
  job_subject :: string
  job_data :: bytes

datatype pub_outcome = PubOk | PubErr string | PubPanic string

record AsyncPublisher =
  queue :: "publishJob list"
  queue_cap :: nat
  chan_closed :: bool
  in_work :: "publishJob list"
  ap_workers :: nat
  wg :: nat
  closed :: bool
  enqueued :: counter
  published :: counter
  publishErr :: counter
  dropped :: counter
  droppedNoStart :: counter
  panics :: counter
  started :: bool

text \<open>
  \<^verbatim>\<open>make(chan publishJob, n)\<close> panics when buffer and channel header do not fit into the address
  space of Go's heap: 2^48 bytes on 64-bit Linux, 40 bytes for a job (a string and a slice header)
  and 112 for the header of a channel in Go 1.25. Memory that is not there although the size is
  allowed is outside the model.
\<close>

definition makechan_fits :: "int \<Rightarrow> bool" where
  "makechan_fits n \<longleftrightarrow> 40 * n \<le> 2 ^ 48 - 112"

definition NewAsyncPublisher :: "bool \<Rightarrow> int \<Rightarrow> int \<Rightarrow> go_panic + AsyncPublisher result" where
  "NewAsyncPublisher pub_nil bufferSize workers =
     (if pub_nil then Inr (Inl (ErrText ''publisher is nil''))
      else if bufferSize \<le> 0 then Inr (Inl (ErrText ''bufferSize must be > 0''))
      else if workers \<le> 0 then Inr (Inl (ErrText ''workers must be > 0''))
      else if \<not> makechan_fits bufferSize then Inl (PanicText ''makechan: size out of range'')
      else Inr (Inr \<lparr>queue = [], queue_cap = nat bufferSize, chan_closed = False, in_work = [],
                     ap_workers = nat workers, wg = 0, closed = False, enqueued = 0, published = 0,
                     publishErr = 0, dropped = 0, droppedNoStart = 0, panics = 0, started = False\<rparr>))"

text \<open>
  \<open>Start\<close> adds one to the wait group and starts one goroutine for each worker. The counter of a
  wait group is a signed 32-bit integer, and \<open>Add\<close> panics when it becomes negative.
\<close>

definition wg_Add :: "AsyncPublisher \<Rightarrow> go_panic + AsyncPublisher" where
  "wg_Add p =
     (if 2 ^ 31 \<le> wg p + 1 then Inl (PanicText ''sync: negative WaitGroup counter'')
      else Inr (p\<lparr>wg := wg p + 1\<rparr>))"

primrec startWorkers :: "nat \<Rightarrow> AsyncPublisher \<Rightarrow> go_panic + AsyncPublisher" where
  "startWorkers 0 p = Inr p"
| "startWorkers (Suc n) p = (case wg_Add p of Inl e \<Rightarrow> Inl e | Inr p \<Rightarrow> startWorkers n p)"

definition Start :: "AsyncPublisher \<Rightarrow> go_panic + AsyncPublisher" where
  "Start p =
     (if started p then Inl (PanicText ''AsyncPublisher: Start called twice'')
      else startWorkers (ap_workers p) (p\<lparr>started := True\<rparr>))"

text \<open>The non-blocking send of \<^verbatim>\<open>select\<close> with a \<^verbatim>\<open>default\<close>: a send on a closed channel panics.\<close>

definition try_send :: "publishJob \<Rightarrow> AsyncPublisher \<Rightarrow> go_panic + AsyncPublisher option" where
  "try_send job p =
     (if chan_closed p then Inl SendOnClosedChannel
      else if length (queue p) < queue_cap p then Inr (Some (p\<lparr>queue := queue p @ [job]\<rparr>))
      else Inr None)"

definition Enqueue :: "string \<Rightarrow> bytes \<Rightarrow> AsyncPublisher \<Rightarrow> go_panic + AsyncPublisher \<times> bool" where
  "Enqueue subject data p =
     (if \<not> started p
      then Inr (p\<lparr>droppedNoStart := droppedNoStart p + 1, dropped := dropped p + 1\<rparr>, False)
      else if closed p then Inr (p, False)
      else case try_send \<lparr>job_subject = subject, job_data = data\<rparr> p of
             Inl e \<Rightarrow> Inl e
           | Inr (Some p) \<Rightarrow> Inr (p\<lparr>enqueued := enqueued p + 1\<rparr>, True)
           | Inr None \<Rightarrow> Inr (p\<lparr>dropped := dropped p + 1\<rparr>, False))"

declare try_send_def [queue_defs] Enqueue_def [queue_defs]

definition close_queue :: "AsyncPublisher \<Rightarrow> go_panic + AsyncPublisher" where
  "close_queue p = (if chan_closed p then Inl CloseOfClosedChannel else Inr (p\<lparr>chan_closed := True\<rparr>))"

definition publishOne :: "pub_outcome \<Rightarrow> AsyncPublisher \<Rightarrow> AsyncPublisher" where
  "publishOne out p =
     (case out of
        PubOk \<Rightarrow> p\<lparr>published := published p + 1\<rparr>
      | PubErr e \<Rightarrow> p\<lparr>publishErr := publishErr p + 1\<rparr>
      | PubPanic e \<Rightarrow> p\<lparr>panics := panics p + 1, publishErr := publishErr p + 1\<rparr>)"

text \<open>
  The pool at work. A worker that is free receives the next job off the channel; a worker that
  holds a job publishes it, whichever of the busy workers comes first. \<^const>\<open>None\<close>: no worker can do it.
\<close>

definition receive :: "AsyncPublisher \<Rightarrow> AsyncPublisher option" where
  "receive p =
     (case queue p of
        [] \<Rightarrow> None
      | job # rest \<Rightarrow>
          if length (in_work p) < wg p then Some (p\<lparr>queue := rest, in_work := in_work p @ [job]\<rparr>) else None)"

definition drop_nth :: "nat \<Rightarrow> 'a list \<Rightarrow> 'a list" where
  "drop_nth i xs = take i xs @ drop (Suc i) xs"

definition publishHeld :: "nat \<Rightarrow> pub_outcome \<Rightarrow> AsyncPublisher \<Rightarrow> AsyncPublisher option" where
  "publishHeld i out p =
     (if i < length (in_work p) then Some (publishOne out (p\<lparr>in_work := drop_nth i (in_work p)\<rparr>)) else None)"

text \<open>Every busy worker publishes the job it holds.\<close>

definition publishAllHeld :: "(publishJob \<Rightarrow> pub_outcome) \<Rightarrow> AsyncPublisher \<Rightarrow> AsyncPublisher" where
  "publishAllHeld pub p = fold (\<lambda>job. publishOne (pub job)) (in_work p) (p\<lparr>in_work := []\<rparr>)"

text \<open>
  One worker that has the queue to itself: it publishes what is buffered, then returns when the
  channel is closed and otherwise waits for the next job.
\<close>

function worker :: "(publishJob \<Rightarrow> pub_outcome) \<Rightarrow> AsyncPublisher \<Rightarrow> AsyncPublisher" where
  "worker pub p =
     (case queue p of
        job # rest \<Rightarrow> worker pub (publishOne (pub job) (p\<lparr>queue := rest\<rparr>))
      | [] \<Rightarrow> if chan_closed p then p\<lparr>wg := wg p - 1\<rparr> else p)"
  by pat_completeness auto
termination
  by (relation "measure (\<lambda>(pub, p). length (queue p))") (auto simp: publishOne_def split: pub_outcome.splits)

declare worker.simps [simp del]

text \<open>
  \<open>Drain\<close> alone, with a pool that gets the given outcomes: the busy workers publish what they hold,
  then each worker runs until it returns. \<open>in_time\<close> says whether the pool finishes before the
  timeout. After a timeout the pool goes on by itself.
\<close>

definition Drain ::
    "(publishJob \<Rightarrow> pub_outcome) \<Rightarrow> bool \<Rightarrow> AsyncPublisher \<Rightarrow> go_panic + AsyncPublisher \<times> bool" where
  "Drain pub in_time p =
     (if closed p then Inr (p, True)
      else case close_queue (p\<lparr>closed := True\<rparr>) of
             Inl e \<Rightarrow> Inl e
           | Inr p \<Rightarrow> if in_time then Inr (((worker pub) ^^ wg p) (publishAllHeld pub p), True) else Inr (p, False))"

definition publisher_counts :: "AsyncPublisher \<Rightarrow> counter list" where
  "publisher_counts p = [enqueued p, published p, publishErr p, dropped p, droppedNoStart p, panics p]"


subsection \<open>Specification side\<close>

text \<open>What holds between calls: the buffer within its capacity, the two closed flags in step, and
  every accepted job published, failed, still queued or in the hands of a worker.\<close>

definition publisher_ok :: "AsyncPublisher \<Rightarrow> bool" where
  "publisher_ok p \<longleftrightarrow>
     0 < queue_cap p \<and> length (queue p) \<le> queue_cap p \<and> chan_closed p = closed p \<and>
     enqueued p = published p + publishErr p + of_nat (length (queue p)) + of_nat (length (in_work p))"

text \<open>The contract the plugin relies on: an operation on a sink in good state does not panic and
  leaves it in good state.\<close>

locale event_sink =
  fixes sink_ok :: "'p \<Rightarrow> bool"
    and send :: "string \<Rightarrow> bytes \<Rightarrow> 'p \<Rightarrow> go_panic + 'p \<times> bool"
    and count_drop :: "'p \<Rightarrow> 'p"
  assumes send_total: "sink_ok p \<Longrightarrow> \<exists>p' b. send subject data p = Inr (p', b) \<and> sink_ok p'"
    and drop_ok: "sink_ok p \<Longrightarrow> sink_ok (count_drop p)"
begin

text \<open>A sequence of sends: the final sink and the results.\<close>

fun send_all :: "(string \<times> bytes) list \<Rightarrow> 'p \<Rightarrow> go_panic + 'p \<times> bool list" where
  "send_all [] p = Inr (p, [])"
| "send_all ((subject, data) # jobs) p =
     (case send subject data p of
        Inl e \<Rightarrow> Inl e
      | Inr (p, b) \<Rightarrow> (case send_all jobs p of Inl e \<Rightarrow> Inl e | Inr (p, bs) \<Rightarrow> Inr (p, b # bs)))"

lemma send_all_total:
  "sink_ok p \<Longrightarrow> \<exists>p' bs. send_all jobs p = Inr (p', bs) \<and> sink_ok p' \<and> length bs = length jobs"
proof (induction jobs arbitrary: p)
  case (Cons job jobs)
  obtain subject data where job: "job = (subject, data)" by fastforce
  from send_total[OF Cons.prems] obtain q b where q: "send subject data p = Inr (q, b)" "sink_ok q" by blast
  from Cons.IH[OF q(2)] q(1) job show ?case by fastforce
qed simp

end

section \<open>Lemmas\<close>

lemma startWorkers_eq:
  "wg p < 2 ^ 31 \<Longrightarrow> startWorkers n p =
     (if wg p + n < 2 ^ 31 then Inr (p\<lparr>wg := wg p + n\<rparr>) else Inl (PanicText ''sync: negative WaitGroup counter''))"
  by (induction n arbitrary: p) (auto simp: wg_Add_def)

lemma Start_eq:
  "wg p = 0 \<Longrightarrow> Start p =
     (if started p then Inl (PanicText ''AsyncPublisher: Start called twice'')
      else if ap_workers p < 2 ^ 31 then Inr (p\<lparr>started := True, wg := ap_workers p\<rparr>)
      else Inl (PanicText ''sync: negative WaitGroup counter''))"
  by (simp add: Start_def startWorkers_eq)

text \<open>A publisher that has been made and started.\<close>

lemma NewAsyncPublisher_cases:
  assumes "NewAsyncPublisher pub_nil n w = Inr (Inr p0)"
  obtains "\<not> pub_nil" "0 < n" "0 < w" "makechan_fits n" "queue p0 = []" "queue_cap p0 = nat n" "\<not> chan_closed p0"
    "in_work p0 = []" "ap_workers p0 = nat w" "wg p0 = 0" "\<not> closed p0" "\<not> started p0"
    "publisher_counts p0 = replicate 6 0"
  using assms that by (auto simp: NewAsyncPublisher_def publisher_counts_def numeral_eq_Suc split: if_splits)

lemma Enqueue_ok:
  assumes "publisher_ok p"
  shows "\<exists>p' b. Enqueue subject data p = Inr (p', b) \<and> publisher_ok p'"
  using assms by (auto simp: Enqueue_def try_send_def publisher_ok_def)

lemma Enqueue_pool:
  "Enqueue subject data p = Inr (p', acc) \<Longrightarrow> started p' = started p \<and> closed p' = closed p \<and> wg p' = wg p"
  by (auto simp: Enqueue_def try_send_def split: if_splits)

interpretation async: event_sink publisher_ok Enqueue "\<lambda>p. p\<lparr>dropped := dropped p + 1\<rparr>"
proof
  fix p subject data
  assume "publisher_ok p"
  then show "\<exists>p' b. Enqueue subject data p = Inr (p', b) \<and> publisher_ok p'" by (rule Enqueue_ok)
next
  fix p
  assume "publisher_ok p"
  then show "publisher_ok (p\<lparr>dropped := dropped p + 1\<rparr>)" by (simp add: publisher_ok_def)
qed

lemma publishOne_frame [simp]:
  "queue (publishOne out p) = queue p" "queue_cap (publishOne out p) = queue_cap p"
  "chan_closed (publishOne out p) = chan_closed p" "closed (publishOne out p) = closed p"
  "started (publishOne out p) = started p" "wg (publishOne out p) = wg p" "enqueued (publishOne out p) = enqueued p"
  "dropped (publishOne out p) = dropped p" "in_work (publishOne out p) = in_work p"
  by (simp_all add: publishOne_def split: pub_outcome.splits)

lemma publishOne_counts:
  "published (publishOne out p) + publishErr (publishOne out p) = published p + publishErr p + 1"
  by (simp add: publishOne_def split: pub_outcome.splits)

lemma length_drop_nth: "i < length xs \<Longrightarrow> length xs = Suc (length (drop_nth i xs))"
  by (simp add: drop_nth_def)

text \<open>The pool at work keeps the publisher in good state.\<close>

lemma receive_ok:
  assumes "receive p = Some q"
  shows "publisher_ok p \<Longrightarrow> publisher_ok q" "started q = started p" "closed q = closed p" "wg q = wg p"
  using assms by (auto simp: receive_def publisher_ok_def split: list.splits if_splits)

lemma publishHeld_ok:
  assumes "publishHeld i out p = Some q"
  shows "publisher_ok p \<Longrightarrow> publisher_ok q" "started q = started p" "closed q = closed p" "wg q = wg p"
proof -
  from assms have i: "i < length (in_work p)" and q: "q = publishOne out (p\<lparr>in_work := drop_nth i (in_work p)\<rparr>)"
    by (auto simp: publishHeld_def split: if_splits)
  show "publisher_ok q" if "publisher_ok p"
    using that length_drop_nth[OF i] publishOne_counts[of out "p\<lparr>in_work := drop_nth i (in_work p)\<rparr>"]
    by (simp add: publisher_ok_def q algebra_simps)
qed (use assms in \<open>auto simp: publishHeld_def split: if_splits\<close>)

lemma fold_publishOne:
  "queue (fold (\<lambda>job. publishOne (pub job)) jobs p) = queue p \<and>
   queue_cap (fold (\<lambda>job. publishOne (pub job)) jobs p) = queue_cap p \<and>
   chan_closed (fold (\<lambda>job. publishOne (pub job)) jobs p) = chan_closed p \<and>
   in_work (fold (\<lambda>job. publishOne (pub job)) jobs p) = in_work p \<and>
   closed (fold (\<lambda>job. publishOne (pub job)) jobs p) = closed p \<and>
   started (fold (\<lambda>job. publishOne (pub job)) jobs p) = started p \<and>
   wg (fold (\<lambda>job. publishOne (pub job)) jobs p) = wg p \<and>
   enqueued (fold (\<lambda>job. publishOne (pub job)) jobs p) = enqueued p \<and>
   published (fold (\<lambda>job. publishOne (pub job)) jobs p) + publishErr (fold (\<lambda>job. publishOne (pub job)) jobs p) =
     published p + publishErr p + of_nat (length jobs)"
proof (induction jobs arbitrary: p)
  case (Cons job jobs)
  from Cons[of "publishOne (pub job) p"] publishOne_counts[of "pub job" p] show ?case by (simp add: algebra_simps)
qed simp

lemma publishAllHeld_ok:
  shows "publisher_ok p \<Longrightarrow> publisher_ok (publishAllHeld pub p)"
    and "in_work (publishAllHeld pub p) = []" "chan_closed (publishAllHeld pub p) = chan_closed p"
    "wg (publishAllHeld pub p) = wg p"
  using fold_publishOne[of pub "in_work p" "p\<lparr>in_work := []\<rparr>"]
  by (simp_all add: publishAllHeld_def publisher_ok_def algebra_simps)

lemma worker_ok:
  "publisher_ok p \<Longrightarrow> publisher_ok (worker pub p)"
  "queue (worker pub p) = []"
  "chan_closed (worker pub p) = chan_closed p"
  "in_work (worker pub p) = in_work p"
  "wg (worker pub p) = (if chan_closed p then wg p - 1 else wg p)"
proof (induction pub p rule: worker.induct)
  case (1 pub p)
  {
    case 1
    show ?case
    proof (cases "queue p")
      case Nil
      with 1 show ?thesis by (subst worker.simps) (simp add: publisher_ok_def)
    next
      case (Cons job rest)
      have "publisher_ok (publishOne (pub job) (p\<lparr>queue := rest\<rparr>))"
        using 1 Cons publishOne_counts[of "pub job" "p\<lparr>queue := rest\<rparr>"]
        by (simp add: publisher_ok_def algebra_simps)
      with "1.IH"(1)[OF Cons] Cons show ?thesis by (subst worker.simps) simp
    qed
  next
    case 2
    show ?case using "1.IH"(2) by (subst worker.simps) (simp split: list.splits)
  next
    case 3
    show ?case using "1.IH"(3) by (subst worker.simps) (simp split: list.splits)
  next
    case 4
    show ?case using "1.IH"(4) by (subst worker.simps) (simp split: list.splits)
  next
    case 5
    show ?case using "1.IH"(5) by (subst worker.simps) (simp split: list.splits)
  }
qed

lemma workers_drain:
  "publisher_ok p \<Longrightarrow> chan_closed p \<Longrightarrow>
   publisher_ok (((worker pub) ^^ k) p) \<and> chan_closed (((worker pub) ^^ k) p) \<and>
   wg (((worker pub) ^^ k) p) = wg p - k \<and> in_work (((worker pub) ^^ k) p) = in_work p \<and>
   (0 < k \<longrightarrow> queue (((worker pub) ^^ k) p) = [])"
  by (induction k) (auto simp: worker_ok)

text \<open>What a \<open>Drain\<close> leaves, in time or not.\<close>

lemma Drain_open:
  assumes "publisher_ok p" "\<not> closed p" "0 < wg p"
  obtains q where "Drain pub in_time p = Inr (q, in_time)" "publisher_ok q" "closed q"
    "in_time \<longrightarrow> queue q = [] \<and> in_work q = [] \<and> wg q = 0 \<and> enqueued q = published q + publishErr q"
proof (cases in_time)
  case False
  with assms show thesis
    by (intro that[of "p\<lparr>closed := True, chan_closed := True\<rparr>"])
       (simp_all add: Drain_def close_queue_def publisher_ok_def)
next
  case True
  let ?h = "publishAllHeld pub (p\<lparr>closed := True, chan_closed := True\<rparr>)"
  let ?q = "((worker pub) ^^ wg p) ?h"
  have "publisher_ok (p\<lparr>closed := True, chan_closed := True\<rparr>)" using assms(1) by (simp add: publisher_ok_def)
  then have h: "publisher_ok ?h" "chan_closed ?h" by (simp_all add: publishAllHeld_ok)
  from workers_drain[OF this, of "wg p" pub] assms(3)
  have w: "publisher_ok ?q" "chan_closed ?q" "wg ?q = 0" "in_work ?q = []" "queue ?q = []"
    by (simp_all add: publishAllHeld_ok)
  then have "closed ?q" "enqueued ?q = published ?q + publishErr ?q" by (simp_all add: publisher_ok_def)
  moreover have "Drain pub in_time p = Inr (?q, in_time)"
    using assms True by (simp add: Drain_def close_queue_def publisher_ok_def)
  ultimately show thesis using w True that by simp
qed


section \<open>Properties\<close>

text \<open>\<open>Enqueue\<close> never blocks and never panics on a publisher in good state: a job is accepted
  exactly when the publisher is started, not drained and has room; then it is the last in the
  queue and counted. A rejected job leaves the queue alone and is counted as dropped, unless the
  publisher was drained. The publisher stays in good state.\<close>

theorem Enqueue_behaviour:
  assumes "publisher_ok p"
  shows "\<exists>p' acc. Enqueue subject data p = Inr (p', acc) \<and> publisher_ok p' \<and>
    (acc \<longleftrightarrow> started p \<and> \<not> closed p \<and> length (queue p) < queue_cap p) \<and>
    (if acc then queue p' = queue p @ [\<lparr>job_subject = subject, job_data = data\<rparr>] \<and>
                 enqueued p' = enqueued p + 1 \<and> dropped p' = dropped p
     else queue p' = queue p \<and> enqueued p' = enqueued p \<and>
          dropped p' = (if started p \<and> closed p then dropped p else dropped p + 1)) \<and>
    droppedNoStart p' = (if started p then droppedNoStart p else droppedNoStart p + 1)"
  using assms by (auto simp: Enqueue_def try_send_def publisher_ok_def)

text \<open>A started publisher of capacity two, for concrete runs.\<close>

definition demo_publisher :: AsyncPublisher where
  "demo_publisher = \<lparr>queue = [], queue_cap = 2, chan_closed = False, in_work = [], ap_workers = 1, wg = 1, closed = False,
     enqueued = 0, published = 0, publishErr = 0, dropped = 0, droppedNoStart = 0, panics = 0, started = True\<rparr>"

lemma demo_publisher_ok: "publisher_ok demo_publisher"
  by (simp add: publisher_ok_def demo_publisher_def)

theorem Enqueue_behaviour_witness:
  "\<exists>p'. Enqueue ''s'' ''d'' demo_publisher = Inr (p', True) \<and> length (queue p') = 1"
  using Enqueue_behaviour[OF demo_publisher_ok, of "''s''" "''d''"] by (force simp: demo_publisher_def)

text \<open>\<open>Drain\<close> of a started publisher with at least one worker that finishes in time: every job
  that was ever accepted has been published or counted as an error, the queue is empty, no worker
  holds a job, every worker has returned, and no later job is accepted.\<close>

lemma Drain_completes:
  assumes "publisher_ok p" "started p" "\<not> closed p" "0 < wg p"
  shows "\<exists>p'. Drain pub True p = Inr (p', True) \<and> queue p' = [] \<and> in_work p' = [] \<and> wg p' = 0 \<and>
     enqueued p' = published p' + publishErr p' \<and>
     (\<forall>subject data. started p' \<longrightarrow> Enqueue subject data p' = Inr (p', False))"
  by (rule Drain_open[OF assms(1,3,4), of pub True]) (auto simp: Enqueue_def)

theorem Drain_completes_witness:
  "\<exists>p'. Drain (\<lambda>_. PubPanic ''nil'') True (demo_publisher\<lparr>queue := [\<lparr>job_subject = ''s'', job_data = ''d''\<rparr>], enqueued := 1\<rparr>)
      = Inr (p', True) \<and> enqueued p' = published p' + publishErr p'"
proof -
  let ?p = "demo_publisher\<lparr>queue := [\<lparr>job_subject = ''s'', job_data = ''d''\<rparr>], enqueued := 1\<rparr>"
  have "publisher_ok ?p" "started ?p" "\<not> closed ?p" "0 < wg ?p"
    by (simp_all add: publisher_ok_def demo_publisher_def)
  from Drain_completes[OF this, of "\<lambda>_. PubPanic ''nil''"] show ?thesis by blast
qed

text \<open>A second \<open>Drain\<close> reports success without waiting, also when the first one timed out with
  jobs still in the queue.\<close>

lemma Drain_again_reports_true:
  "\<exists>p. Drain pub False (demo_publisher\<lparr>queue := [\<lparr>job_subject = ''s'', job_data = ''d''\<rparr>]\<rparr>) = Inr (p, False) \<and>
     Drain pub False p = Inr (p, True) \<and> queue p \<noteq> []"
  by (simp add: Drain_def close_queue_def demo_publisher_def)

end
