(* ===== verification/PublisherConc.thy ===== *)
theory PublisherConc
  imports NatsPublisher
begin

text \<open>
  The concurrent runs of the publisher of \<^verbatim>\<open>src/nats_publisher.go\<close>: any number of goroutines that
  call \<open>Enqueue\<close>, the pool of workers, and any number of calls of \<open>Drain\<close>. A program counter
  stands for the next atomic action of a goroutine: one atomic load or add, one lock operation,
  one channel operation, one access to \<open>closed\<close>. The read-write mutex is the number of readers
  and whether a writer is in. A panic of the Go runtime ends the run in a crash.

  The system starts after \<open>Start\<close> has returned, as \<open>BuildRuntime\<close> has it.
\<close>

section \<open>Definitions\<close>

record pub_shared =
  ap :: AsyncPublisher
  readers :: nat
  writer :: bool

subsection \<open>Enqueue, one action at a time\<close>

datatype enqueue_pc =
    EIdle
  | ELoadStarted publishJob
  | ECountNoStart
  | ECountDroppedNoStart
  | ERLock publishJob
  | EReadClosed publishJob
  | ESend publishJob
  | ECountEnqueued
  | ECountDropped
  | ERUnlock bool

text \<open>\<^const>\<open>None\<close> is a goroutine that cannot go on: no call in progress, or waiting for the lock.\<close>

fun enqueue_step :: "enqueue_pc \<Rightarrow> pub_shared \<Rightarrow> (go_panic + enqueue_pc \<times> pub_shared) option" where
  "enqueue_step EIdle s = None"
| "enqueue_step (ELoadStarted job) s =
     Some (Inr (if started (ap s) then ERLock job else ECountNoStart, s))"
| "enqueue_step ECountNoStart s =
     Some (Inr (ECountDroppedNoStart, s\<lparr>ap := (ap s)\<lparr>droppedNoStart := droppedNoStart (ap s) + 1\<rparr>\<rparr>))"
| "enqueue_step ECountDroppedNoStart s =
     Some (Inr (EIdle, s\<lparr>ap := (ap s)\<lparr>dropped := dropped (ap s) + 1\<rparr>\<rparr>))"
| "enqueue_step (ERLock job) s =
     (if writer s then None else Some (Inr (EReadClosed job, s\<lparr>readers := readers s + 1\<rparr>)))"
| "enqueue_step (EReadClosed job) s =
     Some (Inr (if closed (ap s) then ERUnlock False else ESend job, s))"
| "enqueue_step (ESend job) s =
     Some (case try_send job (ap s) of
             Inl e \<Rightarrow> Inl e
           | Inr (Some p) \<Rightarrow> Inr (ECountEnqueued, s\<lparr>ap := p\<rparr>)
           | Inr None \<Rightarrow> Inr (ECountDropped, s))"
| "enqueue_step ECountEnqueued s =
     Some (Inr (ERUnlock True, s\<lparr>ap := (ap s)\<lparr>enqueued := enqueued (ap s) + 1\<rparr>\<rparr>))"
| "enqueue_step ECountDropped s =
     Some (Inr (ERUnlock False, s\<lparr>ap := (ap s)\<lparr>dropped := dropped (ap s) + 1\<rparr>\<rparr>))"
| "enqueue_step (ERUnlock r) s = Some (Inr (EIdle, s\<lparr>readers := readers s - 1\<rparr>))"

subsection \<open>A worker\<close>

datatype worker_pc =
    WReceive
  | WPublish publishJob
  | WCountPublished
  | WCountPanic
  | WCountError
  | WDone

text \<open>The outcome argument is what the NATS client does with a job; the other actions ignore it.\<close>

fun worker_step :: "pub_outcome \<Rightarrow> worker_pc \<Rightarrow> pub_shared \<Rightarrow> (worker_pc \<times> pub_shared) option" where
  "worker_step out WReceive s =
     (case queue (ap s) of
        job # rest \<Rightarrow> Some (WPublish job, s\<lparr>ap := (ap s)\<lparr>queue := rest\<rparr>\<rparr>)
      | [] \<Rightarrow> if chan_closed (ap s) then Some (WDone, s\<lparr>ap := (ap s)\<lparr>wg := wg (ap s) - 1\<rparr>\<rparr>) else None)"
| "worker_step out (WPublish job) s =
     Some (case out of PubOk \<Rightarrow> WCountPublished | PubErr e \<Rightarrow> WCountError | PubPanic e \<Rightarrow> WCountPanic, s)"
| "worker_step out WCountPublished s =
     Some (WReceive, s\<lparr>ap := (ap s)\<lparr>published := published (ap s) + 1\<rparr>\<rparr>)"
| "worker_step out WCountPanic s =
     Some (WCountError, s\<lparr>ap := (ap s)\<lparr>panics := panics (ap s) + 1\<rparr>\<rparr>)"
| "worker_step out WCountError s =
     Some (WReceive, s\<lparr>ap := (ap s)\<lparr>publishErr := publishErr (ap s) + 1\<rparr>\<rparr>)"
| "worker_step out WDone s = None"

subsection \<open>Drain, one action at a time\<close>

datatype drain_pc =
    DLock
  | DReadClosed
  | DSetClosed
  | DClose
  | DUnlock
  | DUnlockAlready
  | DWait
  | DDone bool

text \<open>The argument says whether the timer fires: \<open>DWait\<close> is the \<^verbatim>\<open>select\<close> on the wait group and the timer.\<close>

fun drain_step :: "bool \<Rightarrow> drain_pc \<Rightarrow> pub_shared \<Rightarrow> (go_panic + drain_pc \<times> pub_shared) option" where
  "drain_step timer DLock s =
     (if writer s \<or> 0 < readers s then None else Some (Inr (DReadClosed, s\<lparr>writer := True\<rparr>)))"
| "drain_step timer DReadClosed s =
     Some (Inr (if closed (ap s) then DUnlockAlready else DSetClosed, s))"
| "drain_step timer DSetClosed s = Some (Inr (DClose, s\<lparr>ap := (ap s)\<lparr>closed := True\<rparr>\<rparr>))"
| "drain_step timer DClose s =
     Some (case close_queue (ap s) of
             Inl e \<Rightarrow> Inl e
           | Inr p \<Rightarrow> Inr (DUnlock, s\<lparr>ap := p\<rparr>))"
| "drain_step timer DUnlock s = Some (Inr (DWait, s\<lparr>writer := False\<rparr>))"
| "drain_step timer DUnlockAlready s = Some (Inr (DDone True, s\<lparr>writer := False\<rparr>))"
| "drain_step timer DWait s =
     (if timer then Some (Inr (DDone False, s))
      else if wg (ap s) = 0 then Some (Inr (DDone True, s)) else None)"
| "drain_step timer (DDone r) s = None"

subsection \<open>The system\<close>

record pub_sys =
  sh :: pub_shared
  producers :: "enqueue_pc list"
  pool :: "worker_pc list"
  drainers :: "drain_pc list"
  crash :: "go_panic option"

definition pub_init :: "AsyncPublisher \<Rightarrow> nat \<Rightarrow> nat \<Rightarrow> pub_sys" where
  "pub_init p nprod ndrain =
     \<lparr>sh = \<lparr>ap = p, readers = 0, writer = False\<rparr>, producers = replicate nprod EIdle,
      pool = replicate (ap_workers p) WReceive, drainers = replicate ndrain DLock, crash = None\<rparr>"

inductive pub_step :: "pub_sys \<Rightarrow> pub_sys \<Rightarrow> bool" where
  call: "crash y = None \<Longrightarrow> i < length (producers y) \<Longrightarrow> producers y ! i = EIdle \<Longrightarrow>
    pub_step y (y\<lparr>producers := (producers y)[i := ELoadStarted job]\<rparr>)"
| enqueue: "crash y = None \<Longrightarrow> i < length (producers y) \<Longrightarrow>
    enqueue_step (producers y ! i) (sh y) = Some (Inr (pc, s)) \<Longrightarrow>
    pub_step y (y\<lparr>sh := s, producers := (producers y)[i := pc]\<rparr>)"
| enqueue_panic: "crash y = None \<Longrightarrow> i < length (producers y) \<Longrightarrow>
    enqueue_step (producers y ! i) (sh y) = Some (Inl e) \<Longrightarrow> pub_step y (y\<lparr>crash := Some e\<rparr>)"
| work: "crash y = None \<Longrightarrow> i < length (pool y) \<Longrightarrow>
    worker_step out (pool y ! i) (sh y) = Some (pc, s) \<Longrightarrow>
    pub_step y (y\<lparr>sh := s, pool := (pool y)[i := pc]\<rparr>)"
| drain: "crash y = None \<Longrightarrow> i < length (drainers y) \<Longrightarrow>
    drain_step timer (drainers y ! i) (sh y) = Some (Inr (pc, s)) \<Longrightarrow>
    pub_step y (y\<lparr>sh := s, drainers := (drainers y)[i := pc]\<rparr>)"
| drain_panic: "crash y = None \<Longrightarrow> i < length (drainers y) \<Longrightarrow>
    drain_step timer (drainers y ! i) (sh y) = Some (Inl e) \<Longrightarrow> pub_step y (y\<lparr>crash := Some e\<rparr>)"

definition pub_reachable :: "AsyncPublisher \<Rightarrow> pub_sys \<Rightarrow> bool" where
  "pub_reachable p y \<longleftrightarrow> (\<exists>nprod ndrain. pub_step\<^sup>*\<^sup>* (pub_init p nprod ndrain) y)"

subsection \<open>A call that runs alone\<close>

text \<open>The actions of one \<open>Enqueue\<close> call in a row; \<open>r\<close> is the result so far, the fuel bounds the
  number of actions.\<close>

fun enqueue_alone :: "nat \<Rightarrow> enqueue_pc \<Rightarrow> bool \<Rightarrow> pub_shared \<Rightarrow> (go_panic + pub_shared \<times> bool) option" where
  "enqueue_alone 0 pc r s = None"
| "enqueue_alone (Suc n) pc r s =
     (case pc of
        EIdle \<Rightarrow> Some (Inr (s, r))
      | _ \<Rightarrow>
        (case enqueue_step pc s of
           None \<Rightarrow> None
         | Some (Inl e) \<Rightarrow> Some (Inl e)
         | Some (Inr (pc', s')) \<Rightarrow>
             enqueue_alone n pc' (case pc of ERUnlock b \<Rightarrow> b | _ \<Rightarrow> r) s'))"

text \<open>The work that is left for the pool once no more jobs can come in.\<close>

fun worker_weight :: "worker_pc \<Rightarrow> nat" where
  "worker_weight WDone = 0" | "worker_weight WReceive = 1" | "worker_weight WCountPublished = 2"
| "worker_weight WCountError = 2" | "worker_weight WCountPanic = 3" | "worker_weight (WPublish _) = 4"

definition work_left :: "pub_sys \<Rightarrow> nat" where
  "work_left y = 4 * length (queue (ap (sh y))) + sum_list (map worker_weight (pool y))"

subsection \<open>The invariant\<close>

text \<open>The goroutines that are in a given phase of their operation.\<close>

fun reading :: "enqueue_pc \<Rightarrow> bool" where
  "reading (EReadClosed _) = True" | "reading (ESend _) = True" | "reading ECountEnqueued = True"
| "reading ECountDropped = True" | "reading (ERUnlock _) = True" | "reading _ = False"

fun sending :: "enqueue_pc \<Rightarrow> bool" where
  "sending (ESend _) = True" | "sending ECountEnqueued = True" | "sending _ = False"

fun holding :: "drain_pc \<Rightarrow> bool" where
  "holding DReadClosed = True" | "holding DSetClosed = True" | "holding DClose = True"
| "holding DUnlock = True" | "holding DUnlockAlready = True" | "holding _ = False"

fun busy :: "worker_pc \<Rightarrow> bool" where
  "busy WReceive = False" | "busy WDone = False" | "busy _ = True"

abbreviation cnt :: "('a \<Rightarrow> bool) \<Rightarrow> 'a list \<Rightarrow> nat" where
  "cnt P xs \<equiv> length (filter P xs)"

definition lock_inv :: "pub_sys \<Rightarrow> bool" where
  "lock_inv y \<longleftrightarrow>
     readers (sh y) = cnt reading (producers y) \<and>
     cnt holding (drainers y) = (if writer (sh y) then 1 else 0) \<and>
     (writer (sh y) \<longrightarrow> readers (sh y) = 0)"

definition close_inv :: "pub_sys \<Rightarrow> bool" where
  "close_inv y \<longleftrightarrow>
     (closed (ap (sh y)) \<longrightarrow> cnt sending (producers y) = 0 \<and> cnt ((=) DSetClosed) (drainers y) = 0) \<and>
     (if cnt ((=) DClose) (drainers y) = 0 then chan_closed (ap (sh y)) = closed (ap (sh y))
      else closed (ap (sh y)) \<and> \<not> chan_closed (ap (sh y)))"

definition flow_inv :: "pub_sys \<Rightarrow> bool" where
  "flow_inv y \<longleftrightarrow>
     length (queue (ap (sh y))) \<le> queue_cap (ap (sh y)) \<and>
     enqueued (ap (sh y)) + of_nat (cnt ((=) ECountEnqueued) (producers y))
       = published (ap (sh y)) + publishErr (ap (sh y)) + of_nat (length (queue (ap (sh y))))
         + of_nat (cnt busy (pool y))"

definition pool_inv :: "pub_sys \<Rightarrow> bool" where
  "pool_inv y \<longleftrightarrow>
     wg (ap (sh y)) + cnt ((=) WDone) (pool y) = length (pool y) \<and>
     (0 < cnt ((=) WDone) (pool y) \<longrightarrow> chan_closed (ap (sh y)) \<and> queue (ap (sh y)) = [])"

definition pub_inv :: "pub_sys \<Rightarrow> bool" where
  "pub_inv y \<longleftrightarrow> lock_inv y \<and> close_inv y \<and> flow_inv y \<and> pool_inv y \<and> crash y = None"

section \<open>Lemmas\<close>

text \<open>How the counts change when goroutine \<open>i\<close> moves.\<close>

lemma cnt_mono: "(\<And>x. P x \<Longrightarrow> Q x) \<Longrightarrow> cnt P xs \<le> cnt Q xs"
  by (induction xs) auto


lemma cnt_upd:
  assumes "i < length xs"
  shows "cnt P (xs[i := new]) = (if P (xs ! i) then cnt P xs - 1 else cnt P xs) + (if P new then 1 else 0)"
  using length_filter_update[OF assms, of P new] filter_nonempty_nth[OF assms, of P] by (auto split: if_splits)

lemma cnt_nth:
  assumes "i < length xs" "P (xs ! i)"
  shows "\<exists>n. cnt P xs = Suc n"
  using filter_nonempty_nth[of i xs P] assms by (cases "cnt P xs") auto

lemma lock_excludes:
  assumes "lock_inv y" "i < length (producers y)" "reading (producers y ! i)"
  shows "\<not> writer (sh y)" "cnt holding (drainers y) = 0" "0 < readers (sh y)"
  using assms cnt_nth[of i "producers y" reading] by (auto simp: lock_inv_def split: if_splits)

lemma holding_excludes:
  assumes "lock_inv y" "i < length (drainers y)" "holding (drainers y ! i)"
  shows "writer (sh y)" "readers (sh y) = 0" "cnt reading (producers y) = 0" "cnt holding (drainers y) = 1"
  using assms cnt_nth[of i "drainers y" holding] by (auto simp: lock_inv_def split: if_splits)

lemma sub_counts:
  "cnt sending xs \<le> cnt reading xs" "cnt ((=) ECountEnqueued) xs \<le> cnt sending xs"
  "cnt ((=) DSetClosed) ds \<le> cnt holding ds" "cnt ((=) DClose) ds \<le> cnt holding ds"
proof -
  have "sending pc \<Longrightarrow> reading pc" for pc by (cases pc) simp_all
  then show "cnt sending xs \<le> cnt reading xs" by (rule cnt_mono)
  show "cnt ((=) ECountEnqueued) xs \<le> cnt sending xs" by (rule cnt_mono) auto
  show "cnt ((=) DSetClosed) ds \<le> cnt holding ds" "cnt ((=) DClose) ds \<le> cnt holding ds"
    by (rule cnt_mono; auto)+
qed

lemma enqueue_lock_inv:
  assumes "lock_inv y" "i < length (producers y)"
    and "enqueue_step (producers y ! i) (sh y) = Some (Inr (pc, s))"
  shows "lock_inv (y\<lparr>sh := s, producers := (producers y)[i := pc]\<rparr>)"
proof (cases "producers y ! i")
  case (ESend job)
  then show ?thesis
    using assms lock_excludes[OF assms(1,2)]
    by (auto simp: lock_inv_def cnt_upd try_send_def split: if_splits)
qed (use assms lock_excludes[OF assms(1,2)] in \<open>auto simp: lock_inv_def cnt_upd split: if_splits\<close>)

lemma enqueue_close_inv:
  assumes "lock_inv y" "close_inv y" "i < length (producers y)"
    and "enqueue_step (producers y ! i) (sh y) = Some (Inr (pc, s))"
  shows "close_inv (y\<lparr>sh := s, producers := (producers y)[i := pc]\<rparr>)"
proof (cases "producers y ! i")
  case (ESend job)
  then show ?thesis
    using assms cnt_nth[of i "producers y" sending]
    by (auto simp: close_inv_def cnt_upd try_send_def split: if_splits)
qed (use assms cnt_nth[of i "producers y" sending] in \<open>auto simp: close_inv_def cnt_upd split: if_splits\<close>)


lemma enqueue_flow_inv:
  assumes "flow_inv y" "i < length (producers y)"
    and "enqueue_step (producers y ! i) (sh y) = Some (Inr (pc, s))"
  shows "flow_inv (y\<lparr>sh := s, producers := (producers y)[i := pc]\<rparr>)"
proof (cases "producers y ! i")
  case (ESend job)
  then show ?thesis
    using assms by (auto simp: flow_inv_def cnt_upd try_send_def algebra_simps split: if_splits)
next
  case ECountEnqueued
  then show ?thesis
    using assms cnt_nth[of i "producers y" "(=) ECountEnqueued"]
    by (auto simp: flow_inv_def cnt_upd algebra_simps split: if_splits)
qed (use assms in \<open>auto simp: flow_inv_def cnt_upd split: if_splits\<close>)

lemma enqueue_pool_inv:
  assumes "close_inv y" "pool_inv y" "i < length (producers y)"
    and "enqueue_step (producers y ! i) (sh y) = Some (Inr (pc, s))"
  shows "pool_inv (y\<lparr>sh := s, producers := (producers y)[i := pc]\<rparr>)"
proof (cases "producers y ! i")
  case (ESend job)
  then show ?thesis
    using assms by (auto simp: pool_inv_def try_send_def split: if_splits)
qed (use assms in \<open>auto simp: pool_inv_def split: if_splits\<close>)

lemma enqueue_no_panic:
  assumes "close_inv y" "i < length (producers y)"
  shows "enqueue_step (producers y ! i) (sh y) \<noteq> Some (Inl e)"
proof (cases "producers y ! i")
  case (ESend job)
  then have "\<not> chan_closed (ap (sh y))"
    using assms cnt_nth[of i "producers y" sending] by (auto simp: close_inv_def split: if_splits)
  then show ?thesis using ESend by (simp add: try_send_def)
qed simp_all

lemma worker_inv:
  assumes "pub_inv y" "i < length (pool y)"
    and "worker_step out (pool y ! i) (sh y) = Some (pc, s)"
  shows "pub_inv (y\<lparr>sh := s, pool := (pool y)[i := pc]\<rparr>)"
proof -
  have "lock_inv (y\<lparr>sh := s, pool := (pool y)[i := pc]\<rparr>) \<and> close_inv (y\<lparr>sh := s, pool := (pool y)[i := pc]\<rparr>)"
    using assms by (cases "pool y ! i") (auto simp: pub_inv_def lock_inv_def close_inv_def split: list.splits if_splits)
  moreover have "flow_inv (y\<lparr>sh := s, pool := (pool y)[i := pc]\<rparr>)"
    using assms cnt_nth[of i "pool y" busy]
    by (cases "pool y ! i")
       (auto simp: pub_inv_def flow_inv_def cnt_upd algebra_simps split: list.splits if_splits pub_outcome.splits)
  moreover have "pool_inv (y\<lparr>sh := s, pool := (pool y)[i := pc]\<rparr>)"
  proof -
    have "cnt ((=) WDone) (pool y) < length (pool y)" if "pool y ! i \<noteq> WDone"
      using assms(2) that by (intro length_filter_less[of "pool y ! i"]) auto
    then show ?thesis
      using assms
      by (cases "pool y ! i")
         (auto simp: pub_inv_def pool_inv_def cnt_upd split: list.splits if_splits pub_outcome.splits)
  qed
  ultimately show ?thesis using assms(1) by (simp add: pub_inv_def)
qed

lemma drain_lock_inv:
  assumes "lock_inv y" "i < length (drainers y)"
    and "drain_step timer (drainers y ! i) (sh y) = Some (Inr (pc, s))"
  shows "lock_inv (y\<lparr>sh := s, drainers := (drainers y)[i := pc]\<rparr>)"
proof (cases "drainers y ! i")
  case DClose
  then show ?thesis
    using assms holding_excludes[OF assms(1,2)]
    by (auto simp: lock_inv_def cnt_upd close_queue_def split: if_splits)
qed (use assms holding_excludes[OF assms(1,2)] in \<open>auto simp: lock_inv_def cnt_upd split: if_splits\<close>)

lemma drain_close_inv:
  assumes "lock_inv y" "close_inv y" "i < length (drainers y)"
    and "drain_step timer (drainers y ! i) (sh y) = Some (Inr (pc, s))"
  shows "close_inv (y\<lparr>sh := s, drainers := (drainers y)[i := pc]\<rparr>)"
proof -
  note sub = sub_counts(1)[of "producers y"] sub_counts(3,4)[of "drainers y"]
  note ex = holding_excludes[OF assms(1,3)]
  note nth = cnt_nth[OF assms(3), of "(=) DSetClosed"] cnt_nth[OF assms(3), of "(=) DClose"]
  show ?thesis
  proof (cases "drainers y ! i")
    case DClose
    then show ?thesis
      using assms(2-4) sub ex nth by (auto simp: close_inv_def cnt_upd close_queue_def split: if_splits)
  qed (use assms(2-4) sub ex nth in \<open>auto simp: close_inv_def cnt_upd split: if_splits\<close>)
qed

lemma drain_no_panic:
  assumes "close_inv y" "i < length (drainers y)"
  shows "drain_step timer (drainers y ! i) (sh y) \<noteq> Some (Inl e)"
proof (cases "drainers y ! i")
  case DClose
  then have "\<not> chan_closed (ap (sh y))"
    using assms cnt_nth[of i "drainers y" "(=) DClose"] by (auto simp: close_inv_def split: if_splits)
  then show ?thesis using DClose by (simp add: close_queue_def)
qed simp_all

lemma drain_flow_pool_inv:
  assumes "flow_inv y" "pool_inv y" "drain_step timer (drainers y ! i) (sh y) = Some (Inr (pc, s))"
  shows "flow_inv (y\<lparr>sh := s, drainers := ds\<rparr>)" "pool_inv (y\<lparr>sh := s, drainers := ds\<rparr>)"
  using assms
  by (cases "drainers y ! i"; auto simp: flow_inv_def pool_inv_def close_queue_def split: if_splits sum.splits)+

lemma pub_step_inv: "pub_step y z \<Longrightarrow> pub_inv y \<Longrightarrow> pub_inv z"
proof (induction rule: pub_step.induct)
  case (call y i job)
  then have "lock_inv (y\<lparr>producers := (producers y)[i := ELoadStarted job]\<rparr>)"
    "close_inv (y\<lparr>producers := (producers y)[i := ELoadStarted job]\<rparr>)"
    "flow_inv (y\<lparr>producers := (producers y)[i := ELoadStarted job]\<rparr>)"
    "pool_inv (y\<lparr>producers := (producers y)[i := ELoadStarted job]\<rparr>)"
    by (auto simp: pub_inv_def lock_inv_def close_inv_def flow_inv_def pool_inv_def cnt_upd)
  with call show ?case by (simp add: pub_inv_def)
next
  case (enqueue y i pc s)
  then show ?case
    by (simp add: pub_inv_def enqueue_lock_inv enqueue_close_inv enqueue_flow_inv enqueue_pool_inv)
next
  case (enqueue_panic y i e)
  then show ?case using enqueue_no_panic[of y i e] by (simp add: pub_inv_def)
next
  case (work y i out pc s)
  then show ?case using worker_inv by blast
next
  case (drain y i timer pc s)
  then show ?case
    by (simp add: pub_inv_def drain_lock_inv drain_close_inv drain_flow_pool_inv)
next
  case (drain_panic y i timer e)
  then show ?case using drain_no_panic[of y i timer e] by (simp add: pub_inv_def)
qed


lemma pub_init_inv:
  assumes "NewAsyncPublisher pub_nil n w = Inr (Inr p0)" "Start p0 = Inr p"
  shows "pub_inv (pub_init p nprod ndrain)"
proof -
  have "p = \<lparr>queue = [], queue_cap = nat n, chan_closed = False, in_work = [], ap_workers = nat w, wg = nat w,
      closed = False, enqueued = 0, published = 0, publishErr = 0, dropped = 0, droppedNoStart = 0,
      panics = 0, started = True\<rparr>"
    using assms by (auto simp: NewAsyncPublisher_def Start_eq split: if_splits)
  then show ?thesis
    by (simp add: pub_init_def pub_inv_def lock_inv_def close_inv_def flow_inv_def pool_inv_def)
qed

text \<open>A started publisher and the states its concurrent runs reach.\<close>

definition started_publisher :: "AsyncPublisher \<Rightarrow> bool" where
  "started_publisher p \<longleftrightarrow> (\<exists>n w p0. NewAsyncPublisher False n w = Inr (Inr p0) \<and> Start p0 = Inr p)"

lemma pub_reachable_inv:
  assumes "started_publisher p" "pub_reachable p y"
  shows "pub_inv y"
proof -
  from assms(2) obtain nprod ndrain where "pub_step\<^sup>*\<^sup>* (pub_init p nprod ndrain) y"
    by (auto simp: pub_reachable_def)
  then show ?thesis
    by (induction rule: rtranclp_induct) (use assms(1) pub_init_inv pub_step_inv in \<open>auto simp: started_publisher_def\<close>)
qed

text \<open>A wait group at zero: the workers have returned, and so the queue is empty.\<close>

lemma pool_finished:
  assumes "pub_inv y" "pool y \<noteq> []" "wg (ap (sh y)) = 0"
  shows "queue (ap (sh y)) = [] \<and> chan_closed (ap (sh y)) \<and> (\<forall>w \<in> set (pool y). w = WDone)"
proof -
  have inv: "pool_inv y" using assms(1) by (simp add: pub_inv_def)
  then have fin: "cnt ((=) WDone) (pool y) = length (pool y)" using assms(3) by (simp add: pool_inv_def)
  then have "\<forall>w \<in> set (pool y). w = WDone"
    using length_filter_less[of _ "pool y" "(=) WDone"] by force
  with inv fin assms(2) show ?thesis by (auto simp: pool_inv_def)
qed

lemma sum_list_update_less:
  fixes f :: "'a \<Rightarrow> nat"
  assumes "i < length xs"
  shows "sum_list (map f (xs[i := x])) + f (xs ! i) = sum_list (map f xs) + f x"
  using assms
proof (induction xs arbitrary: i)
  case (Cons a xs)
  then show ?case by (cases i) auto
qed simp

lemma worker_step_work_left:
  assumes "i < length (pool y)" "worker_step out (pool y ! i) (sh y) = Some (pc, s)"
  shows "work_left (y\<lparr>sh := s, pool := (pool y)[i := pc]\<rparr>) < work_left y"
  using assms sum_list_update_less[OF assms(1), of worker_weight pc]
  by (cases "pool y ! i") (auto simp: work_left_def split: list.splits if_splits pub_outcome.splits)

lemma pub_step_work_left:
  assumes "pub_step y z" "pub_inv y" "closed (ap (sh y))"
  shows "work_left z \<le> work_left y \<and> (pool z \<noteq> pool y \<longrightarrow> work_left z < work_left y)"
  using assms
proof (cases rule: pub_step.cases)
  case (enqueue i pc s)
  have "\<not> sending (producers y ! i)"
    using assms(2,3) enqueue(3) cnt_nth[of i "producers y" sending] by (auto simp: pub_inv_def close_inv_def)
  then have "queue (ap s) = queue (ap (sh y))"
    using enqueue(4) by (cases "producers y ! i") (auto split: if_splits)
  then show ?thesis using enqueue by (simp add: work_left_def)
next
  case (work i out pc s)
  then show ?thesis using worker_step_work_left[OF work(3,4)] by simp
next
  case (drain i timer pc s)
  then have "queue (ap s) = queue (ap (sh y))"
    by (cases "drainers y ! i") (auto simp: close_queue_def split: if_splits sum.splits)
  then show ?thesis using drain by (simp add: work_left_def)
qed (simp_all add: work_left_def)


subsection \<open>A concrete run\<close>

text \<open>One producer, one worker, one \<open>Drain\<close>: the producer's call is under way, \<open>Drain\<close> has closed
  the channel and the worker has returned.\<close>

lemma demo_started: "started_publisher demo_publisher"
  unfolding started_publisher_def
  by (rule exI[of _ 2], rule exI[of _ 1])
     (simp add: NewAsyncPublisher_def makechan_fits_def Start_eq demo_publisher_def)

definition demo_calling :: pub_sys where
  "demo_calling = (pub_init demo_publisher 1 1)
     \<lparr>producers := [ELoadStarted \<lparr>job_subject = ''s'', job_data = ''d''\<rparr>]\<rparr>"

definition demo_draining :: pub_sys where
  "demo_draining = demo_calling\<lparr>sh := \<lparr>ap = demo_publisher\<lparr>closed := True, chan_closed := True\<rparr>,
     readers = 0, writer = False\<rparr>, drainers := [DWait]\<rparr>"

definition demo_drained :: pub_sys where
  "demo_drained = demo_calling\<lparr>sh := \<lparr>ap = demo_publisher\<lparr>closed := True, chan_closed := True, wg := 0\<rparr>,
     readers = 0, writer = False\<rparr>, pool := [WDone], drainers := [DWait]\<rparr>"

lemma demo_reach_calling: "pub_reachable demo_publisher demo_calling"
proof -
  have "pub_step (pub_init demo_publisher 1 1) demo_calling"
    using pub_step.call[of "pub_init demo_publisher 1 1" 0 "\<lparr>job_subject = ''s'', job_data = ''d''\<rparr>"]
    by (simp add: pub_init_def demo_calling_def)
  then show ?thesis unfolding pub_reachable_def by blast
qed

lemma demo_last_step: "pub_step demo_draining demo_drained"
  using pub_step.work[of demo_draining 0 PubOk WDone "sh demo_drained"]
  by (simp add: demo_draining_def demo_calling_def demo_drained_def pub_init_def demo_publisher_def)

lemma demo_reach_draining: "pub_reachable demo_publisher demo_draining"
proof -
  define at where "at pc s = demo_calling\<lparr>sh := s, drainers := [pc]\<rparr>" for pc s
  let ?s0 = "\<lparr>ap = demo_publisher, readers = 0, writer = False\<rparr>"
  let ?s1 = "?s0\<lparr>writer := True\<rparr>"
  let ?s2 = "?s1\<lparr>ap := demo_publisher\<lparr>closed := True\<rparr>\<rparr>"
  let ?s3 = "?s2\<lparr>ap := demo_publisher\<lparr>closed := True, chan_closed := True\<rparr>\<rparr>"
  let ?s4 = "?s3\<lparr>writer := False\<rparr>"
  have move: "pub_step (at pc s) (at pc' s')" if "drain_step False pc s = Some (Inr (pc', s'))" for pc s pc' s'
    using pub_step.drain[of "at pc s" 0 False pc' s'] that
    by (simp add: at_def demo_calling_def pub_init_def)
  have st0: "demo_calling = at DLock ?s0" by (simp add: at_def demo_calling_def pub_init_def)
  have st1: "pub_step (at DLock ?s0) (at DReadClosed ?s1)" by (rule move) simp
  have st2: "pub_step (at DReadClosed ?s1) (at DSetClosed ?s1)"
    by (rule move) (simp add: demo_publisher_def)
  have st3: "pub_step (at DSetClosed ?s1) (at DClose ?s2)" by (rule move) simp
  have st4: "pub_step (at DClose ?s2) (at DUnlock ?s3)"
    by (rule move) (simp add: close_queue_def demo_publisher_def)
  have st5: "pub_step (at DUnlock ?s3) (at DWait ?s4)" by (rule move) simp
  have st6: "demo_draining = at DWait ?s4" by (simp add: at_def demo_draining_def)
  note trans = converse_rtranclp_into_rtranclp
  have "pub_step\<^sup>*\<^sup>* demo_calling demo_draining"
    unfolding st0 st6 using trans[OF st1 trans[OF st2 trans[OF st3 trans[OF st4 r_into_rtranclp[of pub_step, OF st5]]]]] .
  with demo_reach_calling show ?thesis
    unfolding pub_reachable_def by (meson rtranclp_trans)
qed

lemma demo_reach_drained: "pub_reachable demo_publisher demo_drained"
  using demo_reach_draining demo_last_step unfolding pub_reachable_def
  by (meson rtranclp.rtrancl_into_rtrancl)

section \<open>Properties\<close>

text \<open>C17: No interleaving of \<open>Enqueue\<close>, workers and \<open>Drain\<close> panics: no reachable state of a started
  publisher has crashed on a send on a closed channel or a second close of the channel.\<close>

theorem publisher_never_panics:
  assumes "started_publisher p" "pub_reachable p y"
  shows "crash y = None"
  using pub_reachable_inv[OF assms] by (simp add: pub_inv_def)

theorem publisher_never_panics_witness: "crash demo_drained = None"
  using publisher_never_panics[OF demo_started demo_reach_drained] .

text \<open>In every interleaving the queue stays within its capacity and no accepted job is lost or
  published twice: jobs accepted (counted, or about to be) equal jobs published, failed, queued
  or in a worker's hands, modulo 2^64.\<close>

theorem publisher_conserves_jobs:
  assumes "started_publisher p" "pub_reachable p y"
  shows "length (queue (ap (sh y))) \<le> queue_cap (ap (sh y)) \<and>
    enqueued (ap (sh y)) + of_nat (cnt ((=) ECountEnqueued) (producers y))
      = published (ap (sh y)) + publishErr (ap (sh y)) + of_nat (length (queue (ap (sh y))))
        + of_nat (cnt busy (pool y))"
  using pub_reachable_inv[OF assms] by (simp add: pub_inv_def flow_inv_def)

theorem publisher_conserves_jobs_witness:
  "length (queue (ap (sh demo_drained))) \<le> queue_cap (ap (sh demo_drained))"
  using publisher_conserves_jobs[OF demo_started demo_reach_drained] by blast

text \<open>When \<open>Drain\<close> reports success after waiting, the pool is done: the channel is closed, the
  queue is empty, every worker has returned, no producer is between its send and its count, and
  every accepted job is accounted for.\<close>

theorem Drain_success_means_drained:
  assumes "started_publisher p" "pub_reachable p y"
    and "i < length (drainers y)" "drainers y ! i = DWait" "pool y \<noteq> []"
    and "drain_step False (drainers y ! i) (sh y) = Some (Inr (DDone True, s))"
  shows "closed (ap s) \<and> chan_closed (ap s) \<and> queue (ap s) = [] \<and> (\<forall>w \<in> set (pool y). w = WDone) \<and>
    enqueued (ap s) = published (ap s) + publishErr (ap s)"
proof -
  have inv: "lock_inv y" "close_inv y" "flow_inv y" "pool_inv y"
    using pub_reachable_inv[OF assms(1,2)] by (simp_all add: pub_inv_def)
  have s: "s = sh y" and wg: "wg (ap (sh y)) = 0" using assms(4,6) by (auto split: if_splits)
  have cl: "queue (ap (sh y)) = []" "chan_closed (ap (sh y))" and all: "\<forall>w \<in> set (pool y). w = WDone"
    using pool_finished[OF pub_reachable_inv[OF assms(1,2)] assms(5) wg] by simp_all
  then have idle: "filter busy (pool y) = []" by (auto simp: filter_empty_conv)
  from cl(2) have "closed (ap (sh y))" using inv(2) by (auto simp: close_inv_def split: if_splits)
  then have "cnt sending (producers y) = 0" using inv(2) by (auto simp: close_inv_def)
  then have "cnt ((=) ECountEnqueued) (producers y) = 0" using sub_counts(2)[of "producers y"] by simp
  with inv(3) cl idle have "enqueued (ap (sh y)) = published (ap (sh y)) + publishErr (ap (sh y))"
    by (simp add: flow_inv_def)
  with s cl all \<open>closed (ap (sh y))\<close> show ?thesis by simp
qed

theorem Drain_success_means_drained_witness:
  "queue (ap (sh demo_drained)) = [] \<and> enqueued (ap (sh demo_drained)) = published (ap (sh demo_drained)) + publishErr (ap (sh demo_drained))"
  using Drain_success_means_drained[OF demo_started demo_reach_drained, of 0 "sh demo_drained"]
  by (simp add: demo_drained_def)

text \<open>C20: Draining makes progress. Once \<open>closed\<close> is set, the work left for the pool never grows and
  shrinks with every action of a worker; and while the channel is closed and a worker has not
  returned, that worker can act. So the pool finishes after boundedly many of its actions.\<close>

theorem Drain_makes_progress:
  assumes "started_publisher p" "pub_reachable p y" "closed (ap (sh y))"
  shows "(\<forall>z. pub_step y z \<longrightarrow> work_left z \<le> work_left y \<and> (pool z \<noteq> pool y \<longrightarrow> work_left z < work_left y)) \<and>
    (chan_closed (ap (sh y)) \<longrightarrow>
       (\<forall>i < length (pool y). pool y ! i \<noteq> WDone \<longrightarrow>
          (\<exists>pc s. worker_step out (pool y ! i) (sh y) = Some (pc, s) \<and>
             pub_step y (y\<lparr>sh := s, pool := (pool y)[i := pc]\<rparr>))))"
proof -
  have inv: "pub_inv y" by (rule pub_reachable_inv[OF assms(1,2)])
  then have crash: "crash y = None" by (simp add: pub_inv_def)
  have "\<exists>pc s. worker_step out (pool y ! i) (sh y) = Some (pc, s)"
    if "chan_closed (ap (sh y))" "pool y ! i \<noteq> WDone" for i
    using that by (cases "pool y ! i") (auto split: list.splits)
  then show ?thesis using pub_step_work_left[OF _ inv assms(3)] pub_step.work[OF crash] by blast
qed

theorem Drain_makes_progress_witness:
  "pub_step demo_draining demo_drained \<and> work_left demo_drained < work_left demo_draining"
proof -
  have "closed (ap (sh demo_draining))" by (simp add: demo_draining_def)
  moreover have "pool demo_drained \<noteq> pool demo_draining"
    by (simp add: demo_drained_def demo_draining_def demo_calling_def pub_init_def demo_publisher_def)
  ultimately show ?thesis
    using Drain_makes_progress[OF demo_started demo_reach_draining] demo_last_step by blast
qed

text \<open>C21: The sequential model is what a call does when it runs alone: the actions of one \<open>Enqueue\<close>
  in a row, with no writer holding the lock, end within six actions in the result and the state
  of the one-step operation, with the lock as it was.\<close>

theorem Enqueue_refines:
  assumes "\<not> writer s"
  shows "enqueue_alone 7 (ELoadStarted job) False s =
    Some (map_sum id (\<lambda>(p, acc). (s\<lparr>ap := p\<rparr>, acc)) (Enqueue (job_subject job) (job_data job) (ap s)))"
  using assms
  by (cases "started (ap s)"; cases "closed (ap s)"; cases "chan_closed (ap s)";
      cases "length (queue (ap s)) < queue_cap (ap s)")
     (simp_all add: Enqueue_def try_send_def numeral_eq_Suc)


theorem Enqueue_refines_witness:
  "\<exists>r. enqueue_alone 7 (ELoadStarted \<lparr>job_subject = ''s'', job_data = ''d''\<rparr>) False
     \<lparr>ap = demo_publisher, readers = 1, writer = False\<rparr> = Some (Inr r) \<and> snd r"
  using Enqueue_refines[of "\<lparr>ap = demo_publisher, readers = 1, writer = False\<rparr>" "\<lparr>job_subject = ''s'', job_data = ''d''\<rparr>"]
  by (simp add: Enqueue_def try_send_def demo_publisher_def)

end
