(* ===== verification/PublisherTrace.thy ===== *)
theory PublisherTrace
  imports PublisherConc "HOL-Library.Multiset"
begin

text \<open>
  Histories of the concurrent publisher: which jobs were put on the channel, taken off it and handed
  to NATS, in which order. A schedule says which goroutine acts next; \<open>pub_act\<close> carries one action
  out, so that runs can be computed, and it takes exactly the steps of \<open>pub_step\<close>.
\<close>

section \<open>Definitions\<close>

record pub_hist =
  hs_sys :: pub_sys
  hs_sent :: "publishJob list"
  hs_taken :: "publishJob list"
  hs_handed :: "publishJob list"

datatype pub_action =
    ACall nat publishJob
  | AEnqueue nat
  | AWork nat pub_outcome
  | ADrain nat bool

definition hist_init :: "AsyncPublisher \<Rightarrow> nat \<Rightarrow> nat \<Rightarrow> pub_hist" where
  "hist_init p nprod ndrain = \<lparr>hs_sys = pub_init p nprod ndrain, hs_sent = [], hs_taken = [], hs_handed = []\<rparr>"

text \<open>The job that an action of a producer puts on the channel, and the jobs that an action of a worker
  takes off it and passes to \<^verbatim>\<open>Publish\<close>.\<close>

definition sends :: "enqueue_pc \<Rightarrow> pub_shared \<Rightarrow> publishJob list" where
  "sends pc s =
     (case pc of
        ESend job \<Rightarrow> (case try_send job (ap s) of Inr (Some _) \<Rightarrow> [job] | _ \<Rightarrow> [])
      | _ \<Rightarrow> [])"

definition takes :: "worker_pc \<Rightarrow> pub_shared \<Rightarrow> publishJob list" where
  "takes pc s = (case pc of WReceive \<Rightarrow> take 1 (queue (ap s)) | _ \<Rightarrow> [])"

definition in_hand :: "worker_pc \<Rightarrow> publishJob list" where
  "in_hand pc = (case pc of WPublish job \<Rightarrow> [job] | _ \<Rightarrow> [])"

fun pub_act :: "pub_action \<Rightarrow> pub_hist \<Rightarrow> pub_hist option" where
  "pub_act (ACall i job) h =
     (let y = hs_sys h in
      if crash y = None \<and> i < length (producers y) \<and> producers y ! i = EIdle
      then Some (h\<lparr>hs_sys := y\<lparr>producers := (producers y)[i := ELoadStarted job]\<rparr>\<rparr>) else None)"
| "pub_act (AEnqueue i) h =
     (let y = hs_sys h in
      if crash y \<noteq> None \<or> length (producers y) \<le> i then None
      else case enqueue_step (producers y ! i) (sh y) of
             None \<Rightarrow> None
           | Some (Inl e) \<Rightarrow> Some (h\<lparr>hs_sys := y\<lparr>crash := Some e\<rparr>\<rparr>)
           | Some (Inr (pc, s)) \<Rightarrow>
               Some (h\<lparr>hs_sys := y\<lparr>sh := s, producers := (producers y)[i := pc]\<rparr>,
                       hs_sent := hs_sent h @ sends (producers y ! i) (sh y)\<rparr>))"
| "pub_act (AWork i out) h =
     (let y = hs_sys h in
      if crash y \<noteq> None \<or> length (pool y) \<le> i then None
      else case worker_step out (pool y ! i) (sh y) of
             None \<Rightarrow> None
           | Some (pc, s) \<Rightarrow>
               Some (h\<lparr>hs_sys := y\<lparr>sh := s, pool := (pool y)[i := pc]\<rparr>,
                       hs_taken := hs_taken h @ takes (pool y ! i) (sh y),
                       hs_handed := hs_handed h @ in_hand (pool y ! i)\<rparr>))"
| "pub_act (ADrain i timer) h =
     (let y = hs_sys h in
      if crash y \<noteq> None \<or> length (drainers y) \<le> i then None
      else case drain_step timer (drainers y ! i) (sh y) of
             None \<Rightarrow> None
           | Some (Inl e) \<Rightarrow> Some (h\<lparr>hs_sys := y\<lparr>crash := Some e\<rparr>\<rparr>)
           | Some (Inr (pc, s)) \<Rightarrow> Some (h\<lparr>hs_sys := y\<lparr>sh := s, drainers := (drainers y)[i := pc]\<rparr>\<rparr>))"

fun pub_exec :: "pub_action list \<Rightarrow> pub_hist \<Rightarrow> pub_hist option" where
  "pub_exec [] h = Some h"
| "pub_exec (a # as) h = (case pub_act a h of None \<Rightarrow> None | Some h' \<Rightarrow> pub_exec as h')"

section \<open>Lemmas\<close>

interpretation schedule: run_system pub_act pub_exec
  by unfold_locales simp_all

subsection \<open>Schedules and steps\<close>

lemma pub_act_step:
  assumes "pub_act a h = Some h'"
  shows "pub_step (hs_sys h) (hs_sys h')"
proof (cases a)
  case (ACall i job)
  with assms pub_step.call[of "hs_sys h" i job] show ?thesis by (auto simp: Let_def split: if_splits)
next
  case (AEnqueue i)
  with assms pub_step.enqueue[of "hs_sys h" i] pub_step.enqueue_panic[of "hs_sys h" i] show ?thesis
    by (auto simp: Let_def not_le split: if_splits option.splits sum.splits)
next
  case (AWork i out)
  with assms pub_step.work[of "hs_sys h" i out] show ?thesis
    by (auto simp: Let_def not_le split: if_splits option.splits)
next
  case (ADrain i timer)
  with assms pub_step.drain[of "hs_sys h" i timer] pub_step.drain_panic[of "hs_sys h" i timer] show ?thesis
    by (auto simp: Let_def not_le split: if_splits option.splits sum.splits)
qed

lemma pub_step_act:
  assumes "pub_step (hs_sys h) z"
  shows "\<exists>a h'. pub_act a h = Some h' \<and> hs_sys h' = z"
  using assms
proof (cases rule: pub_step.cases)
  case (call i job)
  then show ?thesis by (intro exI[of _ "ACall i job"]) (simp add: Let_def)
next
  case (enqueue i pc s)
  then show ?thesis by (intro exI[of _ "AEnqueue i"]) (simp add: Let_def)
next
  case (enqueue_panic i e)
  then show ?thesis by (intro exI[of _ "AEnqueue i"]) (simp add: Let_def)
next
  case (work i out pc s)
  then show ?thesis by (intro exI[of _ "AWork i out"]) (simp add: Let_def)
next
  case (drain i timer pc s)
  then show ?thesis by (intro exI[of _ "ADrain i timer"]) (simp add: Let_def)
next
  case (drain_panic i timer e)
  then show ?thesis by (intro exI[of _ "ADrain i timer"]) (simp add: Let_def)
qed

text \<open>A state is reachable exactly when a schedule leads to it.\<close>

lemma exec_reachable:
  assumes "pub_exec as (hist_init p nprod ndrain) = Some h"
  shows "pub_reachable p (hs_sys h)"
proof (rule schedule.exec_inv[OF _ assms])
  fix a y z
  assume "pub_act a y = Some z" "pub_reachable p (hs_sys y)"
  then show "pub_reachable p (hs_sys z)"
    using pub_act_step unfolding pub_reachable_def by (metis rtranclp.rtrancl_into_rtrancl)
qed (auto simp: pub_reachable_def hist_init_def)

lemma reachable_exec:
  assumes "pub_reachable p y"
  shows "\<exists>as nprod ndrain h. pub_exec as (hist_init p nprod ndrain) = Some h \<and> hs_sys h = y"
proof -
  from assms obtain nprod ndrain where "pub_step\<^sup>*\<^sup>* (pub_init p nprod ndrain) y" by (auto simp: pub_reachable_def)
  then have "\<exists>as h. pub_exec as (hist_init p nprod ndrain) = Some h \<and> hs_sys h = y"
  proof (induction rule: rtranclp_induct)
    case base
    show ?case by (intro exI[of _ "[]"]) (simp add: hist_init_def)
  next
    case (step y z)
    then obtain as h where as: "pub_exec as (hist_init p nprod ndrain) = Some h" "hs_sys h = y" by blast
    with step(2) obtain a h' where "pub_act a h = Some h'" "hs_sys h' = z" using pub_step_act by blast
    with as show ?case by (intro exI[of _ "as @ [a]"]) (simp add: schedule.exec_append)
  qed
  then show ?thesis by blast
qed

subsection \<open>The invariant of a history\<close>

lemma mset_concat_update:
  "i < length xs \<Longrightarrow>
   mset (concat (map f (xs[i := x]))) + mset (f (xs ! i)) = mset (concat (map f xs)) + mset (f x)"
proof (induction xs arbitrary: i)
  case (Cons y ys)
  show ?case
  proof (cases i)
    case (Suc j)
    with Cons have "mset (concat (map f (ys[j := x]))) + mset (f (ys ! j)) = mset (concat (map f ys)) + mset (f x)" by simp
    with Suc show ?thesis by (simp add: ac_simps)
  qed (simp add: ac_simps)
qed simp

definition hist_inv :: "pub_hist \<Rightarrow> bool" where
  "hist_inv h \<longleftrightarrow>
     hs_taken h @ queue (ap (sh (hs_sys h))) = hs_sent h \<and>
     mset (hs_taken h) = mset (hs_handed h) + mset (concat (map in_hand (pool (hs_sys h))))"

lemma enqueue_queue:
  "enqueue_step pc s = Some (Inr (pc', s')) \<Longrightarrow> queue (ap s') = queue (ap s) @ sends pc s"
  by (cases pc) (auto simp: sends_def try_send_def split: if_splits)

lemma worker_queue:
  "worker_step out pc s = Some (pc', s') \<Longrightarrow> takes pc s @ queue (ap s') = queue (ap s) \<and>
   in_hand pc' = takes pc s"
  by (cases pc) (auto simp: takes_def in_hand_def split: list.splits if_splits pub_outcome.splits)

lemma drain_queue: "drain_step timer pc s = Some (Inr (pc', s')) \<Longrightarrow> queue (ap s') = queue (ap s)"
  by (cases pc) (auto simp: close_queue_def split: if_splits)

lemma pub_act_hist_inv:
  assumes "pub_act a h = Some h'" "hist_inv h"
  shows "hist_inv h'"
proof (cases a)
  case (ACall i job)
  with assms show ?thesis by (auto simp: hist_inv_def Let_def split: if_splits)
next
  case (AEnqueue i)
  with assms show ?thesis
    by (auto simp: hist_inv_def Let_def enqueue_queue simp flip: append_assoc split: if_splits option.splits sum.splits)
next
  case (AWork i out)
  with assms(1) obtain pc s where w: "i < length (pool (hs_sys h))"
    "worker_step out (pool (hs_sys h) ! i) (sh (hs_sys h)) = Some (pc, s)"
    "h' = h\<lparr>hs_sys := (hs_sys h)\<lparr>sh := s, pool := (pool (hs_sys h))[i := pc]\<rparr>,
       hs_taken := hs_taken h @ takes (pool (hs_sys h) ! i) (sh (hs_sys h)),
       hs_handed := hs_handed h @ in_hand (pool (hs_sys h) ! i)\<rparr>"
    by (auto simp: Let_def split: if_splits option.splits)
  with worker_queue[OF w(2)] mset_concat_update[OF w(1), of in_hand pc] assms(2) show ?thesis
    by (auto simp: hist_inv_def ac_simps)
next
  case (ADrain i timer)
  with assms show ?thesis
    by (auto simp: hist_inv_def Let_def drain_queue split: if_splits option.splits sum.splits)
qed

lemma started_empty: "started_publisher p \<Longrightarrow> queue p = []"
  by (auto simp: started_publisher_def NewAsyncPublisher_def Start_eq split: if_splits)

lemma exec_hist_inv:
  assumes "started_publisher p" "pub_exec as (hist_init p nprod ndrain) = Some h"
  shows "hist_inv h"
proof (rule schedule.exec_inv[OF _ assms(2)])
  show "hist_inv (hist_init p nprod ndrain)"
    using started_empty[OF assms(1)] by (auto simp: hist_inv_def hist_init_def pub_init_def in_hand_def)
qed (rule pub_act_hist_inv)

subsection \<open>A concrete schedule\<close>

text \<open>One producer, one worker, one \<open>Drain\<close>: a job is accepted, published, and the pool drained.\<close>

definition demo_job :: publishJob where "demo_job = \<lparr>job_subject = ''s'', job_data = ''d''\<rparr>"

definition demo_schedule :: "pub_action list" where
  "demo_schedule = ACall 0 demo_job # replicate 6 (AEnqueue 0) @ replicate 3 (AWork 0 PubOk) @
     replicate 5 (ADrain 0 False) @ [AWork 0 PubOk]"

lemma demo_history:
  "\<exists>h. pub_exec demo_schedule (hist_init demo_publisher 1 1) = Some h \<and> hs_sent h = [demo_job] \<and>
     drainers (hs_sys h) = [DWait] \<and> length (pool (hs_sys h)) = 1 \<and> wg (ap (sh (hs_sys h))) = 0"
  by (simp add: demo_schedule_def hist_init_def pub_init_def demo_publisher_def sends_def takes_def in_hand_def
      try_send_def close_queue_def Let_def eval_nat_numeral)

section \<open>Properties\<close>

text \<open>C18: In every interleaving the channel is first in, first out, and no accepted job is lost or
  handed to NATS twice: the jobs that workers have taken, followed by those still queued, are the
  jobs put on the channel in their order, and each job taken has been handed to NATS once or is in
  the hands of one worker.\<close>

theorem publisher_hands_each_once:
  assumes "started_publisher p" "pub_exec as (hist_init p nprod ndrain) = Some h"
  shows "hs_taken h @ queue (ap (sh (hs_sys h))) = hs_sent h \<and>
    mset (hs_taken h) = mset (hs_handed h) + mset (concat (map in_hand (pool (hs_sys h))))"
  using exec_hist_inv[OF assms] by (simp add: hist_inv_def)

theorem publisher_hands_each_once_witness:
  "\<exists>h. pub_exec demo_schedule (hist_init demo_publisher 1 1) = Some h \<and>
     hs_taken h @ queue (ap (sh (hs_sys h))) = [demo_job]"
proof -
  obtain h where h: "pub_exec demo_schedule (hist_init demo_publisher 1 1) = Some h" "hs_sent h = [demo_job]"
    using demo_history by blast
  from publisher_hands_each_once[OF demo_started h(1)] h show ?thesis by simp
qed

text \<open>C19: When \<open>Drain\<close> finds the pool done, every job that was ever accepted has been handed to NATS
  exactly once, and the workers took the jobs in the order of acceptance.\<close>

theorem drained_means_delivered:
  assumes "started_publisher p" "pub_exec as (hist_init p nprod ndrain) = Some h"
    and "DWait \<in> set (drainers (hs_sys h))" "pool (hs_sys h) \<noteq> []" "wg (ap (sh (hs_sys h))) = 0"
  shows "hs_taken h = hs_sent h \<and> mset (hs_handed h) = mset (hs_sent h)"
proof -
  have fin: "queue (ap (sh (hs_sys h))) = []" "\<forall>w \<in> set (pool (hs_sys h)). w = WDone"
    using pool_finished[OF pub_reachable_inv[OF assms(1) exec_reachable[OF assms(2)]] assms(4,5)] by simp_all
  then have "concat (map in_hand (pool (hs_sys h))) = []" by (auto simp: in_hand_def)
  with exec_hist_inv[OF assms(1,2)] fin(1) show ?thesis by (auto simp: hist_inv_def)
qed

theorem drained_means_delivered_witness:
  "\<exists>h. pub_exec demo_schedule (hist_init demo_publisher 1 1) = Some h \<and> mset (hs_handed h) = {#demo_job#}"
proof -
  obtain h where h: "pub_exec demo_schedule (hist_init demo_publisher 1 1) = Some h" "hs_sent h = [demo_job]"
    "drainers (hs_sys h) = [DWait]" "length (pool (hs_sys h)) = 1" "wg (ap (sh (hs_sys h))) = 0"
    using demo_history by blast
  then have "DWait \<in> set (drainers (hs_sys h))" "pool (hs_sys h) \<noteq> []" by auto
  from drained_means_delivered[OF demo_started h(1) this h(5)] h(1,2) show ?thesis by simp
qed

end
