(* ===== verification/GoStrings.thy ===== *)
theory GoStrings
  imports Prelude
begin

text \<open>
  The parts of Go's \<^verbatim>\<open>strings\<close>, \<^verbatim>\<open>strconv\<close> and \<^verbatim>\<open>unicode/utf8\<close> packages that the plugin calls, on
  byte strings: UTF-8 decoding (\<^verbatim>\<open>range\<close> over a string), \<^verbatim>\<open>ContainsRune\<close>, \<^verbatim>\<open>SplitN\<close>, \<^verbatim>\<open>TrimSpace\<close>,
  \<^verbatim>\<open>EqualFold\<close>, \<^verbatim>\<open>Itoa\<close> and \<^verbatim>\<open>Atoi\<close>.
\<close>

section \<open>Definitions\<close>

subsection \<open>UTF-8\<close>

definition byte :: "char \<Rightarrow> nat" where
  "byte c = of_char c"

definition runeError :: rune where
  "runeError = 0xFFFD"

definition cont :: "nat \<Rightarrow> bool" where
  "cont b \<longleftrightarrow> 0x80 \<le> b \<and> b \<le> 0xBF"

text \<open>
  \<open>DecodeRune s\<close> is the first code point of \<open>s\<close> and its width; an ill-formed sequence is
  U+FFFD of width 1. The bounds on the second byte exclude overlong forms, surrogates and
  values above U+10FFFF.
\<close>

definition second_ok :: "nat \<Rightarrow> nat \<Rightarrow> bool" where
  "second_ok b0 b1 \<longleftrightarrow>
     (if b0 = 0xE0 then 0xA0 \<le> b1 \<and> b1 \<le> 0xBF
      else if b0 = 0xED then 0x80 \<le> b1 \<and> b1 \<le> 0x9F
      else if b0 = 0xF0 then 0x90 \<le> b1 \<and> b1 \<le> 0xBF
      else if b0 = 0xF4 then 0x80 \<le> b1 \<and> b1 \<le> 0x8F
      else cont b1)"

fun DecodeRune :: "string \<Rightarrow> rune \<times> nat" where
  "DecodeRune [] = (runeError, 0)"
| "DecodeRune (c0 # s) =
     (let b0 = byte c0 in
      if b0 < 0x80 then (b0, 1)
      else if 0xC2 \<le> b0 \<and> b0 \<le> 0xDF then
        (case s of
           c1 # _ \<Rightarrow>
             if cont (byte c1) then ((b0 - 0xC0) * 64 + (byte c1 - 0x80), 2) else (runeError, 1)
         | _ \<Rightarrow> (runeError, 1))
      else if 0xE0 \<le> b0 \<and> b0 \<le> 0xEF then
        (case s of
           c1 # c2 # _ \<Rightarrow>
             if second_ok b0 (byte c1) \<and> cont (byte c2)
             then ((b0 - 0xE0) * 4096 + (byte c1 - 0x80) * 64 + (byte c2 - 0x80), 3)
             else (runeError, 1)
         | _ \<Rightarrow> (runeError, 1))
      else if 0xF0 \<le> b0 \<and> b0 \<le> 0xF4 then
        (case s of
           c1 # c2 # c3 # _ \<Rightarrow>
             if second_ok b0 (byte c1) \<and> cont (byte c2) \<and> cont (byte c3)
             then ((b0 - 0xF0) * 262144 + (byte c1 - 0x80) * 4096
                   + (byte c2 - 0x80) * 64 + (byte c3 - 0x80), 4)
             else (runeError, 1)
         | _ \<Rightarrow> (runeError, 1))
      else (runeError, 1))"

text \<open>The code points a \<^verbatim>\<open>range\<close> loop visits. The width of a non-empty string's first rune is positive.\<close>

lemma DecodeRune_width_pos: "s \<noteq> [] \<Longrightarrow> 0 < snd (DecodeRune s)"
  by (cases s) (auto simp: Let_def split: list.splits)

function runes :: "string \<Rightarrow> rune list" where
  "runes s = (if s = [] then []
              else fst (DecodeRune s) # runes (drop (snd (DecodeRune s)) s))"
  by pat_completeness auto
termination
  by (relation "measure length") (use DecodeRune_width_pos in \<open>auto simp: diff_less\<close>)

declare runes.simps [simp del]

text \<open>The UTF-8 encoding of a code point (\<^verbatim>\<open>utf8.AppendRune\<close>).\<close>

definition encodeRune :: "rune \<Rightarrow> string" where
  "encodeRune r =
     map char_of
      (if r < 0x80 then [r]
       else if r < 0x800 then [0xC0 + r div 64, 0x80 + r mod 64]
       else if 0x10FFFF < r \<or> (0xD800 \<le> r \<and> r \<le> 0xDFFF) then [0xEF, 0xBF, 0xBD]
       else if r < 0x10000 then [0xE0 + r div 4096, 0x80 + r div 64 mod 64, 0x80 + r mod 64]
       else [0xF0 + r div 262144, 0x80 + r div 4096 mod 64, 0x80 + r div 64 mod 64, 0x80 + r mod 64])"

subsection \<open>strings.ContainsRune, strings.SplitN\<close>

definition ContainsRune :: "string \<Rightarrow> rune \<Rightarrow> bool" where
  "ContainsRune s r \<longleftrightarrow> r \<in> set (runes s)"

text \<open>\<^verbatim>\<open>strings.SplitN(s, sep, n)\<close> for a one-byte separator and \<open>n \<ge> 0\<close>.\<close>

fun SplitN :: "nat \<Rightarrow> char \<Rightarrow> string \<Rightarrow> string list" where
  "SplitN 0 sep s = []"
| "SplitN (Suc 0) sep s = [s]"
| "SplitN (Suc (Suc n)) sep s =
     (if sep \<in> set s
      then takeWhile (\<lambda>c. c \<noteq> sep) s # SplitN (Suc n) sep (tl (dropWhile (\<lambda>c. c \<noteq> sep) s))
      else [s])"

subsection \<open>strings.TrimSpace\<close>

text \<open>
  The UTF-8 encodings of the code points for which \<^verbatim>\<open>unicode.IsSpace\<close> holds. A string begins
  (ends) with such a rune exactly when it begins (ends) with one of these byte sequences.
\<close>

definition spaceSeqs :: "string list" where
  "spaceSeqs = map encodeRune
     ([9, 10, 11, 12, 13, 32, 0x85, 0xA0, 0x1680] @ [0x2000..<0x200B] @
      [0x2028, 0x2029, 0x202F, 0x205F, 0x3000])"

function stripFront :: "'a list list \<Rightarrow> 'a list \<Rightarrow> 'a list" where
  "stripFront ps s =
     (case find (\<lambda>p. p \<noteq> [] \<and> take (length p) s = p) ps of
        None \<Rightarrow> s
      | Some p \<Rightarrow> stripFront ps (drop (length p) s))"
  by pat_completeness auto
termination
proof (relation "measure (\<lambda>(ps, s). length s)")
  fix ps :: "'a list list" and s p
  assume "find (\<lambda>p. p \<noteq> [] \<and> take (length p) s = p) ps = Some p"
  then have "p \<noteq> []" and "take (length p) s = p"
    by (auto simp: find_Some_iff)
  then show "((ps, drop (length p) s), ps, s) \<in> measure (\<lambda>(ps, s). length s)"
    by (cases s) (auto simp: diff_less)
qed simp

declare stripFront.simps [simp del]

definition TrimSpace :: "string \<Rightarrow> string" where
  "TrimSpace s = rev (stripFront (map rev spaceSeqs) (rev (stripFront spaceSeqs s)))"

subsection \<open>strings.EqualFold\<close>

definition lowerRune :: "rune \<Rightarrow> rune" where
  "lowerRune r = (if 0x41 \<le> r \<and> r \<le> 0x5A then r + 32 else r)"

text \<open>
  Equality of two code points under \<^verbatim>\<open>unicode.SimpleFold\<close>. The two non-ASCII code points that fold
  to ASCII letters are U+212A (Kelvin sign, with k) and U+017F (long s, with s). How two
  non-ASCII code points fold is the generated table of package \<^verbatim>\<open>unicode\<close>: the parameter \<open>sf\<close>.
\<close>

definition asciiFold :: "rune \<Rightarrow> rune" where
  "asciiFold r = (if r = 0x212A then 0x6B else if r = 0x17F then 0x73 else lowerRune r)"

definition foldRuneEq :: "(rune \<Rightarrow> rune \<Rightarrow> bool) \<Rightarrow> rune \<Rightarrow> rune \<Rightarrow> bool" where
  "foldRuneEq sf a b \<longleftrightarrow>
     asciiFold a = asciiFold b \<or> (0x80 \<le> asciiFold a \<and> 0x80 \<le> asciiFold b \<and> sf a b)"

definition EqualFold :: "(rune \<Rightarrow> rune \<Rightarrow> bool) \<Rightarrow> string \<Rightarrow> string \<Rightarrow> bool" where
  "EqualFold sf s t \<longleftrightarrow> list_all2 (foldRuneEq sf) (runes s) (runes t)"

subsection \<open>strconv.Itoa, strconv.Atoi\<close>

definition digitChar :: "nat \<Rightarrow> char" where
  "digitChar d = char_of (48 + d)"

fun natDigits :: "nat \<Rightarrow> string" where
  "natDigits n = (if n < 10 then [digitChar n] else natDigits (n div 10) @ [digitChar (n mod 10)])"

declare natDigits.simps [simp del]

definition Itoa :: "int \<Rightarrow> string" where
  "Itoa n = (if n < 0 then CHR ''-'' # natDigits (nat (- n)) else natDigits (nat n))"

definition isDigit :: "char \<Rightarrow> bool" where
  "isDigit c \<longleftrightarrow> 48 \<le> byte c \<and> byte c \<le> 57"

definition digitVal :: "char \<Rightarrow> nat" where
  "digitVal c = byte c - 48"

definition digitsVal :: "string \<Rightarrow> nat" where
  "digitsVal s = foldl (\<lambda>n c. 10 * n + digitVal c) 0 s"

text \<open>\<open>Atoi\<close> is \<^const>\<open>None\<close> where \<^verbatim>\<open>strconv.Atoi\<close> returns an error: no digits, a byte that is not a
  digit, or a value outside the 64-bit range.\<close>

definition parseDigits :: "string \<Rightarrow> nat option" where
  "parseDigits s = (if s \<noteq> [] \<and> list_all isDigit s then Some (digitsVal s) else None)"

definition inInt64 :: "int \<Rightarrow> bool" where
  "inInt64 n \<longleftrightarrow> min_int64 \<le> n \<and> n \<le> max_int64"

declare inInt64_def [int64_defs]

definition Atoi :: "string \<Rightarrow> int option" where
  "Atoi s =
     (let neg = (s \<noteq> [] \<and> hd s = CHR ''-'');
          body = (if s \<noteq> [] \<and> (hd s = CHR ''-'' \<or> hd s = CHR ''+'') then tl s else s)
      in case parseDigits body of
           None \<Rightarrow> None
         | Some m \<Rightarrow> (let n = (if neg then - int m else int m) in if inInt64 n then Some n else None))"

section \<open>Lemmas\<close>

subsection \<open>UTF-8 decoding and ASCII bytes\<close>

lemma byte_less: "byte c < 256"
  by (simp add: byte_def)

lemma byte_inj: "byte c = byte d \<longleftrightarrow> c = d"
  by (simp add: byte_def)

lemma byte_char_of [simp]: "n < 256 \<Longrightarrow> byte (char_of n) = n"
  by (simp add: byte_def)

lemma char_of_byte [simp]: "char_of (byte c) = c"
  by (simp add: byte_def)

lemma DecodeRune_width_le: "snd (DecodeRune s) \<le> length s"
  by (cases s) (auto simp: Let_def split: list.splits)

lemma DecodeRune_ascii_first: "byte c < 0x80 \<Longrightarrow> DecodeRune (c # s) = (byte c, 1)"
  by (simp add: Let_def)

lemma second_ok_cont: "second_ok b0 b1 \<Longrightarrow> cont b1"
  by (simp add: second_ok_def cont_def split: if_splits)

text \<open>The shapes a decoded prefix can have.\<close>

lemma DecodeRune_cases:
  assumes "0x80 \<le> byte c"
  obtains (bad) "DecodeRune (c # s) = (runeError, 1)"
  | (two) c1 t where "s = c1 # t" "0xC2 \<le> byte c" "byte c \<le> 0xDF" "cont (byte c1)"
      "DecodeRune (c # s) = ((byte c - 0xC0) * 64 + (byte c1 - 0x80), 2)"
  | (three) c1 c2 t where "s = c1 # c2 # t" "0xE0 \<le> byte c" "byte c \<le> 0xEF"
      "second_ok (byte c) (byte c1)" "cont (byte c2)"
      "DecodeRune (c # s) = ((byte c - 0xE0) * 4096 + (byte c1 - 0x80) * 64 + (byte c2 - 0x80), 3)"
  | (four) c1 c2 c3 t where "s = c1 # c2 # c3 # t" "0xF0 \<le> byte c" "byte c \<le> 0xF4"
      "second_ok (byte c) (byte c1)" "cont (byte c2)" "cont (byte c3)"
      "DecodeRune (c # s) = ((byte c - 0xF0) * 262144 + (byte c1 - 0x80) * 4096
         + (byte c2 - 0x80) * 64 + (byte c3 - 0x80), 4)"
proof -
  consider (a) "0xC2 \<le> byte c \<and> byte c \<le> 0xDF" | (b) "0xE0 \<le> byte c \<and> byte c \<le> 0xEF"
    | (c) "0xF0 \<le> byte c \<and> byte c \<le> 0xF4"
    | (d) "\<not> (0xC2 \<le> byte c \<and> byte c \<le> 0xDF)" "\<not> (0xE0 \<le> byte c \<and> byte c \<le> 0xEF)"
          "\<not> (0xF0 \<le> byte c \<and> byte c \<le> 0xF4)"
    by blast
  then show thesis
  proof cases
    case a
    then show thesis
      using bad two[of "hd s" "tl s"]
      by (cases s; cases "cont (byte (hd s))") (auto simp: Let_def)
  next
    case b
    then show thesis
      using bad three[of "hd s" "hd (tl s)" "tl (tl s)"]
      by (cases s; cases "tl s"; cases "second_ok (byte c) (byte (hd s)) \<and> cont (byte (hd (tl s)))")
         (auto simp: Let_def)
  next
    case c
    then show thesis
      using bad four[of "hd s" "hd (tl s)" "hd (tl (tl s))" "tl (tl (tl s))"]
      by (cases s; cases "tl s"; cases "tl (tl s)";
          cases "second_ok (byte c) (byte (hd s)) \<and> cont (byte (hd (tl s))) \<and> cont (byte (hd (tl (tl s))))")
         (auto simp: Let_def)
  next
    case d
    then have "DecodeRune (c # s) = (runeError, 1)"
      using assms by (auto simp: Let_def)
    then show thesis by (rule bad)
  qed
qed

declare DecodeRune.simps(2) [simp del]

lemma DecodeRune_nonascii_first:
  assumes "0x80 \<le> byte c"
  shows "0x80 \<le> fst (DecodeRune (c # s)) \<and>
    (\<forall>d \<in> set (take (snd (DecodeRune (c # s))) (c # s)). 0x80 \<le> byte d)"
  using assms
proof (cases rule: DecodeRune_cases[where s = s])
  case bad
  with assms show ?thesis by (simp add: runeError_def)
next
  case (two c1 t)
  then have "128 \<le> (byte c - 192) * 64" by simp
  with two assms show ?thesis by (auto simp: cont_def)
next
  case (three c1 c2 t)
  then have "cont (byte c1)" by (simp add: second_ok_cont)
  moreover have "32 \<le> byte c1 - 0x80 \<or> 1 \<le> byte c - 0xE0"
    using three(2,4) by (auto simp: second_ok_def split: if_splits)
  ultimately show ?thesis using three assms by (auto simp: cont_def)
next
  case (four c1 c2 c3 t)
  then have "cont (byte c1)" by (simp add: second_ok_cont)
  moreover have "16 \<le> byte c1 - 0x80 \<or> 1 \<le> byte c - 0xF0"
    using four(2,4) by (auto simp: second_ok_def split: if_splits)
  ultimately show ?thesis using four assms by (auto simp: cont_def)
qed

lemma ascii_in_runes_iff:
  assumes "r < 0x80"
  shows "r \<in> set (runes s) \<longleftrightarrow> char_of r \<in> set s"
proof (induction s rule: runes.induct)
  case (1 s)
  show ?case
  proof (cases s)
    case Nil
    then show ?thesis by (simp add: runes.simps)
  next
    case (Cons c t)
    let ?n = "snd (DecodeRune s)"
    have IH: "r \<in> set (runes (drop ?n s)) \<longleftrightarrow> char_of r \<in> set (drop ?n s)"
      using "1.IH" Cons by simp
    have runes: "runes s = fst (DecodeRune s) # runes (drop ?n s)"
      using Cons by (subst runes.simps) simp
    have split: "set s = set (take ?n s) \<union> set (drop ?n s)"
      by (metis append_take_drop_id set_append)
    show ?thesis
    proof (cases "byte c < 0x80")
      case True
      with Cons have "DecodeRune s = (byte c, 1)" by (simp add: DecodeRune_ascii_first)
      with IH runes Cons assms show ?thesis by auto
    next
      case False
      then have "0x80 \<le> byte c" by simp
      from DecodeRune_nonascii_first[OF this, of t] Cons
      have hi: "0x80 \<le> fst (DecodeRune s)" and tk: "\<forall>d \<in> set (take ?n s). 0x80 \<le> byte d"
        by simp_all
      have "byte (char_of r) = r" using assms by simp
      with tk assms have "char_of r \<notin> set (take ?n s)" by fastforce
      with split IH runes hi assms show ?thesis by auto
    qed
  qed
qed

lemma ContainsRune_ascii: "byte c < 0x80 \<Longrightarrow> ContainsRune s (byte c) \<longleftrightarrow> c \<in> set s"
  by (simp add: ContainsRune_def ascii_in_runes_iff)

lemma runes_ascii: "list_all (\<lambda>c. byte c < 0x80) s \<Longrightarrow> runes s = map byte s"
proof (induction s)
  case Nil
  then show ?case by (simp add: runes.simps)
next
  case (Cons c s)
  then show ?case by (subst runes.simps) (simp add: DecodeRune_ascii_first)
qed

subsection \<open>SplitN\<close>

lemma split_at_sep:
  assumes "sep \<in> set s"
  shows "s = takeWhile (\<lambda>c. c \<noteq> sep) s @ sep # tl (dropWhile (\<lambda>c. c \<noteq> sep) s)"
proof -
  have "dropWhile (\<lambda>c. c \<noteq> sep) s \<noteq> []" and "hd (dropWhile (\<lambda>c. c \<noteq> sep) s) = sep"
    using assms hd_dropWhile[of "\<lambda>c. c \<noteq> sep" s] by auto
  then show ?thesis
    by (metis list.collapse takeWhile_dropWhile_id)
qed

lemma takeWhile_sep_append:
  "sep \<notin> set a \<Longrightarrow> takeWhile (\<lambda>c. c \<noteq> sep) (a @ sep # b) = a"
  "sep \<notin> set a \<Longrightarrow> dropWhile (\<lambda>c. c \<noteq> sep) (a @ sep # b) = sep # b"
  by (induction a) auto

lemma SplitN_append:
  "sep \<notin> set a \<Longrightarrow> SplitN (Suc (Suc n)) sep (a @ sep # b) = a # SplitN (Suc n) sep b"
  by (simp add: takeWhile_sep_append)

lemma SplitN_no_sep: "sep \<notin> set s \<Longrightarrow> SplitN (Suc (Suc n)) sep s = [s]"
  by simp

text \<open>The pieces, joined by the separator, are the string again.\<close>

lemma SplitN_join:
  "0 < n \<Longrightarrow> foldr (\<lambda>p acc. case acc of None \<Rightarrow> Some p | Some r \<Rightarrow> Some (p @ sep # r)) (SplitN n sep s) None = Some s"
proof (induction n sep s rule: SplitN.induct)
  case (3 n sep s)
  then show ?case using split_at_sep[of sep s] by auto
qed simp_all

subsection \<open>TrimSpace\<close>

lemma stripFront_None:
  "find (\<lambda>p. p \<noteq> [] \<and> take (length p) s = p) ps = None \<Longrightarrow> stripFront ps s = s"
  by (subst stripFront.simps) simp

lemma stripFront_stuck: "find (\<lambda>p. p \<noteq> [] \<and> take (length p) (stripFront ps s) = p) ps = None"
proof (induction ps s rule: stripFront.induct)
  case (1 ps s)
  show ?case
  proof (cases "find (\<lambda>p. p \<noteq> [] \<and> take (length p) s = p) ps")
    case None
    then show ?thesis by (simp add: stripFront_None)
  next
    case (Some p)
    with "1.IH" show ?thesis by (subst stripFront.simps) simp
  qed
qed

lemma stripFront_suffix: "\<exists>pre. s = pre @ stripFront ps s"
proof (induction ps s rule: stripFront.induct)
  case (1 ps s)
  show ?case
  proof (cases "find (\<lambda>p. p \<noteq> [] \<and> take (length p) s = p) ps")
    case None
    then show ?thesis by (simp add: stripFront_None)
  next
    case (Some p)
    with "1.IH" obtain pre where "drop (length p) s = pre @ stripFront ps (drop (length p) s)" by blast
    then have "s = (take (length p) s @ pre) @ stripFront ps (drop (length p) s)"
      by (metis append.assoc append_take_drop_id)
    moreover have "stripFront ps s = stripFront ps (drop (length p) s)"
      using Some by (subst stripFront.simps) simp
    ultimately show ?thesis by metis
  qed
qed

lemma find_None_prefix:
  assumes "find (\<lambda>p. p \<noteq> [] \<and> take (length p) (a @ b) = p) ps = None"
  shows "find (\<lambda>p. p \<noteq> [] \<and> take (length p) a = p) ps = None"
proof -
  have "take (length p) (a @ b) = p" if "take (length p) a = p" for p :: "'a list"
  proof -
    from that have "length p \<le> length a" by (metis length_take min.cobounded1)
    with that show ?thesis by simp
  qed
  with assms show ?thesis by (auto simp: find_None_iff)
qed

text \<open>A trimmed string neither begins nor ends with a space rune.\<close>

definition trimmed :: "string \<Rightarrow> bool" where
  "trimmed s \<longleftrightarrow>
     (\<forall>p \<in> set spaceSeqs. p \<noteq> [] \<longrightarrow> take (length p) s \<noteq> p \<and> take (length p) (rev s) \<noteq> rev p)"

lemma trimmed_TrimSpace: "trimmed (TrimSpace s)"
proof -
  let ?l = "stripFront spaceSeqs s"
  let ?r = "stripFront (map rev spaceSeqs) (rev ?l)"
  obtain pre where "rev ?l = pre @ ?r" using stripFront_suffix by blast
  then have l: "?l = rev ?r @ rev pre" by (metis rev_append rev_rev_ident)
  have "find (\<lambda>p. p \<noteq> [] \<and> take (length p) (rev ?r @ rev pre) = p) spaceSeqs = None"
    using stripFront_stuck[of spaceSeqs s] l by simp
  then have front: "find (\<lambda>p. p \<noteq> [] \<and> take (length p) (rev ?r) = p) spaceSeqs = None"
    by (rule find_None_prefix)
  have rear: "find (\<lambda>p. p \<noteq> [] \<and> take (length p) ?r = p) (map rev spaceSeqs) = None"
    by (rule stripFront_stuck)
  from front rear show ?thesis
    by (auto simp: trimmed_def TrimSpace_def find_None_iff)
qed

lemma trimmed_stripFront:
  assumes "trimmed s"
  shows "stripFront spaceSeqs s = s" and "stripFront (map rev spaceSeqs) (rev s) = rev s"
proof -
  show "stripFront spaceSeqs s = s"
    using assms by (intro stripFront_None) (auto simp: trimmed_def find_None_iff)
  show "stripFront (map rev spaceSeqs) (rev s) = rev s"
    using assms by (intro stripFront_None) (auto simp: trimmed_def find_None_iff)
qed

lemma TrimSpace_trimmed: "trimmed s \<Longrightarrow> TrimSpace s = s"
  by (simp add: TrimSpace_def trimmed_stripFront)

lemma TrimSpace_idem [simp]: "TrimSpace (TrimSpace s) = TrimSpace s"
  by (simp add: TrimSpace_trimmed trimmed_TrimSpace)

lemma TrimSpace_Nil [simp]: "TrimSpace [] = []"
proof -
  have "trimmed []" by (simp add: trimmed_def)
  then show ?thesis by (rule TrimSpace_trimmed)
qed

subsection \<open>EqualFold\<close>

lemma EqualFold_refl [simp]: "EqualFold sf s s"
  by (simp add: EqualFold_def foldRuneEq_def list_all2_refl)

lemma EqualFold_sym: "(\<And>a b. sf a b \<longleftrightarrow> sf b a) \<Longrightarrow> EqualFold sf s t \<longleftrightarrow> EqualFold sf t s"
  unfolding EqualFold_def foldRuneEq_def
  by (subst list_all2_conv_all_nth, subst list_all2_conv_all_nth) (metis (full_types))

text \<open>Against an ASCII string the Unicode tables play no role.\<close>

lemma asciiFold_ascii: "r < 0x80 \<Longrightarrow> asciiFold r < 0x80"
  by (simp add: asciiFold_def lowerRune_def)

lemma EqualFold_ascii:
  assumes "list_all (\<lambda>c. byte c < 0x80) t"
  shows "EqualFold sf s t \<longleftrightarrow> map asciiFold (runes s) = map (asciiFold \<circ> byte) t"
proof -
  have "foldRuneEq sf a (byte c) \<longleftrightarrow> asciiFold a = asciiFold (byte c)" if "c \<in> set t" for a c
    using that assms asciiFold_ascii[of "byte c"]
    by (auto simp: foldRuneEq_def list_all_iff linorder_not_le)
  then have "EqualFold sf s t \<longleftrightarrow> list_all2 (\<lambda>a c. asciiFold a = asciiFold (byte c)) (runes s) t"
    using runes_ascii[OF assms]
    by (auto simp: EqualFold_def list_all2_map2 list_all2_conv_all_nth)
  also have "\<dots> \<longleftrightarrow> map asciiFold (runes s) = map (asciiFold \<circ> byte) t"
    by (auto simp: list_all2_conv_all_nth list_eq_iff_nth_eq)
  finally show ?thesis .
qed

subsection \<open>Itoa and Atoi\<close>

lemma natDigits_ne [simp]: "natDigits n \<noteq> []"
  by (subst natDigits.simps) simp

lemma isDigit_digitChar: "d < 10 \<Longrightarrow> isDigit (digitChar d)"
  and digitVal_digitChar: "d < 10 \<Longrightarrow> digitVal (digitChar d) = d"
  by (simp_all add: isDigit_def digitChar_def digitVal_def)

lemma natDigits_digits: "list_all isDigit (natDigits n)"
proof (induction n rule: natDigits.induct)
  case (1 n)
  then show ?case by (subst natDigits.simps) (simp add: isDigit_digitChar)
qed

lemma digitsVal_natDigits: "digitsVal (natDigits n) = n"
proof (induction n rule: natDigits.induct)
  case (1 n)
  then show ?case
    by (subst natDigits.simps) (auto simp: digitsVal_def digitVal_digitChar)
qed

lemma parseDigits_natDigits [simp]: "parseDigits (natDigits n) = Some n"
  by (simp add: parseDigits_def natDigits_digits digitsVal_natDigits)

lemma isDigit_not_sign: "isDigit c \<Longrightarrow> c \<noteq> CHR ''-'' \<and> c \<noteq> CHR ''+''"
  by (auto simp: isDigit_def byte_def)

lemma hd_natDigits: "hd (natDigits n) \<noteq> CHR ''-'' \<and> hd (natDigits n) \<noteq> CHR ''+''"
  using natDigits_digits[of n] isDigit_not_sign
  by (metis list.set_sel(1) list_all_iff natDigits_ne)

lemma Atoi_Itoa: "inInt64 n \<Longrightarrow> Atoi (Itoa n) = Some n"
  using hd_natDigits by (simp add: Atoi_def Itoa_def Let_def)

lemma Itoa_inj: "inInt64 m \<Longrightarrow> inInt64 n \<Longrightarrow> Itoa m = Itoa n \<longleftrightarrow> m = n"
  by (metis Atoi_Itoa option.inject)

lemma Atoi_range: "Atoi s = Some n \<Longrightarrow> inInt64 n"
  by (auto simp: Atoi_def Let_def split: option.splits if_splits)

subsection \<open>Strings with visible ASCII edges are trimmed\<close>

lemma encodeRune_bytes: "c \<in> set (encodeRune r) \<Longrightarrow> (r < 128 \<and> byte c = r) \<or> 128 \<le> byte c"
proof -
  have "r < 2048 \<Longrightarrow> 192 + r div 64 < 256" "r < 65536 \<Longrightarrow> 224 + r div 4096 < 256"
    "r \<le> 1114111 \<Longrightarrow> 240 + r div 262144 < 256" "128 + x mod 64 < 256" for x :: nat
    using less_mult_imp_div_less[of r 32 64] less_mult_imp_div_less[of r 32 4096]
      less_mult_imp_div_less[of r 16 262144] mod_less_divisor[of 64 x] by simp_all
  moreover assume "c \<in> set (encodeRune r)"
  ultimately show ?thesis
    by (auto simp: encodeRune_def not_less split: if_splits)
qed

lemma spaceSeqs_bytes: "list_all (\<lambda>p. p \<noteq> [] \<and> list_all (\<lambda>c. byte c < 33 \<or> 128 \<le> byte c) p) spaceSeqs"
proof -
  have "encodeRune r \<noteq> [] \<and> list_all (\<lambda>c. byte c < 33 \<or> 128 \<le> byte c) (encodeRune r)" if "r < 33 \<or> 128 \<le> r" for r
    using that encodeRune_bytes[of _ r] by (auto simp: list_all_iff encodeRune_def)
  moreover have "list_all (\<lambda>r. r < 33 \<or> (128 :: nat) \<le> r) ([9, 10, 11, 12, 13, 32, 0x85, 0xA0, 0x1680] @
      [0x2000..<0x200B] @ [0x2028, 0x2029, 0x202F, 0x205F, 0x3000])"
    by (simp add: list_all_iff)
  ultimately show ?thesis
    unfolding spaceSeqs_def list.pred_map by (elim list.pred_mono_strong) (simp only: o_apply simp_thms)
qed

lemma trimmed_edges:
  assumes "s \<noteq> []" "33 \<le> byte (hd s)" "byte (hd s) < 128" "33 \<le> byte (last s)" "byte (last s) < 128"
  shows "trimmed s"
proof -
  have "take (length p) s \<noteq> p \<and> take (length p) (rev s) \<noteq> rev p" if p: "p \<in> set spaceSeqs" "p \<noteq> []" for p
  proof -
    have pc: "\<forall>c \<in> set p. byte c < 33 \<or> 128 \<le> byte c"
      using spaceSeqs_bytes p by (auto simp: list_all_iff)
    have "hd (take (length p) s) = hd s" "hd (take (length p) (rev s)) = last s"
      using assms(1) p(2) by (simp_all add: hd_rev)
    moreover have "hd p \<in> set p" "hd (rev p) \<in> set p" using p(2) by (simp_all add: hd_rev)
    ultimately show ?thesis using pc assms(2-5) by (metis not_le)
  qed
  then show ?thesis by (auto simp: trimmed_def)
qed

lemma TrimSpace_Itoa: "TrimSpace (Itoa n) = Itoa n"
proof (rule TrimSpace_trimmed, rule trimmed_edges)
  have d: "list_all isDigit (natDigits m)" "natDigits m \<noteq> []" for m by (simp_all add: natDigits_digits)
  have e: "isDigit (hd (natDigits m))" "isDigit (last (natDigits m))" for m
    using d[of m] by (simp_all add: list_all_iff)
  have b: "33 \<le> byte (CHR ''-'')" "byte (CHR ''-'') < 128" by (simp_all add: byte_def)
  show "Itoa n \<noteq> []" by (simp add: Itoa_def)
  show "33 \<le> byte (hd (Itoa n))" "byte (hd (Itoa n)) < 128" "33 \<le> byte (last (Itoa n))" "byte (last (Itoa n)) < 128"
    using e[of "nat n"] e[of "nat (- n)"] b by (auto simp: Itoa_def isDigit_def)
qed

end
