(* ===== verification/AuthEntry.thy ===== *)
theory AuthEntry
  imports GoStrings
begin

text \<open>
  \<^verbatim>\<open>src/auth_entry.go\<close>: the cached auth projection of one asset and the two credential gates.
  A Go method on a nil receiver is the operation at \<^const>\<open>None\<close>.
\<close>

section \<open>Definitions\<close>

definition AuthTypePassword :: string where "AuthTypePassword = ''password''"
definition AuthTypeCert :: string where "AuthTypeCert = ''cert''"

record AuthEntry =
  Enabled :: bool
  AssetUUID :: string
  OrgId :: string
  AuthType :: string
  PasswordHash :: string
  CurrentCertSerial :: string

definition zero_AuthEntry :: AuthEntry where
  "zero_AuthEntry = \<lparr>Enabled = False, AssetUUID = '''', OrgId = '''', AuthType = '''',
     PasswordHash = '''', CurrentCertSerial = ''''\<rparr>"

fun AuthorizesPassword :: "AuthEntry option \<Rightarrow> bool" where
  "AuthorizesPassword None = False"
| "AuthorizesPassword (Some e) =
     (Enabled e \<and> AuthType e = AuthTypePassword \<and> PasswordHash e \<noteq> '''')"

fun AuthorizesCertSerial :: "(rune \<Rightarrow> rune \<Rightarrow> bool) \<Rightarrow> AuthEntry option \<Rightarrow> string \<Rightarrow> bool" where
  "AuthorizesCertSerial sf None serial = False"
| "AuthorizesCertSerial sf (Some e) serial =
     (if \<not> Enabled e \<or> serial = '''' then False
      else if AuthType e \<noteq> AuthTypeCert then False
      else CurrentCertSerial e \<noteq> '''' \<and> EqualFold sf (CurrentCertSerial e) serial)"

section \<open>Lemmas\<close>

lemma AuthorizesPassword_iff:
  "AuthorizesPassword p \<longleftrightarrow>
     (\<exists>e. p = Some e \<and> Enabled e \<and> AuthType e = AuthTypePassword \<and> PasswordHash e \<noteq> '''')"
  by (cases p) auto

lemma AuthorizesCertSerial_iff:
  "AuthorizesCertSerial sf p serial \<longleftrightarrow>
     (\<exists>e. p = Some e \<and> Enabled e \<and> AuthType e = AuthTypeCert \<and> serial \<noteq> '''' \<and>
          CurrentCertSerial e \<noteq> '''' \<and> EqualFold sf (CurrentCertSerial e) serial)"
  by (cases p) auto

section \<open>Properties\<close>

text \<open>The two credential gates exclude each other: no entry, present or nil, authorizes both a
  password and a certificate serial.\<close>

lemma auth_modes_exclusive:
  "\<not> (AuthorizesPassword p \<and> AuthorizesCertSerial sf p serial)"
  by (cases p) (auto simp: AuthTypePassword_def AuthTypeCert_def)

text \<open>For an ASCII serial (the hexadecimal text OpenSSL renders) the certificate gate compares
  letter case away and nothing else: an enabled cert-mode entry authorizes the serial exactly
  when its stored serial decodes to the same ASCII letters up to case.\<close>

lemma AuthorizesCertSerial_ascii:
  assumes "list_all (\<lambda>c. byte c < 0x80) serial"
  shows "AuthorizesCertSerial sf (Some e) serial \<longleftrightarrow>
     Enabled e \<and> AuthType e = ''cert'' \<and> serial \<noteq> '''' \<and> CurrentCertSerial e \<noteq> '''' \<and>
     map asciiFold (runes (CurrentCertSerial e)) = map (asciiFold \<circ> byte) serial"
  using EqualFold_ascii[OF assms] by (auto simp: AuthTypeCert_def)

theorem AuthorizesCertSerial_ascii_witness:
  "AuthorizesCertSerial (\<lambda>_ _. False)
     (Some (zero_AuthEntry\<lparr>Enabled := True, AuthType := ''cert'', CurrentCertSerial := ''0aFf''\<rparr>)) ''0AfF''"
proof -
  have asc: "list_all (\<lambda>c. byte c < 0x80) ''0AfF''" "list_all (\<lambda>c. byte c < 0x80) ''0aFf''"
    by (simp_all add: byte_def)
  show ?thesis
    by (subst AuthorizesCertSerial_ascii[OF asc(1)])
       (simp add: runes_ascii[OF asc(2)] zero_AuthEntry_def asciiFold_def lowerRune_def byte_def)
qed

end
