(* ===== verification/GoTime.thy ===== *)
theory GoTime
  imports GoStrings
begin

text \<open>
  Go's \<^verbatim>\<open>time\<close> package as far as the plugin uses it: an instant is the number of nanoseconds since
  1970-01-01 UTC, \<open>MarshalTime\<close> and \<open>parseRFC3339\<close> are the RFC 3339 text that
  \<^verbatim>\<open>Time.MarshalJSON\<close> writes and \<^verbatim>\<open>Time.UnmarshalJSON\<close> reads. The main result is that reading
  what was written gives the instant back.
\<close>

section \<open>Definitions\<close>

definition Nanosecond :: duration where "Nanosecond = 1"
definition Second :: duration where "Second = 1000000000"
definition Minute :: duration where "Minute = 60 * Second"

text \<open>The zero \<^verbatim>\<open>time.Time\<close>: midnight of 1 January of year 1.\<close>

definition zero_time :: time where
  "zero_time = - 62135596800 * Second"

text \<open>\<^verbatim>\<open>now.Sub(t)\<close> saturates at the ends of the 64-bit range.\<close>

definition time_Sub :: "time \<Rightarrow> time \<Rightarrow> duration" where
  "time_Sub t u = sat64 (t - u)"

subsection \<open>Calendar\<close>

text \<open>
  Years are counted from 1 March, so that the leap day is the last day of its year. \<open>eraDay\<close> is a
  day within a 400-year era; \<open>marchYear\<close> splits it into the centuries, four-year cycles and
  years before it and the day of the year.
\<close>

definition marchYear :: "int \<Rightarrow> int \<times> int" where
  "marchYear doe =
     (let c = min 3 (doe div 36524); r1 = doe - c * 36524;
          q = r1 div 1461; r2 = r1 - q * 1461;
          y = min 3 (r2 div 365)
      in (100 * c + 4 * q + y, r2 - 365 * y))"

definition civil_of_days :: "int \<Rightarrow> int \<times> int \<times> int" where
  "civil_of_days z =
     (let era = (z + 719468) div 146097; doe = (z + 719468) mod 146097;
          (yoe, doy) = marchYear doe;
          mp = (5 * doy + 2) div 153;
          d = doy - (153 * mp + 2) div 5 + 1;
          m = (if mp < 10 then mp + 3 else mp - 9);
          y = yoe + era * 400
      in (if m \<le> 2 then y + 1 else y, m, d))"

definition days_of_civil :: "int \<Rightarrow> int \<Rightarrow> int \<Rightarrow> int" where
  "days_of_civil y m d =
     (let y' = (if m \<le> 2 then y - 1 else y);
          era = y' div 400; yoe = y' mod 400;
          mp = (if 2 < m then m - 3 else m + 9);
          doy = (153 * mp + 2) div 5 + d - 1;
          doe = yoe * 365 + yoe div 4 - yoe div 100 + doy
      in era * 146097 + doe - 719468)"

definition isLeap :: "int \<Rightarrow> bool" where
  "isLeap y \<longleftrightarrow> y mod 4 = 0 \<and> (y mod 100 \<noteq> 0 \<or> y mod 400 = 0)"

definition daysIn :: "int \<Rightarrow> int \<Rightarrow> int" where
  "daysIn m y = (if m = 2 then (if isLeap y then 29 else 28)
                 else if m = 4 \<or> m = 6 \<or> m = 9 \<or> m = 11 then 30 else 31)"

subsection \<open>RFC 3339 text\<close>

definition pad2 :: "int \<Rightarrow> string" where
  "pad2 n = [digitChar (nat n div 10), digitChar (nat n mod 10)]"

definition pad4 :: "int \<Rightarrow> string" where
  "pad4 n = [digitChar (nat n div 1000), digitChar (nat n div 100 mod 10),
             digitChar (nat n div 10 mod 10), digitChar (nat n mod 10)]"

fun padN :: "nat \<Rightarrow> nat \<Rightarrow> string" where
  "padN 0 n = []"
| "padN (Suc k) n = padN k (n div 10) @ [digitChar (n mod 10)]"

text \<open>The fraction without its trailing zeros; nothing at all when it is zero.\<close>

definition fracText :: "nat \<Rightarrow> string" where
  "fracText ns = (if ns = 0 then []
     else CHR ''.'' # rev (dropWhile (\<lambda>c. c = CHR ''0'') (rev (padN 9 ns))))"

text \<open>\<^const>\<open>None\<close> where \<^verbatim>\<open>MarshalJSON\<close> fails: a year outside 0 to 9999.\<close>

definition MarshalTime :: "time \<Rightarrow> string option" where
  "MarshalTime t =
     (let secs = t div Second; ns = t mod Second;
          (y, m, d) = civil_of_days (secs div 86400); sod = secs mod 86400
      in if 0 \<le> y \<and> y \<le> 9999
         then Some (pad4 y @ ''-'' @ pad2 m @ ''-'' @ pad2 d @ ''T'' @
                    pad2 (sod div 3600) @ '':'' @ pad2 (sod div 60 mod 60) @ '':'' @ pad2 (sod mod 60) @
                    fracText (nat ns) @ ''Z'')
         else None)"

definition parseUint :: "string \<Rightarrow> int \<Rightarrow> int \<Rightarrow> int option" where
  "parseUint s lo hi =
     (if list_all isDigit s \<and> lo \<le> int (digitsVal s) \<and> int (digitsVal s) \<le> hi
      then Some (int (digitsVal s)) else None)"

definition slice :: "nat \<Rightarrow> nat \<Rightarrow> 'a list \<Rightarrow> 'a list" where
  "slice i j s = take (j - i) (drop i s)"

text \<open>\<open>parseNanoseconds\<close>: at most nine digits count; fewer are scaled up.\<close>

definition parseNanoseconds :: "string \<Rightarrow> nat" where
  "parseNanoseconds digits =
     (let ds = take 9 digits in digitsVal ds * 10 ^ (9 - length ds))"

definition parseFrac :: "string \<Rightarrow> nat \<times> string" where
  "parseFrac s =
     (if 2 \<le> length s \<and> s ! 0 = CHR ''.'' \<and> isDigit (s ! 1)
      then (parseNanoseconds (takeWhile isDigit (tl s)), dropWhile isDigit (tl s))
      else (0, s))"

definition parseZone :: "string \<Rightarrow> int option" where
  "parseZone s =
     (if s = ''Z'' then Some 0
      else if length s \<noteq> 6 then None
      else case (parseUint (slice 1 3 s) 0 23, parseUint (slice 4 6 s) 0 59) of
             (Some hr, Some mm) \<Rightarrow>
               if (s ! 0 = CHR ''-'' \<or> s ! 0 = CHR ''+'') \<and> s ! 3 = CHR '':''
               then Some ((if s ! 0 = CHR ''-'' then - 1 else 1) * ((hr * 60 + mm) * 60))
               else None
           | _ \<Rightarrow> None)"

definition parseRFC3339 :: "string \<Rightarrow> time option" where
  "parseRFC3339 s =
     (if length s < 19 then None
      else case (parseUint (slice 0 4 s) 0 9999, parseUint (slice 5 7 s) 1 12) of
        (Some y, Some m) \<Rightarrow>
          (case (parseUint (slice 8 10 s) 1 (daysIn m y), parseUint (slice 11 13 s) 0 23,
                 parseUint (slice 14 16 s) 0 59, parseUint (slice 17 19 s) 0 59) of
             (Some d, Some hh, Some mi, Some ss) \<Rightarrow>
               if s ! 4 = CHR ''-'' \<and> s ! 7 = CHR ''-'' \<and> s ! 10 = CHR ''T''
                  \<and> s ! 13 = CHR '':'' \<and> s ! 16 = CHR '':''
               then let (ns, rest) = parseFrac (drop 19 s) in
                 case parseZone rest of
                   None \<Rightarrow> None
                 | Some off \<Rightarrow>
                     Some ((days_of_civil y m d * 86400 + hh * 3600 + mi * 60 + ss - off) * Second + int ns)
               else None
           | _ \<Rightarrow> None)
      | _ \<Rightarrow> None)"

text \<open>
  \<^verbatim>\<open>UnmarshalJSON\<close> on a string literal: the fast path, then the general \<^verbatim>\<open>time.Parse\<close> on the text the
  fast path refuses, which is the parameter \<open>slowParse\<close>.
\<close>

definition UnmarshalTime :: "(string \<Rightarrow> time option) \<Rightarrow> string \<Rightarrow> time option" where
  "UnmarshalTime slowParse s =
     (case parseRFC3339 s of Some t \<Rightarrow> Some t | None \<Rightarrow> slowParse s)"

section \<open>Lemmas\<close>

subsection \<open>Calendar round trip\<close>

lemma div_bounds: "0 < k \<Longrightarrow> k * (x div k) \<le> x \<and> x < k * (x div k) + (k :: int)"
proof -
  assume "0 < k"
  then have "0 \<le> x mod k" "x mod k < k" by simp_all
  then show ?thesis using mult_div_mod_eq[of k x] by linarith
qed

lemma div_eqI: "0 \<le> r \<Longrightarrow> r < k \<Longrightarrow> (k * q + r) div k = (q :: int)"
  by simp

text \<open>The last year of a cycle of four is a leap year, except at the end of a century that does not
  close a period of 400 years.\<close>

lemma isLeap_century:
  assumes "0 \<le> q" "q \<le> 24" "q \<noteq> 24 \<or> c = 3"
  shows "isLeap (100 * c + 4 * (q + 1))"
proof (cases "q = 24")
  case True
  with assms(3) show ?thesis by (simp add: isLeap_def)
next
  case False
  have "100 * c + 4 * (q + 1) = 4 * (25 * c + q + 1)" by simp
  then have "(100 * c + 4 * (q + 1)) mod 4 = 0" by (metis mod_mult_self1_is_0)
  moreover have "(100 * c + 4 * (q + 1)) mod 100 = 4 * (q + 1)" using assms(1,2) False by simp
  ultimately show ?thesis using assms(1) by (simp add: isLeap_def)
qed

lemma marchYear_bounds:
  assumes "0 \<le> doe" "doe < 146097" "marchYear doe = (yoe, doy)"
  shows "0 \<le> yoe \<and> yoe < 400 \<and> 0 \<le> doy \<and> doy \<le> 365
    \<and> doe = yoe * 365 + yoe div 4 - yoe div 100 + doy
    \<and> (doy = 365 \<longrightarrow> isLeap (yoe + 1))"
proof -
  define c where "c = min 3 (doe div 36524)"
  define r1 where "r1 = doe - c * 36524"
  define q where "q = r1 div 1461"
  define r2 where "r2 = r1 - q * 1461"
  define y where "y = min 3 (r2 div 365)"
  have eq: "yoe = 100 * c + 4 * q + y" "doy = r2 - 365 * y"
    using assms(3) by (simp_all add: marchYear_def Let_def c_def r1_def q_def r2_def y_def)
  have dc: "36524 * (doe div 36524) \<le> doe" "doe < 36524 * (doe div 36524) + 36524"
    using div_bounds[of 36524 doe] by simp_all
  have c: "0 \<le> c" "c \<le> 3" unfolding c_def using assms(1) dc by linarith+
  have r1: "0 \<le> r1" "r1 \<le> 36524" and r1': "r1 = 36524 \<longrightarrow> c = 3"
    unfolding r1_def c_def using assms(1,2) dc by linarith+
  have dq: "1461 * q \<le> r1" "r1 < 1461 * q + 1461"
    using div_bounds[of 1461 r1] by (simp_all add: q_def)
  have q: "0 \<le> q" "q \<le> 24" using r1 dq by linarith+
  have r2: "0 \<le> r2" "r2 \<le> 1460" "q = 24 \<longrightarrow> c < 3 \<longrightarrow> r2 \<le> 1459"
    using r1 r1' dq unfolding r2_def by linarith+
  have d3: "365 * (r2 div 365) \<le> r2" "r2 < 365 * (r2 div 365) + 365"
    using div_bounds[of 365 r2] by simp_all
  have y: "0 \<le> y" "y \<le> 3" unfolding y_def using r2 d3 by linarith+
  have dy: "0 \<le> r2 - 365 * y" "r2 - 365 * y \<le> 365" and y3: "r2 - 365 * y = 365 \<longrightarrow> y = 3"
    unfolding y_def using r2 d3 by linarith+
  have qy: "0 \<le> 4 * q + y" "4 * q + y < 100" using q y by simp_all
  have d100: "yoe div 100 = c"
    using div_eqI[OF qy, of c] by (simp add: eq(1))
  have d4: "yoe div 4 = 25 * c + q"
    using div_eqI[of y 4 "25 * c + q"] y by (simp add: eq(1))
  have doe: "doe = yoe * 365 + yoe div 4 - yoe div 100 + doy"
  proof -
    have "doe = yoe * 365 + (25 * c + q) - c + doy" unfolding eq r2_def r1_def by simp
    then show ?thesis using d100 d4 by simp
  qed
  have leap: "isLeap (yoe + 1)" if "doy = 365"
  proof -
    from that y3 eq have y': "y = 3" by simp
    then have "r2 = 1460" using that eq by simp
    with r2(3) c have "q \<noteq> 24 \<or> c = 3" by auto
    with q have "isLeap (100 * c + 4 * (q + 1))" by (intro isLeap_century) auto
    moreover have "yoe + 1 = 100 * c + 4 * (q + 1)" using eq(1) y' by simp
    ultimately show ?thesis by (simp only:)
  qed
  show ?thesis using c qy dy doe leap eq by auto
qed

lemma isLeap_period: "isLeap (y + 400 * k) \<longleftrightarrow> isLeap y"
proof -
  have "(y + 400 * k) mod 4 = y mod 4" using mod_mult_self2[of y 4 "100 * k"] by simp
  moreover have "(y + 400 * k) mod 100 = y mod 100" using mod_mult_self2[of y 100 "4 * k"] by simp
  moreover have "(y + 400 * k) mod 400 = y mod 400" by simp
  ultimately show ?thesis by (simp add: isLeap_def)
qed

text \<open>The month and day of a day of the year counted from March.\<close>

lemma month_of_doy:
  assumes "0 \<le> doy" "doy \<le> (365 :: int)"
    and mp: "mp = (5 * doy + 2) div 153" and d: "d = doy - (153 * mp + 2) div 5 + 1"
  shows "0 \<le> mp \<and> mp \<le> 11 \<and> 1 \<le> d \<and>
    d \<le> (if mp = 11 then (if doy = 365 then 29 else 28)
         else if mp = 1 \<or> mp = 3 \<or> mp = 6 \<or> mp = 8 then 30 else 31)"
proof -
  have b: "153 * mp \<le> 5 * doy + 2" "5 * doy + 2 < 153 * mp + 153"
    using div_bounds[of 153 "5 * doy + 2"] by (simp_all add: mp)
  then have mp': "0 \<le> mp" "mp \<le> 11" using assms(1,2) by linarith+
  then have cs: "mp = 0 \<or> mp = 1 \<or> mp = 2 \<or> mp = 3 \<or> mp = 4 \<or> mp = 5 \<or> mp = 6 \<or> mp = 7
      \<or> mp = 8 \<or> mp = 9 \<or> mp = 10 \<or> mp = 11" by presburger
  show ?thesis using cs b assms(1,2) unfolding d by (elim disjE) simp_all
qed

lemma civil_of_days_props:
  assumes "civil_of_days z = (y, m, d)"
  shows "1 \<le> m \<and> m \<le> 12 \<and> 1 \<le> d \<and> d \<le> daysIn m y \<and> days_of_civil y m d = z"
proof -
  define era where "era = (z + 719468) div 146097"
  define doe where "doe = (z + 719468) mod 146097"
  obtain yoe doy where yd: "marchYear doe = (yoe, doy)" by fastforce
  define mp where "mp = (5 * doy + 2) div 153"
  have z: "z = era * 146097 + doe - 719468" unfolding era_def doe_def by presburger
  have b: "0 \<le> yoe" "yoe < 400" "0 \<le> doy" "doy \<le> 365"
      "doe = yoe * 365 + yoe div 4 - yoe div 100 + doy" "doy = 365 \<longrightarrow> isLeap (yoe + 1)"
    using marchYear_bounds[OF _ _ yd] by (simp_all add: doe_def)
  have m: "m = (if mp < 10 then mp + 3 else mp - 9)" and d: "d = doy - (153 * mp + 2) div 5 + 1"
    and y: "y = (if m \<le> 2 then yoe + era * 400 + 1 else yoe + era * 400)"
    using assms yd by (auto simp: civil_of_days_def Let_def era_def doe_def mp_def)
  have md: "0 \<le> mp \<and> mp \<le> 11 \<and> 1 \<le> d \<and>
      d \<le> (if mp = 11 then (if doy = 365 then 29 else 28)
           else if mp = 1 \<or> mp = 3 \<or> mp = 6 \<or> mp = 8 then 30 else 31)"
    by (rule month_of_doy[OF b(3,4) mp_def d])
  have mrange: "1 \<le> m" "m \<le> 12" using md m by auto
  have yy: "(if m \<le> 2 then y - 1 else y) = yoe + era * 400" using y by auto
  have mm: "(if 2 < m then m - 3 else m + 9) = mp" using m md by auto
  have era': "(yoe + era * 400) div 400 = era" "(yoe + era * 400) mod 400 = yoe"
    using b(1,2) by auto
  have rt: "days_of_civil y m d = z"
    unfolding days_of_civil_def Let_def yy mm era' using b(5) z d by simp
  have dmax: "d \<le> daysIn m y"
  proof (cases "mp = 11")
    case True
    then have m2: "m = 2" and y': "y = (yoe + 1) + 400 * era" using m y by auto
    have "isLeap y" if "doy = 365" using that b(6) isLeap_period[of "yoe + 1" era] y' by simp
    then show ?thesis using md True m2 by (auto simp: daysIn_def split: if_splits)
  next
    case False
    then show ?thesis using md m by (auto simp: daysIn_def)
  qed
  show ?thesis using mrange md dmax rt by auto
qed

subsection \<open>Text round trip\<close>

lemma parseUint_pad2:
  assumes "0 \<le> n" "n \<le> 99" "lo \<le> n" "n \<le> hi"
  shows "parseUint (pad2 n) lo hi = Some n"
proof -
  have "nat n div 10 < 10" using assms by linarith
  then have "digitsVal (pad2 n) = 10 * (nat n div 10) + nat n mod 10"
    and "list_all isDigit (pad2 n)"
    by (simp_all add: pad2_def digitsVal_def digitVal_digitChar isDigit_digitChar)
  then show ?thesis using assms by (simp add: parseUint_def)
qed

lemma dec4:
  "b = 10 * c + b0 \<Longrightarrow> a = 10 * b + a0 \<Longrightarrow> m = 10 * a + m0 \<Longrightarrow>
   10 * (10 * (10 * c + b0) + a0) + m0 = (m :: nat)"
  by simp

lemma parseUint_pad4:
  assumes "0 \<le> n" "n \<le> 9999"
  shows "parseUint (pad4 n) 0 9999 = Some n"
proof -
  have "nat n div 1000 < 10" using assms by linarith
  then have "digitsVal (pad4 n) =
      10 * (10 * (10 * (nat n div 1000) + nat n div 100 mod 10) + nat n div 10 mod 10) + nat n mod 10"
    and "list_all isDigit (pad4 n)"
    by (simp_all add: pad4_def digitsVal_def digitVal_digitChar isDigit_digitChar)
  moreover have "10 * (10 * (10 * (nat n div 1000) + nat n div 100 mod 10) + nat n div 10 mod 10) + nat n mod 10 = nat n"
  proof (rule dec4)
    show "nat n div 100 = 10 * (nat n div 1000) + nat n div 100 mod 10"
      using mult_div_mod_eq[of 10 "nat n div 100"] by (simp add: div_mult2_eq[symmetric])
    show "nat n div 10 = 10 * (nat n div 100) + nat n div 10 mod 10"
      using mult_div_mod_eq[of 10 "nat n div 10"] by (simp add: div_mult2_eq[symmetric])
    show "nat n = 10 * (nat n div 10) + nat n mod 10"
      using mult_div_mod_eq[of 10 "nat n"] by simp
  qed
  ultimately show ?thesis using assms by (simp add: parseUint_def)
qed

lemma digitsVal_foldl: "foldl (\<lambda>n c. 10 * n + digitVal c) k s = k * 10 ^ length s + digitsVal s"
  unfolding digitsVal_def
proof (induction s arbitrary: k)
  case (Cons c s)
  show ?case
    using Cons.IH[of "10 * k + digitVal c"] Cons.IH[of "digitVal c"] by (simp add: add_mult_distrib)
qed simp

lemma digitsVal_append: "digitsVal (a @ b) = digitsVal a * 10 ^ length b + digitsVal b"
  by (simp add: digitsVal_foldl[symmetric]) (simp add: digitsVal_def)

lemma digitsVal_zeros: "digitsVal (replicate k (CHR ''0'')) = 0"
  by (induction k) (simp_all add: digitsVal_def digitVal_def byte_def)

lemma length_padN [simp]: "length (padN k n) = k"
  by (induction k arbitrary: n) simp_all

lemma padN_digits: "list_all isDigit (padN k n)"
  by (induction k arbitrary: n) (simp_all add: isDigit_digitChar)

lemma digitsVal_padN: "n < 10 ^ k \<Longrightarrow> digitsVal (padN k n) = n"
proof (induction k arbitrary: n)
  case 0
  then show ?case by (simp add: digitsVal_def)
next
  case (Suc k)
  then have "digitsVal (padN k (n div 10)) = n div 10" by (simp add: less_mult_imp_div_less)
  then show ?case by (simp add: digitsVal_append) (simp add: digitsVal_def digitVal_digitChar)
qed

lemma dropWhile_zeros:
  "\<exists>k. s = rev (dropWhile (\<lambda>c. c = z) (rev s)) @ replicate k z"
proof -
  let ?r = "rev s"
  have "takeWhile (\<lambda>c. c = z) ?r = replicate (length (takeWhile (\<lambda>c. c = z) ?r)) z"
    by (metis (mono_tags) replicate_length_same set_takeWhileD)
  moreover have "?r = takeWhile (\<lambda>c. c = z) ?r @ dropWhile (\<lambda>c. c = z) ?r" by simp
  ultimately show ?thesis
    by (metis (no_types) rev_append rev_replicate rev_rev_ident)
qed

lemma parseFrac_fracText:
  assumes "ns < 10 ^ 9"
  shows "parseFrac (fracText ns @ ''Z'') = (ns, ''Z'')"
proof (cases "ns = 0")
  case True
  then show ?thesis by (simp add: fracText_def parseFrac_def)
next
  case False
  define ds where "ds = rev (dropWhile (\<lambda>c. c = CHR ''0'') (rev (padN 9 ns)))"
  obtain k where pad: "padN 9 ns = ds @ replicate k (CHR ''0'')"
    using dropWhile_zeros[of "padN 9 ns" "CHR ''0''"] unfolding ds_def by (elim exE)
  have len: "length ds + k = 9" using arg_cong[OF pad, of length] by simp
  have dig: "list_all isDigit ds" using padN_digits[of 9 ns] pad by simp
  have val: "digitsVal ds * 10 ^ k = ns"
    using digitsVal_padN[OF assms] pad by (simp add: digitsVal_append digitsVal_zeros)
  then have "ds \<noteq> []" using False by (auto simp: digitsVal_def)
  then obtain d ds' where dd: "ds = d # ds'" by (cases ds) auto
  have z: "\<not> isDigit (CHR ''Z'')" by (simp add: isDigit_def byte_def)
  have tw: "takeWhile isDigit (ds @ ''Z'') = ds" "dropWhile isDigit (ds @ ''Z'') = ''Z''"
    using dig z by (simp_all add: takeWhile_append dropWhile_append list_all_iff)
  have "9 - length ds = k" "length ds \<le> 9" using len by simp_all
  then have "parseNanoseconds ds = ns" using val by (simp add: parseNanoseconds_def)
  moreover have ft: "fracText ns @ ''Z'' = CHR ''.'' # (ds @ ''Z'')"
    using False by (simp add: fracText_def ds_def)
  moreover have "2 \<le> length (CHR ''.'' # (ds @ ''Z''))" "(CHR ''.'' # (ds @ ''Z'')) ! 1 = d" "isDigit d"
    using dd dig by simp_all
  ultimately show ?thesis
    unfolding ft parseFrac_def using tw by simp
qed

lemma parseRFC3339_layout:
  assumes "parseUint (pad4 y) 0 9999 = Some y" "parseUint (pad2 m) 1 12 = Some m"
    "parseUint (pad2 d) 1 (daysIn m y) = Some d" "parseUint (pad2 hh) 0 23 = Some hh"
    "parseUint (pad2 mi) 0 59 = Some mi" "parseUint (pad2 ss) 0 59 = Some ss"
    "parseFrac tail = (ns, ''Z'')"
  shows "parseRFC3339 (pad4 y @ ''-'' @ pad2 m @ ''-'' @ pad2 d @ ''T'' @
     pad2 hh @ '':'' @ pad2 mi @ '':'' @ pad2 ss @ tail) =
     Some ((days_of_civil y m d * 86400 + hh * 3600 + mi * 60 + ss) * Second + int ns)"
proof -
  define s where "s = pad4 y @ ''-'' @ pad2 m @ ''-'' @ pad2 d @ ''T'' @
     pad2 hh @ '':'' @ pad2 mi @ '':'' @ pad2 ss @ tail"
  have sl: "slice 0 4 s = pad4 y" "slice 5 7 s = pad2 m" "slice 8 10 s = pad2 d"
    "slice 11 13 s = pad2 hh" "slice 14 16 s = pad2 mi" "slice 17 19 s = pad2 ss" "drop 19 s = tail"
    by (simp_all add: s_def slice_def pad2_def pad4_def)
  have pos: "s ! 4 = CHR ''-''" "s ! 7 = CHR ''-''" "s ! 10 = CHR ''T''" "s ! 13 = CHR '':''"
    "s ! 16 = CHR '':''" "\<not> length s < 19"
    by (simp_all add: s_def pad2_def pad4_def)
  show ?thesis
    unfolding s_def[symmetric] parseRFC3339_def sl using pos assms by (simp add: parseZone_def)
qed

lemma hms_sum: "sod = 60 * k + r \<Longrightarrow> k = 60 * h + q \<Longrightarrow> h * 3600 + q * 60 + r = (sod :: int)"
  by simp

lemma sod_parts:
  fixes sod :: int
  assumes "0 \<le> sod" "sod < 86400"
  shows "0 \<le> sod div 3600 \<and> sod div 3600 \<le> 23 \<and> sod div 3600 * 3600 + sod div 60 mod 60 * 60 + sod mod 60 = sod"
proof (intro conjI)
  have b: "3600 * (sod div 3600) \<le> sod" "sod < 3600 * (sod div 3600) + 3600"
    using div_bounds[of 3600 sod] by simp_all
  define h where "h = sod div 3600"
  show "0 \<le> sod div 3600" using b assms unfolding h_def[symmetric] by linarith
  show "sod div 3600 \<le> 23" using b assms unfolding h_def[symmetric] by linarith
  show "sod div 3600 * 3600 + sod div 60 mod 60 * 60 + sod mod 60 = sod"
  proof (rule hms_sum)
    show "sod = 60 * (sod div 60) + sod mod 60" using mult_div_mod_eq[of 60 sod] by simp
    show "sod div 60 = 60 * (sod div 3600) + sod div 60 mod 60"
      using mult_div_mod_eq[of 60 "sod div 60"] by (simp add: zdiv_zmult2_eq[symmetric])
  qed
qed

lemma daysIn_le: "daysIn m y \<le> 31"
  by (simp add: daysIn_def)

text \<open>Reading back an instant of the years 0 to 9999: its second in full, the fraction as written.\<close>

lemma parse_civil_text:
  assumes ymd: "civil_of_days (secs div 86400) = (y, m, d)" and yr: "0 \<le> y" "y \<le> 9999"
    and sod: "sod = secs mod 86400" and fr: "parseFrac tail = (k, ''Z'')"
  shows "parseRFC3339 (pad4 y @ ''-'' @ pad2 m @ ''-'' @ pad2 d @ ''T'' @ pad2 (sod div 3600) @ '':'' @
      pad2 (sod div 60 mod 60) @ '':'' @ pad2 (sod mod 60) @ tail) = Some (secs * Second + int k)"
proof -
  from civil_of_days_props[OF ymd]
  have md: "1 \<le> m" "m \<le> 12" "1 \<le> d" "d \<le> daysIn m y" and days: "days_of_civil y m d = secs div 86400"
    by auto
  have d99: "d \<le> 99" using md(4) daysIn_le[of m y] by linarith
  have "0 \<le> sod" "sod < 86400" by (simp_all add: sod)
  note sp = sod_parts[OF this]
  have m60: "0 \<le> x mod 60 \<and> x mod 60 \<le> 59" for x :: int
    using pos_mod_bound[of 60 x] pos_mod_sign[of 60 x] by linarith
  have "parseRFC3339 (pad4 y @ ''-'' @ pad2 m @ ''-'' @ pad2 d @ ''T'' @ pad2 (sod div 3600) @ '':'' @
      pad2 (sod div 60 mod 60) @ '':'' @ pad2 (sod mod 60) @ tail) =
      Some ((days_of_civil y m d * 86400 + sod div 3600 * 3600 + sod div 60 mod 60 * 60 + sod mod 60) * Second + int k)"
    using yr md d99 sp m60[of sod] m60[of "sod div 60"]
    by (intro parseRFC3339_layout parseUint_pad4 parseUint_pad2 fr) auto
  moreover have "secs div 86400 * 86400 + sod = secs" by (simp add: sod)
  with sp days have "days_of_civil y m d * 86400 + sod div 3600 * 3600 + sod div 60 mod 60 * 60 + sod mod 60 = secs"
    by (metis add.assoc)
  ultimately show ?thesis by simp
qed

theorem parseRFC3339_MarshalTime:
  assumes "MarshalTime t = Some s"
  shows "parseRFC3339 s = Some t"
proof -
  obtain y m d where ymd: "civil_of_days (t div Second div 86400) = (y, m, d)" by (metis prod_cases3)
  let ?sod = "t div Second mod 86400"
  from assms have yr: "0 \<le> y" "y \<le> 9999"
    and s: "s = pad4 y @ ''-'' @ pad2 m @ ''-'' @ pad2 d @ ''T'' @ pad2 (?sod div 3600) @ '':'' @
        pad2 (?sod div 60 mod 60) @ '':'' @ pad2 (?sod mod 60) @ (fracText (nat (t mod Second)) @ ''Z'')"
    using ymd by (auto simp: MarshalTime_def Let_def split: if_splits)
  have ns: "0 \<le> t mod Second" "t mod Second < 10 ^ 9" by (simp_all add: Second_def)
  then have "parseFrac (fracText (nat (t mod Second)) @ ''Z'') = (nat (t mod Second), ''Z'')"
    by (intro parseFrac_fracText) (simp add: nat_less_iff)
  from parse_civil_text[OF ymd yr refl this] ns show ?thesis unfolding s by simp
qed

lemma UnmarshalTime_MarshalTime: "MarshalTime t = Some s \<Longrightarrow> UnmarshalTime p s = Some t"
  by (simp add: UnmarshalTime_def parseRFC3339_MarshalTime)

text \<open>The epoch, for concrete runs.\<close>

lemma civil_epoch: "civil_of_days 0 = (1970, 1, 1)"
  by code_simp

lemma MarshalTime_epoch: "\<exists>ts. MarshalTime 0 = Some ts"
  by (simp add: MarshalTime_def civil_epoch)

end
