(* ===== verification/Json.thy ===== *)
theory Json
  imports GoTime
begin

text \<open>
  Go's \<^verbatim>\<open>encoding/json\<close> as far as the plugin uses it. A document is scanned into a syntax tree whose
  string literals keep their raw text (Go unquotes them only when it stores them into a field);
  \<open>json_text\<close> is the compact text that \<^verbatim>\<open>Marshal\<close> writes for a tree. Struct decoding follows the
  package: keys match exactly or up to case, unknown keys are skipped, later duplicates win,
  \<^verbatim>\<open>null\<close> leaves a field alone, and a type mismatch is recorded while decoding goes on.

  Main results: the text of a well-formed tree scans back to the tree, unquoting a quoted string
  gives the string with ill-formed UTF-8 replaced by U+FFFD, every unquoted string is valid
  UTF-8, and the scanner's fuel is enough for every input.
\<close>

section \<open>Definitions\<close>

subsection \<open>Trees and their text\<close>

datatype json =
    JNull
  | JBool bool
  | JNum string
  | JStr string
  | JArr "json list"
  | JObj "(string \<times> json) list"

abbreviation quoteChar :: char where "quoteChar \<equiv> CHR 0x22"
abbreviation backslash :: char where "backslash \<equiv> CHR 0x5C"

fun commaSep :: "string list \<Rightarrow> string" where
  "commaSep [] = []"
| "commaSep [x] = x"
| "commaSep (x # y # xs) = x @ '','' @ commaSep (y # xs)"

fun json_text :: "json \<Rightarrow> string" where
  "json_text JNull = ''null''"
| "json_text (JBool b) = (if b then ''true'' else ''false'')"
| "json_text (JNum n) = n"
| "json_text (JStr raw) = quoteChar # raw @ [quoteChar]"
| "json_text (JArr vs) = ''['' @ commaSep (map json_text vs) @ '']''"
| "json_text (JObj kvs) =
     ''{'' @ commaSep (map (\<lambda>(k, v). quoteChar # k @ [quoteChar] @ '':'' @ json_text v) kvs) @ ''}''"

subsection \<open>Quoting\<close>

definition hexDigit :: "nat \<Rightarrow> char" where
  "hexDigit n = (if n < 10 then char_of (48 + n) else char_of (87 + n))"

definition escapeAscii :: "char \<Rightarrow> string" where
  "escapeAscii c =
     (if c = backslash \<or> c = quoteChar then [backslash, c]
      else if byte c = 8 then [backslash, CHR ''b'']
      else if byte c = 12 then [backslash, CHR ''f'']
      else if byte c = 10 then [backslash, CHR ''n'']
      else if byte c = 13 then [backslash, CHR ''r'']
      else if byte c = 9 then [backslash, CHR ''t'']
      else if byte c < 0x20 \<or> c = CHR ''<'' \<or> c = CHR ''>'' \<or> c = CHR ''&''
        then [backslash, CHR ''u'', CHR ''0'', CHR ''0'', hexDigit (byte c div 16), hexDigit (byte c mod 16)]
      else [c])"

definition escapeRune :: "rune \<Rightarrow> string \<Rightarrow> string" where
  "escapeRune r piece =
     (if r = runeError \<and> length piece = 1 then backslash # ''ufffd''
      else if r = 0x2028 then backslash # ''u2028''
      else if r = 0x2029 then backslash # ''u2029''
      else piece)"

function json_quote :: "string \<Rightarrow> string" where
  "json_quote s =
     (if s = [] then []
      else if byte (hd s) < 0x80 then escapeAscii (hd s) @ json_quote (tl s)
      else let (r, n) = DecodeRune s in escapeRune r (take n s) @ json_quote (drop n s))"
  by pat_completeness auto
termination
proof (relation "measure length")
  fix s x r n
  assume "s \<noteq> []" "x = DecodeRune s" "(r, n) = x"
  then have "0 < n" using DecodeRune_width_pos[of s] by (metis snd_conv)
  with \<open>s \<noteq> []\<close> show "(drop n s, s) \<in> measure length" by (simp add: diff_less)
qed auto

declare json_quote.simps [simp del]

subsection \<open>Unquoting\<close>

definition hexVal :: "char \<Rightarrow> nat option" where
  "hexVal c =
     (if 48 \<le> byte c \<and> byte c \<le> 57 then Some (byte c - 48)
      else if 97 \<le> byte c \<and> byte c \<le> 102 then Some (byte c - 87)
      else if 65 \<le> byte c \<and> byte c \<le> 70 then Some (byte c - 55)
      else None)"

fun getu4 :: "string \<Rightarrow> nat option" where
  "getu4 (b # u # h1 # h2 # h3 # h4 # s) =
     (if b = backslash \<and> u = CHR ''u''
      then (case (hexVal h1, hexVal h2, hexVal h3, hexVal h4) of
              (Some a, Some b, Some c, Some d) \<Rightarrow> Some (a * 4096 + b * 256 + c * 16 + d)
            | _ \<Rightarrow> None)
      else None)"
| "getu4 _ = None"

definition isSurrogate :: "nat \<Rightarrow> bool" where
  "isSurrogate r \<longleftrightarrow> 0xD800 \<le> r \<and> r < 0xE000"

definition surrogatePair :: "nat \<Rightarrow> nat \<Rightarrow> nat option" where
  "surrogatePair a b =
     (if 0xD800 \<le> a \<and> a < 0xDC00 \<and> 0xDC00 \<le> b \<and> b < 0xE000
      then Some ((a - 0xD800) * 1024 + (b - 0xDC00) + 0x10000) else None)"

definition simpleEscape :: "char \<Rightarrow> char option" where
  "simpleEscape c =
     (if c = quoteChar \<or> c = backslash \<or> c = CHR ''/'' then Some c
      else if c = CHR ''b'' then Some (CHR 0x08)
      else if c = CHR ''f'' then Some (CHR 0x0C)
      else if c = CHR ''n'' then Some (CHR 0x0A)
      else if c = CHR ''r'' then Some (CHR 0x0D)
      else if c = CHR ''t'' then Some (CHR 0x09)
      else None)"

text \<open>One step of \<open>unquote\<close>: the bytes it appends and the number of raw bytes it consumes.\<close>

definition unquoteStep :: "string \<Rightarrow> (string \<times> nat) option" where
  "unquoteStep s =
     (if hd s = backslash then
        (if length s < 2 then None
         else case simpleEscape (s ! 1) of
           Some c \<Rightarrow> Some ([c], 2)
         | None \<Rightarrow>
             (case getu4 s of
                None \<Rightarrow> None
              | Some rr \<Rightarrow>
                  if isSurrogate rr then
                    (case Option.bind (getu4 (drop 6 s)) (surrogatePair rr) of
                       Some r \<Rightarrow> Some (encodeRune r, 12)
                     | None \<Rightarrow> Some (encodeRune runeError, 6))
                  else Some (encodeRune rr, 6)))
      else if hd s = quoteChar \<or> byte (hd s) < 0x20 then None
      else if byte (hd s) < 0x80 then Some ([hd s], 1)
      else let (r, n) = DecodeRune s in Some (encodeRune r, n))"

lemma unquoteStep_pos: "unquoteStep s = Some (o', n) \<Longrightarrow> s \<noteq> [] \<Longrightarrow> 0 < n"
  using DecodeRune_width_pos[of s]
  by (auto simp: unquoteStep_def Let_def split: if_splits option.splits prod.splits)

function json_unquote :: "string \<Rightarrow> string option" where
  "json_unquote s =
     (if s = [] then Some []
      else case unquoteStep s of
             None \<Rightarrow> None
           | Some (out, n) \<Rightarrow> map_option ((@) out) (json_unquote (drop n s)))"
  by pat_completeness auto
termination
proof (relation "measure length")
  fix s x out n
  assume "s \<noteq> []" "unquoteStep s = Some x" "(out, n) = x"
  then have "0 < n" using unquoteStep_pos by blast
  with \<open>s \<noteq> []\<close> show "(drop n s, s) \<in> measure length" by (simp add: diff_less)
qed simp

declare json_unquote.simps [simp del]

subsection \<open>Scanning\<close>

definition isWs :: "char \<Rightarrow> bool" where
  "isWs c \<longleftrightarrow> c = CHR '' '' \<or> byte c = 9 \<or> byte c = 10 \<or> byte c = 13"

definition skipWs :: "string \<Rightarrow> string" where
  "skipWs s = dropWhile isWs s"

text \<open>The rest of a string literal, after its opening quote: the raw text and what follows.\<close>

fun scanStr :: "string \<Rightarrow> (string \<times> string) option" where
  "scanStr [] = None"
| "scanStr (c # s) =
     (if c = quoteChar then Some ([], s)
      else if c = backslash then
        (case s of
           [] \<Rightarrow> None
         | e # s' \<Rightarrow>
             if simpleEscape e \<noteq> None then map_option (apfst (\<lambda>r. c # e # r)) (scanStr s')
             else if e = CHR ''u'' then
               (case s' of
                  h1 # h2 # h3 # h4 # s'' \<Rightarrow>
                    if list_all (\<lambda>h. hexVal h \<noteq> None) [h1, h2, h3, h4]
                    then map_option (apfst (\<lambda>r. c # e # h1 # h2 # h3 # h4 # r)) (scanStr s'')
                    else None
                | _ \<Rightarrow> None)
             else None)
      else if byte c < 0x20 then None
      else map_option (apfst (\<lambda>r. c # r)) (scanStr s))"

definition scanDigits1 :: "string \<Rightarrow> (string \<times> string) option" where
  "scanDigits1 s = (if takeWhile isDigit s = [] then None else Some (takeWhile isDigit s, dropWhile isDigit s))"

definition scanInt :: "string \<Rightarrow> (string \<times> string) option" where
  "scanInt s = (case s of
     [] \<Rightarrow> None
   | c # t \<Rightarrow> if c = CHR ''0'' then Some ([c], t) else scanDigits1 s)"

definition scanFrac :: "string \<Rightarrow> (string \<times> string) option" where
  "scanFrac s = (case s of
     c # t \<Rightarrow> if c = CHR ''.'' then map_option (apfst ((#) c)) (scanDigits1 t) else Some ([], s)
   | [] \<Rightarrow> Some ([], s))"

definition scanExp :: "string \<Rightarrow> (string \<times> string) option" where
  "scanExp s = (case s of
     c # t \<Rightarrow>
       if c = CHR ''e'' \<or> c = CHR ''E'' then
         (case t of
            g # u \<Rightarrow> if g = CHR ''+'' \<or> g = CHR ''-''
                     then map_option (apfst (\<lambda>r. c # g # r)) (scanDigits1 u)
                     else map_option (apfst ((#) c)) (scanDigits1 t)
          | [] \<Rightarrow> None)
       else Some ([], s)
   | [] \<Rightarrow> Some ([], s))"

definition scanNum :: "string \<Rightarrow> (string \<times> string) option" where
  "scanNum s =
     (let neg = (s \<noteq> [] \<and> hd s = CHR ''-''); s0 = (if neg then tl s else s)
      in case scanInt s0 of
           None \<Rightarrow> None
         | Some (i, s1) \<Rightarrow>
             (case scanFrac s1 of
                None \<Rightarrow> None
              | Some (f, s2) \<Rightarrow>
                  (case scanExp s2 of
                     None \<Rightarrow> None
                   | Some (e, s3) \<Rightarrow> Some ((if neg then ''-'' else []) @ i @ f @ e, s3))))"

definition stripLit :: "string \<Rightarrow> string \<Rightarrow> string option" where
  "stripLit lit s = (if take (length lit) s = lit then Some (drop (length lit) s) else None)"

text \<open>
  One value at the front of the input, after white space. \<open>d\<close> is the number of nesting levels
  still allowed (the scanner stops at 10000), \<open>fuel\<close> bounds the number of calls.
\<close>

fun scanVal :: "nat \<Rightarrow> nat \<Rightarrow> string \<Rightarrow> (json \<times> string) option"
and scanElems :: "nat \<Rightarrow> nat \<Rightarrow> string \<Rightarrow> (json list \<times> string) option"
and scanMembers :: "nat \<Rightarrow> nat \<Rightarrow> string \<Rightarrow> ((string \<times> json) list \<times> string) option" where
  "scanVal 0 d s = None"
| "scanVal (Suc fuel) d s =
     (case skipWs s of
        [] \<Rightarrow> None
      | c # t \<Rightarrow>
          if c = CHR ''{'' then
            (case d of
               0 \<Rightarrow> None
             | Suc d' \<Rightarrow>
                 if skipWs t \<noteq> [] \<and> hd (skipWs t) = CHR ''}'' then Some (JObj [], tl (skipWs t))
                 else map_option (apfst JObj) (scanMembers fuel d' t))
          else if c = CHR ''['' then
            (case d of
               0 \<Rightarrow> None
             | Suc d' \<Rightarrow>
                 if skipWs t \<noteq> [] \<and> hd (skipWs t) = CHR '']'' then Some (JArr [], tl (skipWs t))
                 else map_option (apfst JArr) (scanElems fuel d' t))
          else if c = quoteChar then map_option (apfst JStr) (scanStr t)
          else if c = CHR ''t'' then map_option (Pair (JBool True)) (stripLit ''true'' (c # t))
          else if c = CHR ''f'' then map_option (Pair (JBool False)) (stripLit ''false'' (c # t))
          else if c = CHR ''n'' then map_option (Pair JNull) (stripLit ''null'' (c # t))
          else map_option (apfst JNum) (scanNum (c # t)))"
| "scanElems 0 d s = None"
| "scanElems (Suc fuel) d s =
     (case scanVal fuel d s of
        None \<Rightarrow> None
      | Some (v, r) \<Rightarrow>
          (case skipWs r of
             [] \<Rightarrow> None
           | c # r' \<Rightarrow>
               if c = CHR '','' then map_option (apfst ((#) v)) (scanElems fuel d r')
               else if c = CHR '']'' then Some ([v], r')
               else None))"
| "scanMembers 0 d s = None"
| "scanMembers (Suc fuel) d s =
     (case skipWs s of
        [] \<Rightarrow> None
      | q # t \<Rightarrow>
          if q \<noteq> quoteChar then None
          else case scanStr t of
            None \<Rightarrow> None
          | Some (k, r) \<Rightarrow>
              (case skipWs r of
                 [] \<Rightarrow> None
               | c # r1 \<Rightarrow>
                   if c \<noteq> CHR '':'' then None
                   else case scanVal fuel d r1 of
                     None \<Rightarrow> None
                   | Some (v, r2) \<Rightarrow>
                       (case skipWs r2 of
                          [] \<Rightarrow> None
                        | e # r3 \<Rightarrow>
                            if e = CHR '','' then map_option (apfst ((#) (k, v))) (scanMembers fuel d r3)
                            else if e = CHR ''}'' then Some ([(k, v)], r3)
                            else None)))"

definition maxNestingDepth :: nat where "maxNestingDepth = 10000"

definition scanFuel :: "string \<Rightarrow> nat" where "scanFuel s = 2 * length s + 1"

text \<open>\<^verbatim>\<open>json.Unmarshal\<close> wants one value and white space; \<^verbatim>\<open>Decoder.Decode\<close> reads one value off the front.\<close>

definition json_scan :: "string \<Rightarrow> json option" where
  "json_scan s =
     (case scanVal (scanFuel s) maxNestingDepth s of
        Some (v, rest) \<Rightarrow> if skipWs rest = [] then Some v else None
      | None \<Rightarrow> None)"

definition json_scan_prefix :: "string \<Rightarrow> json option" where
  "json_scan_prefix s = map_option fst (scanVal (scanFuel s) maxNestingDepth s)"

subsection \<open>Struct encoding and decoding\<close>

definition jstring :: "string \<Rightarrow> json" where
  "jstring s = JStr (json_quote s)"

text \<open>A member with the \<^verbatim>\<open>omitempty\<close> option is left out when the value is the zero value.\<close>

definition omitempty :: "bool \<Rightarrow> string \<Rightarrow> json \<Rightarrow> (string \<times> json) list" where
  "omitempty isZero k v = (if isZero then [] else [(k, v)])"

text \<open>
  A field decoder takes the value and the struct so far, and returns the updated struct and
  whether there was a type error.
\<close>

type_synonym 'r fieldDecoder = "json \<Rightarrow> 'r \<Rightarrow> 'r \<times> bool"

definition keyFold :: "string \<Rightarrow> string \<Rightarrow> bool" where
  "keyFold k name \<longleftrightarrow> EqualFold (\<lambda>_ _. False) k name"

definition lookupField :: "(string \<times> 'r fieldDecoder) list \<Rightarrow> string \<Rightarrow> 'r fieldDecoder option" where
  "lookupField fs k =
     (case map_of fs k of
        Some f \<Rightarrow> Some f
      | None \<Rightarrow> map_option snd (find (\<lambda>(name, f). keyFold k name) fs))"

fun decodeMembers ::
    "(string \<times> 'r fieldDecoder) list \<Rightarrow> (string \<times> json) list \<Rightarrow> 'r \<Rightarrow> 'r \<times> bool" where
  "decodeMembers fs [] r = (r, False)"
| "decodeMembers fs ((raw, v) # kvs) r =
     (let (r1, e1) =
        (case json_unquote raw of
           None \<Rightarrow> (r, True)
         | Some k \<Rightarrow> (case lookupField fs k of None \<Rightarrow> (r, False) | Some f \<Rightarrow> f v r));
          (r2, e2) = decodeMembers fs kvs r1
      in (r2, e1 \<or> e2))"

definition decodeStruct :: "(string \<times> 'r fieldDecoder) list \<Rightarrow> 'r fieldDecoder" where
  "decodeStruct fs j r =
     (case j of
        JNull \<Rightarrow> (r, False)
      | JObj kvs \<Rightarrow> decodeMembers fs kvs r
      | _ \<Rightarrow> (r, True))"

definition decodeString :: "(string \<Rightarrow> 'r \<Rightarrow> 'r) \<Rightarrow> 'r fieldDecoder" where
  "decodeString upd j r =
     (case j of
        JNull \<Rightarrow> (r, False)
      | JStr raw \<Rightarrow> (case json_unquote raw of Some s \<Rightarrow> (upd s r, False) | None \<Rightarrow> (r, True))
      | _ \<Rightarrow> (r, True))"

definition decodeBool :: "(bool \<Rightarrow> 'r \<Rightarrow> 'r) \<Rightarrow> 'r fieldDecoder" where
  "decodeBool upd j r =
     (case j of
        JNull \<Rightarrow> (r, False)
      | JBool b \<Rightarrow> (upd b r, False)
      | _ \<Rightarrow> (r, True))"

definition decodeTime :: "(string \<Rightarrow> time option) \<Rightarrow> (time \<Rightarrow> 'r \<Rightarrow> 'r) \<Rightarrow> 'r fieldDecoder" where
  "decodeTime slowParse upd j r =
     (case j of
        JNull \<Rightarrow> (r, False)
      | JStr raw \<Rightarrow> (case UnmarshalTime slowParse raw of Some t \<Rightarrow> (upd t r, False) | None \<Rightarrow> (r, True))
      | _ \<Rightarrow> (r, True))"

text \<open>The whole call: a syntax error or a recorded type error is an error of the call.\<close>

definition json_finish :: "'r fieldDecoder \<Rightarrow> 'r \<Rightarrow> json option \<Rightarrow> 'r result" where
  "json_finish dec zero tree =
     (case tree of
        None \<Rightarrow> Inl (ErrText ''json: syntax error'')
      | Some j \<Rightarrow> (case dec j zero of (r, err) \<Rightarrow>
          if err then Inl (ErrText ''json: type error'') else Inr r))"

definition json_Unmarshal :: "'r fieldDecoder \<Rightarrow> 'r \<Rightarrow> string \<Rightarrow> 'r result" where
  "json_Unmarshal dec zero s = json_finish dec zero (json_scan s)"

definition json_Decode :: "'r fieldDecoder \<Rightarrow> 'r \<Rightarrow> string \<Rightarrow> 'r result" where
  "json_Decode dec zero s = json_finish dec zero (json_scan_prefix s)"

section \<open>Lemmas\<close>

subsection \<open>Quote and unquote\<close>

definition toValidUTF8 :: "string \<Rightarrow> string" where
  "toValidUTF8 s = concat (map encodeRune (runes s))"

definition validUTF8 :: "string \<Rightarrow> bool" where
  "validUTF8 s \<longleftrightarrow> toValidUTF8 s = s"

lemma encodeRune_ascii: "byte c < 0x80 \<Longrightarrow> encodeRune (byte c) = [c]"
  by (simp add: encodeRune_def)

lemma validUTF8_ascii: "list_all (\<lambda>c. byte c < 0x80) s \<Longrightarrow> validUTF8 s"
proof -
  assume a: "list_all (\<lambda>c. byte c < 0x80) s"
  then have "concat (map (\<lambda>c. encodeRune (byte c)) s) = s"
    by (induction s) (simp_all add: encodeRune_ascii)
  then show ?thesis using runes_ascii[OF a] by (simp add: validUTF8_def toValidUTF8_def comp_def)
qed

lemma validUTF8_Nil [simp]: "validUTF8 []"
  by (simp add: validUTF8_ascii)

lemma hexVal_hexDigit: "n < 16 \<Longrightarrow> hexVal (hexDigit n) = Some n"
  by (simp add: hexVal_def hexDigit_def)

lemma json_unquote_piece:
  assumes "unquoteStep (p @ s) = Some (out, length p)" "p \<noteq> []"
  shows "json_unquote (p @ s) = map_option ((@) out) (json_unquote s)"
  using assms by (subst json_unquote.simps) simp

lemma simpleEscape_u: "simpleEscape (CHR ''u'') = None"
  by (simp add: simpleEscape_def)

lemma unquoteStep_u4:
  assumes "hexVal a = Some a'" "hexVal b = Some b'" "hexVal c = Some c'" "hexVal d = Some d'"
    and "\<not> isSurrogate (a' * 4096 + b' * 256 + c' * 16 + d')"
  shows "unquoteStep (backslash # CHR ''u'' # a # b # c # d # s) =
     Some (encodeRune (a' * 4096 + b' * 256 + c' * 16 + d'), 6)"
  using assms by (simp add: unquoteStep_def simpleEscape_u)

lemma unquoteStep_escapeAscii:
  assumes "byte c < 0x80"
  shows "unquoteStep (escapeAscii c @ s) = Some ([c], length (escapeAscii c))"
proof (cases "c = backslash \<or> c = quoteChar \<or> byte c \<in> {8, 9, 10, 12, 13}")
  case True
  moreover have "byte c = 8 \<Longrightarrow> c = CHR 0x08" "byte c = 9 \<Longrightarrow> c = CHR 0x09"
    "byte c = 10 \<Longrightarrow> c = CHR 0x0A" "byte c = 12 \<Longrightarrow> c = CHR 0x0C" "byte c = 13 \<Longrightarrow> c = CHR 0x0D"
    by (rule byte_inj[THEN iffD1], simp add: byte_def)+
  ultimately have "c \<in> {backslash, quoteChar, CHR 0x08, CHR 0x09, CHR 0x0A, CHR 0x0C, CHR 0x0D}"
    by blast
  then show ?thesis
    by (elim insertE emptyE) (simp_all add: escapeAscii_def unquoteStep_def simpleEscape_def byte_def)
next
  case False
  show ?thesis
  proof (cases "byte c < 0x20 \<or> c = CHR ''<'' \<or> c = CHR ''>'' \<or> c = CHR ''&''")
    case True
    have e: "escapeAscii c = [backslash, CHR ''u'', CHR ''0'', CHR ''0'',
        hexDigit (byte c div 16), hexDigit (byte c mod 16)]"
      using False True by (simp add: escapeAscii_def)
    have z: "hexVal (CHR ''0'') = Some 0" by (simp add: hexVal_def byte_def)
    have h: "hexVal (hexDigit (byte c div 16)) = Some (byte c div 16)"
      "hexVal (hexDigit (byte c mod 16)) = Some (byte c mod 16)"
      using assms by (simp_all add: hexVal_hexDigit)
    have "byte c div 16 * 16 + byte c mod 16 = byte c" by simp
    then have "unquoteStep (escapeAscii c @ s) = Some (encodeRune (byte c), 6)"
      unfolding e using unquoteStep_u4[OF z z h, of s] assms by (simp add: isSurrogate_def)
    then show ?thesis using e encodeRune_ascii[OF assms] by simp
  next
    case F2: False
    then have "escapeAscii c = [c]" using False by (simp add: escapeAscii_def)
    then show ?thesis using False F2 assms by (simp add: unquoteStep_def)
  qed
qed

text \<open>A code point that is written as it is: its bytes are read back from any continuation.\<close>

lemma DecodeRune_take:
  assumes "0x80 \<le> byte c" "DecodeRune (c # t) = (r, n)" "\<not> (r = runeError \<and> n = 1)"
  obtains u where "take n (c # t) = c # u" "n = length (c # u)" "\<forall>s. DecodeRune (c # u @ s) = (r, n)"
  using assms(1)
proof (cases rule: DecodeRune_cases[where s = t])
  case bad
  with assms(2,3) show thesis by simp
next
  case (two c1 t')
  then show thesis using assms(1,2) that[of "[c1]"] by (simp add: DecodeRune.simps Let_def)
next
  case (three c1 c2 t')
  then show thesis using assms(1,2) that[of "[c1, c2]"] by (simp add: DecodeRune.simps Let_def)
next
  case (four c1 c2 c3 t')
  then show thesis using assms(1,2) that[of "[c1, c2, c3]"] by (simp add: DecodeRune.simps Let_def)
qed

lemma unquoteStep_escapeRune:
  assumes "0x80 \<le> byte c" "DecodeRune (c # t) = (r, n)"
  shows "unquoteStep (escapeRune r (take n (c # t)) @ s) =
     Some (encodeRune r, length (escapeRune r (take n (c # t)))) \<and> escapeRune r (take n (c # t)) \<noteq> []"
proof -
  have hx: "hexVal (CHR ''f'') = Some 15" "hexVal (CHR ''d'') = Some 13" "hexVal (CHR ''2'') = Some 2"
    "hexVal (CHR ''0'') = Some 0" "hexVal (CHR ''8'') = Some 8" "hexVal (CHR ''9'') = Some 9"
    by (simp_all add: hexVal_def byte_def)
  consider (e) "r = runeError \<and> n = 1" | (l) "r = 0x2028" | (p) "r = 0x2029"
    | (o) "\<not> (r = runeError \<and> n = 1)" "r \<noteq> 0x2028" "r \<noteq> 0x2029" by blast
  then show ?thesis
  proof cases
    case e
    then have "escapeRune r (take n (c # t)) = backslash # ''ufffd''" by (simp add: escapeRune_def)
    then show ?thesis using e unquoteStep_u4[OF hx(1) hx(1) hx(1) hx(2), of s]
      by (simp add: isSurrogate_def runeError_def)
  next
    case l
    then have "escapeRune r (take n (c # t)) = backslash # ''u2028''"
      by (simp add: escapeRune_def runeError_def)
    then show ?thesis using l unquoteStep_u4[OF hx(3) hx(4) hx(3) hx(5), of s]
      by (simp add: isSurrogate_def)
  next
    case p
    then have "escapeRune r (take n (c # t)) = backslash # ''u2029''"
      by (simp add: escapeRune_def runeError_def)
    then show ?thesis using p unquoteStep_u4[OF hx(3) hx(4) hx(3) hx(6), of s]
      by (simp add: isSurrogate_def)
  next
    case o
    obtain u where u: "take n (c # t) = c # u" "n = length (c # u)" "\<forall>s. DecodeRune (c # u @ s) = (r, n)"
      by (rule DecodeRune_take[OF assms o(1)])
    then have "escapeRune r (take n (c # t)) = c # u" using o by (auto simp: escapeRune_def)
    moreover have "c \<noteq> backslash" "c \<noteq> quoteChar" using assms(1) by (auto simp: byte_def)
    ultimately show ?thesis using assms(1) u(2) spec[OF u(3), of s] by (simp add: unquoteStep_def)
  qed
qed

lemma runes_Cons_ascii: "byte c < 0x80 \<Longrightarrow> runes (c # t) = byte c # runes t"
  by (subst runes.simps) (simp add: DecodeRune_ascii_first)

lemma escapeAscii_ne: "escapeAscii c \<noteq> []"
  by (simp add: escapeAscii_def)

theorem json_unquote_quote: "json_unquote (json_quote s) = Some (toValidUTF8 s)"
proof (induction s rule: json_quote.induct)
  case (1 s)
  show ?case
  proof (cases s)
    case Nil
    then show ?thesis by (simp add: json_quote.simps json_unquote.simps toValidUTF8_def runes.simps)
  next
    case (Cons c t)
    show ?thesis
    proof (cases "byte c < 0x80")
      case True
      then have q: "json_quote s = escapeAscii c @ json_quote t"
        using Cons by (subst json_quote.simps) simp
      have IH: "json_unquote (json_quote t) = Some (toValidUTF8 t)" using "1.IH"(1) Cons True by simp
      have "json_unquote (json_quote s) = map_option ((@) [c]) (json_unquote (json_quote t))"
        unfolding q by (rule json_unquote_piece[OF unquoteStep_escapeAscii[OF True] escapeAscii_ne])
      then show ?thesis
        using IH True Cons by (simp add: toValidUTF8_def runes_Cons_ascii encodeRune_ascii)
    next
      case False
      obtain r n where rn: "DecodeRune s = (r, n)" by fastforce
      have q: "json_quote s = escapeRune r (take n s) @ json_quote (drop n s)"
        using Cons False rn by (subst json_quote.simps) simp
      have IH: "json_unquote (json_quote (drop n s)) = Some (toValidUTF8 (drop n s))"
        using "1.IH"(2)[of "DecodeRune s" r n] Cons False rn by simp
      have "0x80 \<le> byte c" using False by simp
      note u = unquoteStep_escapeRune[OF this, of t r n "json_quote (drop n s)"]
      have "json_unquote (json_quote s) = map_option ((@) (encodeRune r)) (json_unquote (json_quote (drop n s)))"
        unfolding q using u rn Cons by (intro json_unquote_piece) simp_all
      moreover have "runes s = r # runes (drop n s)"
        using Cons rn by (subst runes.simps) simp
      ultimately show ?thesis using IH by (simp add: toValidUTF8_def)
    qed
  qed
qed

lemma json_unquote_quote_valid: "validUTF8 s \<Longrightarrow> json_unquote (json_quote s) = Some s"
  by (simp add: json_unquote_quote validUTF8_def)

subsection \<open>Scanning back what was written\<close>

text \<open>Raw literal text that the scanner reads up to the closing quote, whatever follows.\<close>

definition rawOk :: "string \<Rightarrow> bool" where
  "rawOk raw \<longleftrightarrow> scanStr (raw @ [quoteChar]) = Some (raw, [])"

lemma scanStr_append: "scanStr s = Some (raw, r) \<Longrightarrow> scanStr (s @ t) = Some (raw, r @ t)"
proof (induction s arbitrary: raw r rule: scanStr.induct)
  case (2 c s)
  show ?case
  proof (cases "c = quoteChar \<or> (c \<noteq> backslash \<and> byte c < 0x20)")
    case True
    with "2.prems" show ?thesis by (auto split: if_splits)
  next
    case nq: False
    show ?thesis
    proof (cases "c = backslash")
      case False
      with nq "2.prems" "2.IH"(3) show ?thesis by auto
    next
      case True
      then obtain e s' where s: "s = e # s'" using nq "2.prems" by (cases s) auto
      show ?thesis
      proof (cases "simpleEscape e \<noteq> None")
        case T: True
        with nq True s "2.prems" "2.IH"(1) show ?thesis by auto
      next
        case F: False
        then have u: "e = CHR ''u''" using nq True s "2.prems" by (auto split: if_splits)
        then obtain h1 h2 h3 h4 s'' where s': "s' = h1 # h2 # h3 # h4 # s''"
          using nq True s F "2.prems" by (auto split: list.splits if_splits)
        then have h: "list_all (\<lambda>h. hexVal h \<noteq> None) [h1, h2, h3, h4]"
          using nq True s F u "2.prems" by (auto split: if_splits)
        with nq True s F u s' "2.prems" "2.IH"(2) show ?thesis by auto
      qed
    qed
  qed
qed simp

lemma rawOk_scan: "rawOk raw \<Longrightarrow> scanStr (raw @ quoteChar # rest) = Some (raw, rest)"
  using scanStr_append[of "raw @ [quoteChar]" raw "[]" rest] by (simp add: rawOk_def)

definition plainChar :: "char \<Rightarrow> bool" where
  "plainChar c \<longleftrightarrow> c \<noteq> quoteChar \<and> c \<noteq> backslash \<and> 0x20 \<le> byte c"

lemma rawOk_Nil [simp]: "rawOk []"
  by (simp add: rawOk_def)

lemma rawOk_plain_Cons: "plainChar c \<Longrightarrow> rawOk s \<Longrightarrow> rawOk (c # s)"
  by (simp add: rawOk_def plainChar_def)

lemma rawOk_plain_append: "list_all plainChar p \<Longrightarrow> rawOk s \<Longrightarrow> rawOk (p @ s)"
  by (induction p) (simp_all add: rawOk_plain_Cons)

lemma rawOk_plain: "list_all plainChar s \<Longrightarrow> rawOk s"
  using rawOk_plain_append[of s "[]"] by simp

lemma rawOk_escape: "simpleEscape e \<noteq> None \<Longrightarrow> rawOk s \<Longrightarrow> rawOk (backslash # e # s)"
  by (simp add: rawOk_def)

lemma rawOk_u4:
  "list_all (\<lambda>h. hexVal h \<noteq> None) [a, b, c, d] \<Longrightarrow> rawOk s \<Longrightarrow>
   rawOk (backslash # CHR ''u'' # a # b # c # d # s)"
  by (simp add: rawOk_def simpleEscape_u)

lemma rawOk_escapeAscii: "byte c < 0x80 \<Longrightarrow> rawOk s \<Longrightarrow> rawOk (escapeAscii c @ s)"
proof -
  assume c: "byte c < 0x80" and s: "rawOk s"
  have e: "simpleEscape (CHR ''b'') \<noteq> None" "simpleEscape (CHR ''f'') \<noteq> None"
    "simpleEscape (CHR ''n'') \<noteq> None" "simpleEscape (CHR ''r'') \<noteq> None" "simpleEscape (CHR ''t'') \<noteq> None"
    "simpleEscape backslash \<noteq> None" "simpleEscape quoteChar \<noteq> None"
    by (simp_all add: simpleEscape_def)
  have h: "hexVal (CHR ''0'') \<noteq> None" by (simp add: hexVal_def byte_def)
  have "rawOk ([backslash, CHR ''u'', CHR ''0'', CHR ''0'', hexDigit (byte c div 16), hexDigit (byte c mod 16)] @ s)"
    using c s h by (simp add: rawOk_u4 hexVal_hexDigit)
  then show ?thesis
    using s e unfolding escapeAscii_def
    by (auto simp: rawOk_escape intro!: rawOk_plain_Cons) (simp_all add: plainChar_def)
qed

lemma rawOk_escapeRune:
  assumes "0x80 \<le> byte c" "DecodeRune (c # t) = (r, n)" "rawOk s"
  shows "rawOk (escapeRune r (take n (c # t)) @ s)"
proof -
  have hx: "hexVal (CHR ''f'') \<noteq> None" "hexVal (CHR ''d'') \<noteq> None" "hexVal (CHR ''2'') \<noteq> None"
    "hexVal (CHR ''0'') \<noteq> None" "hexVal (CHR ''8'') \<noteq> None" "hexVal (CHR ''9'') \<noteq> None"
    by (simp_all add: hexVal_def byte_def)
  have "\<forall>d \<in> set (take n (c # t)). 0x80 \<le> byte d"
    using DecodeRune_nonascii_first[OF assms(1), of t] assms(2) by simp
  then have "list_all plainChar (take n (c # t))"
    by (auto simp: list_all_iff plainChar_def byte_def)
  then have "rawOk (take n (c # t) @ s)" using assms(3) by (rule rawOk_plain_append)
  then show ?thesis
    using hx assms(3) by (auto simp: escapeRune_def rawOk_u4)
qed

lemma rawOk_quote: "rawOk (json_quote s)"
proof (induction s rule: json_quote.induct)
  case (1 s)
  show ?case
  proof (cases s)
    case Nil
    then show ?thesis by (simp add: json_quote.simps)
  next
    case (Cons c t)
    obtain r n where rn: "DecodeRune s = (r, n)" by fastforce
    have "json_quote s = (if byte c < 0x80 then escapeAscii c @ json_quote t
        else escapeRune r (take n s) @ json_quote (drop n s))"
      using Cons rn by (subst json_quote.simps) simp
    then show ?thesis
      using "1.IH"(1) "1.IH"(2)[of "DecodeRune s" r n] Cons rn
      by (auto intro: rawOk_escapeAscii rawOk_escapeRune)
  qed
qed

text \<open>Well-formed trees of a nesting depth: scannable literals, integers as numbers.\<close>

fun wf_json :: "nat \<Rightarrow> json \<Rightarrow> bool" where
  "wf_json d (JNum n) \<longleftrightarrow> (\<exists>k. n = Itoa k)"
| "wf_json d (JStr raw) \<longleftrightarrow> rawOk raw"
| "wf_json 0 (JArr vs) \<longleftrightarrow> False"
| "wf_json (Suc d) (JArr vs) \<longleftrightarrow> (\<forall>v \<in> set vs. wf_json d v)"
| "wf_json 0 (JObj kvs) \<longleftrightarrow> False"
| "wf_json (Suc d) (JObj kvs) \<longleftrightarrow> (\<forall>kv \<in> set kvs. rawOk (fst kv) \<and> wf_json d (snd kv))"
| "wf_json d _ \<longleftrightarrow> True"

definition delim :: "string \<Rightarrow> bool" where
  "delim rest \<longleftrightarrow> rest = [] \<or> hd rest \<in> {CHR '','', CHR '']'', CHR ''}''}"

lemma isWs_cases: "isWs c \<longleftrightarrow> c = CHR '' '' \<or> c = CHR 0x09 \<or> c = CHR 0x0A \<or> c = CHR 0x0D"
proof -
  have "byte c = 9 \<longleftrightarrow> c = CHR 0x09" "byte c = 10 \<longleftrightarrow> c = CHR 0x0A" "byte c = 13 \<longleftrightarrow> c = CHR 0x0D"
    using byte_inj[of c "CHR 0x09"] byte_inj[of c "CHR 0x0A"] byte_inj[of c "CHR 0x0D"]
    by (simp_all add: byte_def)
  then show ?thesis by (simp add: isWs_def)
qed

lemma skipWs_id: "s = [] \<or> \<not> isWs (hd s) \<Longrightarrow> skipWs s = s"
  by (cases s) (auto simp: skipWs_def)

lemma delim_skipWs: "delim rest \<Longrightarrow> skipWs rest = rest"
  by (rule skipWs_id) (auto simp: delim_def isWs_cases)

lemma isDigit_not_ws: "isDigit c \<Longrightarrow> \<not> isWs c"
  by (auto simp: isWs_cases isDigit_def byte_def)

lemma natDigits_no_leading_zero: "0 < n \<Longrightarrow> hd (natDigits n) \<noteq> CHR ''0''"
proof (induction n rule: natDigits.induct)
  case (1 n)
  show ?case
  proof (cases "n < 10")
    case True
    have "byte (digitChar n) \<noteq> byte (CHR ''0'')" using True "1.prems"
      by (simp add: digitChar_def byte_def[of "CHR ''0''"])
    then show ?thesis using True by (subst natDigits.simps) auto
  next
    case False
    then have "hd (natDigits (n div 10)) \<noteq> CHR ''0''" using "1.IH" by simp
    then show ?thesis using False by (subst natDigits.simps) simp
  qed
qed

lemma natDigits_0: "natDigits 0 = ''0''"
proof -
  have "digitChar 0 = CHR ''0''"
    by (rule byte_inj[THEN iffD1]) (simp add: digitChar_def byte_def[of "CHR ''0''"])
  then show ?thesis by (simp add: natDigits.simps)
qed

lemma delim_not_digit: "delim rest \<Longrightarrow> rest = [] \<or> \<not> isDigit (hd rest)"
  by (auto simp: delim_def isDigit_def byte_def)

lemma takeWhile_digits:
  assumes "list_all isDigit ds" "rest = [] \<or> \<not> isDigit (hd rest)"
  shows "takeWhile isDigit (ds @ rest) = ds" "dropWhile isDigit (ds @ rest) = rest"
  using assms by (cases rest; auto simp: takeWhile_append dropWhile_append list_all_iff)+

lemma scanInt_natDigits:
  assumes "rest = [] \<or> \<not> isDigit (hd rest)"
  shows "scanInt (natDigits n @ rest) = Some (natDigits n, rest)"
proof (cases "n = 0")
  case True
  then show ?thesis by (simp add: natDigits_0 scanInt_def)
next
  case False
  obtain c t where ct: "natDigits n = c # t" by (cases "natDigits n") auto
  with False natDigits_no_leading_zero[of n] have "c \<noteq> CHR ''0''" by auto
  then have "scanInt (natDigits n @ rest) = scanDigits1 (natDigits n @ rest)"
    by (simp add: scanInt_def ct)
  then show ?thesis
    using takeWhile_digits[OF natDigits_digits[of n] assms] by (simp add: scanDigits1_def)
qed

lemma delim_frac_exp: "delim rest \<Longrightarrow> scanFrac rest = Some ([], rest) \<and> scanExp rest = Some ([], rest)"
  by (auto simp: delim_def scanFrac_def scanExp_def split: list.splits)

lemma scanNum_Itoa: "delim rest \<Longrightarrow> scanNum (Itoa k @ rest) = Some (Itoa k, rest)"
  using hd_natDigits[of "nat k"] scanInt_natDigits[OF delim_not_digit] delim_frac_exp
  by (auto simp: scanNum_def Itoa_def Let_def)

lemma hd_Itoa: "isDigit (hd (Itoa k)) \<or> hd (Itoa k) = CHR ''-''" "Itoa k \<noteq> []"
proof -
  have "isDigit (hd (natDigits n))" for n
    using natDigits_digits[of n] by (metis list.set_sel(1) list_all_iff natDigits_ne)
  then show "isDigit (hd (Itoa k)) \<or> hd (Itoa k) = CHR ''-''" by (simp add: Itoa_def)
  show "Itoa k \<noteq> []" by (simp add: Itoa_def)
qed

text \<open>The first byte of a well-formed text decides the kind of value and is no white space.\<close>

lemma json_text_hd:
  assumes "wf_json d j"
  shows "json_text j \<noteq> [] \<and> \<not> isWs (hd (json_text j)) \<and>
    hd (json_text j) \<noteq> CHR '']'' \<and> hd (json_text j) \<noteq> CHR ''}''"
proof -
  have n: "\<not> isWs c \<and> c \<noteq> CHR '']'' \<and> c \<noteq> CHR ''}''" if "isDigit c \<or> c = CHR ''-''" for c
    using that by (auto simp: isWs_cases isDigit_def byte_def)
  show ?thesis
    using assms n hd_Itoa by (cases j) (auto simp: isWs_cases)
qed

lemma stripLit_append: "stripLit lit (lit @ rest) = Some rest"
  by (simp add: stripLit_def)

lemma scanVal_Itoa:
  assumes "delim rest"
  shows "scanVal (Suc fuel) d (Itoa k @ rest) = Some (JNum (Itoa k), rest)"
proof -
  obtain c t where ct: "Itoa k = c # t" using hd_Itoa(2) by (cases "Itoa k") auto
  with hd_Itoa(1)[of k] have c: "isDigit c \<or> c = CHR ''-''" by simp
  then have "\<not> isWs c" "c \<noteq> CHR ''{''" "c \<noteq> CHR ''[''" "c \<noteq> quoteChar" "c \<noteq> CHR ''t''" "c \<noteq> CHR ''f''"
      "c \<noteq> CHR ''n''"
    by (auto simp: isWs_cases isDigit_def byte_def)
  then show ?thesis
    using scanNum_Itoa[OF assms, of k] ct by (simp add: skipWs_id)
qed

lemma scanVal_literal:
  "scanVal (Suc fuel) d (''null'' @ rest) = Some (JNull, rest)"
  "scanVal (Suc fuel) d (''true'' @ rest) = Some (JBool True, rest)"
  "scanVal (Suc fuel) d (''false'' @ rest) = Some (JBool False, rest)"
  by (simp_all add: skipWs_id isWs_cases stripLit_def)

lemma scanVal_JStr:
  "rawOk raw \<Longrightarrow> scanVal (Suc fuel) d (quoteChar # raw @ quoteChar # rest) = Some (JStr raw, rest)"
  by (simp add: skipWs_id isWs_cases rawOk_scan)

lemma commaSep_Cons:
  "commaSep (x # xs) = x @ (if xs = [] then [] else '','' @ commaSep xs)"
  by (cases xs) simp_all

lemma scanElems_text:
  assumes IH: "\<And>v fuel rest. v \<in> set vs \<Longrightarrow> 2 * length (json_text v) < fuel \<Longrightarrow> delim rest \<Longrightarrow>
      scanVal fuel d (json_text v @ rest) = Some (v, rest)"
    and "vs \<noteq> []" "2 * length (commaSep (map json_text vs)) + 1 < fuel"
  shows "scanElems fuel d (commaSep (map json_text vs) @ CHR '']'' # rest) = Some (vs, rest)"
  using assms
proof (induction vs arbitrary: fuel)
  case (Cons v vs)
  obtain f where f: "fuel = Suc f" using Cons.prems(3) by (cases fuel) auto
  let ?tail = "(if vs = [] then [] else '','' @ commaSep (map json_text vs)) @ CHR '']'' # rest"
  have tx: "commaSep (map json_text (v # vs)) @ CHR '']'' # rest = json_text v @ ?tail"
    by (simp add: commaSep_Cons)
  have len: "2 * length (json_text v) < f" using Cons.prems(3) by (simp add: commaSep_Cons f)
  have dl: "delim ?tail" by (simp add: delim_def)
  have v: "scanVal f d (json_text v @ ?tail) = Some (v, ?tail)"
    by (rule Cons.prems(1)[OF _ len dl]) simp
  show ?case
  proof (cases "vs = []")
    case True
    then show ?thesis unfolding tx f using v delim_skipWs[OF dl] by simp
  next
    case False
    have "scanElems f d (commaSep (map json_text vs) @ CHR '']'' # rest) = Some (vs, rest)"
      using Cons.prems False by (intro Cons.IH) (auto simp: commaSep_Cons f)
    then show ?thesis unfolding tx f using v delim_skipWs[OF dl] False by simp
  qed
qed simp

definition member_text :: "string \<times> json \<Rightarrow> string" where
  "member_text kv = quoteChar # fst kv @ [quoteChar] @ '':'' @ json_text (snd kv)"

lemma json_text_JObj: "json_text (JObj kvs) = ''{'' @ commaSep (map member_text kvs) @ ''}''"
proof -
  have "map (\<lambda>(k, v). quoteChar # k @ [quoteChar] @ '':'' @ json_text v) kvs = map member_text kvs"
    by (simp add: member_text_def case_prod_beta)
  then show ?thesis by (simp only: json_text.simps)
qed

lemma scanMembers_text:
  assumes IH: "\<And>kv fuel rest. kv \<in> set kvs \<Longrightarrow> 2 * length (json_text (snd kv)) < fuel \<Longrightarrow> delim rest \<Longrightarrow>
      scanVal fuel d (json_text (snd kv) @ rest) = Some (snd kv, rest)"
    and raw: "\<forall>kv \<in> set kvs. rawOk (fst kv)"
    and "kvs \<noteq> []" "2 * length (commaSep (map member_text kvs)) + 1 < fuel"
  shows "scanMembers fuel d (commaSep (map member_text kvs) @ CHR ''}'' # rest) = Some (kvs, rest)"
  using assms
proof (induction kvs arbitrary: fuel)
  case (Cons kv kvs)
  obtain k v where kv: "kv = (k, v)" by fastforce
  obtain f where f: "fuel = Suc f" using Cons.prems(4) by (cases fuel) auto
  let ?tail = "(if kvs = [] then [] else '','' @ commaSep (map member_text kvs)) @ CHR ''}'' # rest"
  have tx: "commaSep (map member_text (kv # kvs)) @ CHR ''}'' # rest =
      quoteChar # k @ quoteChar # CHR '':'' # json_text v @ ?tail"
    by (simp add: commaSep_Cons kv member_text_def)
  have len: "2 * length (json_text v) < f"
    using Cons.prems(4) by (simp add: commaSep_Cons f kv member_text_def)
  have dl: "delim ?tail" by (simp add: delim_def)
  have v: "scanVal f d (json_text v @ ?tail) = Some (v, ?tail)"
    using Cons.prems(1)[of kv f ?tail] len dl kv by simp
  have k: "scanStr (k @ quoteChar # CHR '':'' # json_text v @ ?tail) = Some (k, CHR '':'' # json_text v @ ?tail)"
    using Cons.prems(2) kv by (intro rawOk_scan) simp
  have ws: "skipWs (quoteChar # u) = quoteChar # u" "skipWs (CHR '':'' # u) = CHR '':'' # u" for u
    by (simp_all add: skipWs_id isWs_cases)
  show ?case
  proof (cases "kvs = []")
    case True
    then show ?thesis unfolding tx f using v k ws delim_skipWs[OF dl] kv by simp
  next
    case False
    have "scanMembers f d (commaSep (map member_text kvs) @ CHR ''}'' # rest) = Some (kvs, rest)"
      using Cons.prems False by (intro Cons.IH) (auto simp: commaSep_Cons f)
    then show ?thesis unfolding tx f using v k ws delim_skipWs[OF dl] False kv by simp
  qed
qed simp

lemma commaSep_hd: "xs \<noteq> [] \<Longrightarrow> hd xs \<noteq> [] \<Longrightarrow> commaSep xs \<noteq> [] \<and> hd (commaSep xs) = hd (hd xs)"
  by (cases xs rule: commaSep.cases) auto

lemma scanVal_JArr:
  assumes "vs \<noteq> [] \<Longrightarrow> wf_json d (hd vs)"
    and "vs \<noteq> [] \<Longrightarrow> scanElems f d (commaSep (map json_text vs) @ CHR '']'' # rest) = Some (vs, rest)"
  shows "scanVal (Suc f) (Suc d) (json_text (JArr vs) @ rest) = Some (JArr vs, rest)"
proof (cases "vs = []")
  case True
  then show ?thesis by (simp add: skipWs_id isWs_cases)
next
  case False
  let ?body = "commaSep (map json_text vs)"
  have hdb: "?body \<noteq> []" "\<not> isWs (hd ?body)" "hd ?body \<noteq> CHR '']''"
    using commaSep_hd[of "map json_text vs"] json_text_hd[OF assms(1)[OF False]] False by (simp_all add: hd_map)
  have "skipWs (?body @ CHR '']'' # rest) = ?body @ CHR '']'' # rest"
    using hdb by (intro skipWs_id) simp
  then show ?thesis using assms(2)[OF False] hdb False by (simp add: skipWs_id isWs_cases)
qed

lemma scanVal_JObj:
  assumes "kvs \<noteq> [] \<Longrightarrow> scanMembers f d (commaSep (map member_text kvs) @ CHR ''}'' # rest) = Some (kvs, rest)"
  shows "scanVal (Suc f) (Suc d) (json_text (JObj kvs) @ rest) = Some (JObj kvs, rest)"
proof (cases "kvs = []")
  case True
  then show ?thesis by (simp add: skipWs_id isWs_cases)
next
  case False
  let ?body = "commaSep (map member_text kvs)"
  have hdb: "?body \<noteq> []" "hd ?body = quoteChar"
    using commaSep_hd[of "map member_text kvs"] False by (simp_all add: hd_map member_text_def)
  have "skipWs (?body @ CHR ''}'' # rest) = ?body @ CHR ''}'' # rest"
    using hdb by (intro skipWs_id) (simp add: isWs_cases)
  moreover have "json_text (JObj kvs) @ rest = CHR ''{'' # ?body @ CHR ''}'' # rest"
    using json_text_JObj[of kvs] by simp
  ultimately show ?thesis using assms[OF False] hdb by (simp add: skipWs_id isWs_cases)
qed

lemma scanVal_text:
  "wf_json d j \<Longrightarrow> 2 * length (json_text j) < fuel \<Longrightarrow> delim rest \<Longrightarrow>
   scanVal fuel d (json_text j @ rest) = Some (j, rest)"
proof (induction d arbitrary: j fuel rest)
  case 0
  then obtain f where "fuel = Suc f" by (cases fuel) auto
  with 0 show ?case
    using scanVal_literal[of f 0 rest] scanVal_JStr[of _ f 0 rest] scanVal_Itoa[of rest f 0]
    by (cases j) auto
next
  case (Suc d)
  then obtain f where f: "fuel = Suc f" by (cases fuel) auto
  show ?case
  proof (cases j)
    case (JArr vs)
    show ?thesis unfolding JArr f
    proof (rule scanVal_JArr)
      assume ne: "vs \<noteq> []"
      show "wf_json d (hd vs)" using Suc.prems(1) JArr ne by simp
      show "scanElems f d (commaSep (map json_text vs) @ CHR '']'' # rest) = Some (vs, rest)"
        using Suc.prems JArr f ne by (intro scanElems_text Suc.IH) auto
    qed
  next
    case (JObj kvs)
    show ?thesis unfolding JObj f
      by (rule scanVal_JObj, rule scanMembers_text)
         (use Suc.prems JObj f json_text_JObj[of kvs] in \<open>auto intro!: Suc.IH\<close>)
  qed (use Suc.prems f scanVal_literal[of f "Suc d" rest] scanVal_JStr[of _ f "Suc d" rest]
      scanVal_Itoa[of rest f "Suc d"] in auto)
qed

theorem json_scan_text: "wf_json maxNestingDepth j \<Longrightarrow> json_scan (json_text j) = Some j"
  using scanVal_text[of maxNestingDepth j "scanFuel (json_text j)" "[]"]
  by (simp add: json_scan_def scanFuel_def delim_def skipWs_def)

lemma json_scan_prefix_text: "wf_json maxNestingDepth j \<Longrightarrow> json_scan_prefix (json_text j) = Some j"
  using scanVal_text[of maxNestingDepth j "scanFuel (json_text j)" "[]"]
  by (simp add: json_scan_prefix_def scanFuel_def delim_def)

lemma wf_json_mono: "wf_json d j \<Longrightarrow> d \<le> d' \<Longrightarrow> wf_json d' j"
proof (induction d arbitrary: j d')
  case 0
  then show ?case by (cases j; cases d') auto
next
  case (Suc d)
  then obtain e where e: "d' = Suc e" "d \<le> e" by (cases d') auto
  with Suc show ?case by (cases j) auto
qed

subsection \<open>Decoded strings are valid UTF-8\<close>

lemma digits64: obtains a b c d where "r = a * 262144 + b * 4096 + c * 64 + (d::nat)" "b < 64" "c < 64" "d < 64"
proof
  show "r = r div 262144 * 262144 + r div 4096 mod 64 * 4096 + r div 64 mod 64 * 64 + r mod 64"
  proof -
    have "r div 64 div 64 = r div 4096" "r div 4096 div 64 = r div 262144" by (simp_all add: div_mult2_eq[symmetric])
    then show ?thesis using div_mult_mod_eq[of r 64] div_mult_mod_eq[of "r div 64" 64] div_mult_mod_eq[of "r div 4096" 64]
      by linarith
  qed
qed simp_all

lemma digits64_div:
  assumes "b < 64" "c < 64" "(d::nat) < 64"
  shows "(a * 262144 + b * 4096 + c * 64 + d) div 262144 = a"
    "(a * 262144 + b * 4096 + c * 64 + d) div 4096 = a * 64 + b"
    "(a * 262144 + b * 4096 + c * 64 + d) div 64 = a * 4096 + b * 64 + c"
    "(a * 262144 + b * 4096 + c * 64 + d) mod 64 = d"
    "(a * 64 + b) mod 64 = b" "(a * 4096 + b * 64 + c) mod 64 = c"
proof -
  have l: "b * 4096 + c * 64 + d < 262144" "c * 64 + d < 4096" using assms by linarith+
  show "(a * 262144 + b * 4096 + c * 64 + d) div 262144 = a"
    using l(1) div_mult_self3[of 262144 a "b * 4096 + c * 64 + d"] by (simp add: algebra_simps)
  have "(a * 64 + b) * 4096 + (c * 64 + d) = a * 262144 + b * 4096 + c * 64 + d" by simp
  then show "(a * 262144 + b * 4096 + c * 64 + d) div 4096 = a * 64 + b"
    using l(2) div_mult_self3[of 4096 "a * 64 + b" "c * 64 + d"] by simp
  have e: "(a * 4096 + b * 64 + c) * 64 + d = a * 262144 + b * 4096 + c * 64 + d" by simp
  then show "(a * 262144 + b * 4096 + c * 64 + d) div 64 = a * 4096 + b * 64 + c"
    using assms(3) div_mult_self3[of 64 "a * 4096 + b * 64 + c" d] by simp
  show "(a * 262144 + b * 4096 + c * 64 + d) mod 64 = d"
    using assms(3) mod_mult_self3[of "a * 4096 + b * 64 + c" 64 d] unfolding e by simp
  show "(a * 64 + b) mod 64 = b" using assms by simp
  show "(a * 4096 + b * 64 + c) mod 64 = c"
    using assms(2) mod_mult_self3[of "a * 64 + b" 64 c] by (simp add: algebra_simps)
qed

definition scalar :: "rune \<Rightarrow> rune" where
  "scalar r = (if 0x10FFFF < r \<or> (0xD800 \<le> r \<and> r \<le> 0xDFFF) then runeError else r)"

lemma encodeRune_scalar: "encodeRune (scalar r) = encodeRune r"
  by (simp add: encodeRune_def scalar_def runeError_def)

lemma scalar_scalar: "scalar (scalar r) = scalar r"
  by (simp add: scalar_def runeError_def)

lemma DecodeRune_encodeRune_scalar:
  assumes "scalar r = r"
  shows "DecodeRune (encodeRune r @ s) = (r, length (encodeRune r))"
proof -
  obtain a b c d where r: "r = a * 262144 + b * 4096 + c * 64 + d" and l: "b < 64" "c < 64" "d < 64"
    by (rule digits64)
  note ds = digits64_div[OF l, of a, folded r]
  have sc: "r \<le> 0x10FFFF" "\<not> (0xD800 \<le> r \<and> r \<le> 0xDFFF)"
    using assms by (auto simp: scalar_def runeError_def split: if_splits)
  consider "r < 0x80" | "0x80 \<le> r" "r < 0x800" | "0x800 \<le> r" "r < 0x10000" | "0x10000 \<le> r" by linarith
  then show ?thesis
  proof cases
    case 1
    then show ?thesis by (simp add: encodeRune_def DecodeRune.simps)
  next
    case 2
    then have z: "a = 0" "b = 0" using r l by linarith+
    then have "2 \<le> c" "c < 32" using 2 r l by linarith+
    with z 2 ds l r show ?thesis by (simp add: encodeRune_def DecodeRune.simps Let_def cont_def)
  next
    case 3
    then have z: "a = 0" "b < 16" using r l by linarith+
    have bc: "c \<le> 31" if "b = 13"
      using sc(2) 3 r l z(1) that by linarith
    have b0: "32 \<le> c" if "b = 0"
      using 3 r l z(1) that by linarith
    have ds0: "r div 4096 = b" "r div 64 = b * 64 + c" "(b * 64 + c) mod 64 = c" "r mod 64 = d"
      "b * 4096 + c * 64 + d = r"
      using ds r z by simp_all
    show ?thesis using 3 ds0 l z bc b0 sc
      by (simp add: encodeRune_def DecodeRune.simps Let_def cont_def second_ok_def)
  next
    case 4
    then have "a < 5" using r l sc by linarith
    with 4 ds l r sc show ?thesis by (simp add: encodeRune_def DecodeRune.simps Let_def cont_def second_ok_def)
  qed
qed

lemma DecodeRune_encodeRune: "DecodeRune (encodeRune r @ s) = (scalar r, length (encodeRune r))"
  using DecodeRune_encodeRune_scalar[OF scalar_scalar, of r s] by (simp add: encodeRune_scalar)

lemma encodeRune_ne: "encodeRune r \<noteq> []"
  by (simp add: encodeRune_def)

lemma runes_encode: "runes (concat (map encodeRune rs)) = map scalar rs"
proof (induction rs)
  case Nil
  show ?case by (simp add: runes.simps)
next
  case (Cons r rs)
  then show ?case by (subst runes.simps) (simp add: DecodeRune_encodeRune encodeRune_ne)
qed

lemma validUTF8_encode: "validUTF8 (concat (map encodeRune rs))"
  by (simp add: validUTF8_def toValidUTF8_def runes_encode comp_def encodeRune_scalar)

lemma unquoteStep_runes: "unquoteStep s = Some (out, n) \<Longrightarrow> \<exists>r. out = encodeRune r"
proof -
  assume u: "unquoteStep s = Some (out, n)"
  have asc: "byte c < 0x80 \<Longrightarrow> \<exists>r. [c] = encodeRune r" for c
    using encodeRune_ascii[of c] by metis
  have "simpleEscape x = Some c \<Longrightarrow> byte c < 0x80" for x c
    by (auto simp: simpleEscape_def byte_def split: if_splits)
  then have esc: "simpleEscape x = Some c \<Longrightarrow> \<exists>r. [c] = encodeRune r" for x c
    using asc by blast
  show ?thesis
    using u by (auto simp: unquoteStep_def Let_def split: if_splits option.splits prod.splits
        intro: asc esc)
qed

lemma json_unquote_runes: "json_unquote s = Some t \<Longrightarrow> \<exists>rs. t = concat (map encodeRune rs)"
proof (induction s arbitrary: t rule: json_unquote.induct)
  case (1 s)
  show ?case
  proof (cases "s = []")
    case True
    with 1 show ?thesis by (intro exI[of _ "[]"]) (simp add: json_unquote.simps)
  next
    case False
    with 1(2) obtain out n u where st: "unquoteStep s = Some (out, n)" "json_unquote (drop n s) = Some u" "t = out @ u"
      by (subst (asm) json_unquote.simps) (auto split: option.splits)
    from 1(1)[OF False st(1) refl st(2)] obtain rs where "u = concat (map encodeRune rs)" by auto
    moreover obtain r where "out = encodeRune r" using unquoteStep_runes[OF st(1)] by auto
    ultimately have "t = concat (map encodeRune (r # rs))" using st by simp
    then show ?thesis by blast
  qed
qed

theorem json_unquote_valid: "json_unquote s = Some t \<Longrightarrow> validUTF8 t"
  using json_unquote_runes validUTF8_encode by blast

lemma toValidUTF8_valid: "validUTF8 (toValidUTF8 s)"
  unfolding toValidUTF8_def by (rule validUTF8_encode)

subsection \<open>The scanner's fuel\<close>

lemma skipWs_length: "length (skipWs s) \<le> length s"
  by (simp add: skipWs_def length_dropWhile_le)

lemma skipWs_Cons_length: "skipWs s = c # t \<Longrightarrow> length t < length s"
  using skipWs_length[of s] by simp

lemma scanStr_length: "scanStr s = Some (raw, r) \<Longrightarrow> length r < length s"
  by (induction s arbitrary: raw r rule: scanStr.induct) (fastforce split: if_splits list.splits)+

lemma scanDigits1_length: "scanDigits1 s = Some (x, r) \<Longrightarrow> length r < length s"
proof -
  assume "scanDigits1 s = Some (x, r)"
  then have "takeWhile isDigit s \<noteq> []" "r = dropWhile isDigit s" by (auto simp: scanDigits1_def split: if_splits)
  moreover have "length s = length (takeWhile isDigit s) + length (dropWhile isDigit s)"
    by (metis length_append takeWhile_dropWhile_id)
  ultimately show ?thesis by simp
qed

lemma scanInt_length: "scanInt s = Some (x, r) \<Longrightarrow> length r < length s"
  using scanDigits1_length by (fastforce simp: scanInt_def split: list.splits if_splits)

lemma scanFrac_length: "scanFrac s = Some (x, r) \<Longrightarrow> length r \<le> length s"
  using scanDigits1_length by (fastforce simp: scanFrac_def split: list.splits if_splits)

lemma scanExp_length: "scanExp s = Some (x, r) \<Longrightarrow> length r \<le> length s"
  using scanDigits1_length by (fastforce simp: scanExp_def split: list.splits if_splits)

lemma scanNum_length: "scanNum s = Some (x, r) \<Longrightarrow> length r < length s"
proof -
  assume "scanNum s = Some (x, r)"
  moreover define s0 where "s0 = (if s \<noteq> [] \<and> hd s = CHR ''-'' then tl s else s)"
  ultimately obtain i s1 f s2 e where "scanInt s0 = Some (i, s1)"
      "scanFrac s1 = Some (f, s2)" "scanExp s2 = Some (e, r)"
    by (auto simp: scanNum_def Let_def split: if_splits option.splits prod.splits)
  moreover have "length s0 \<le> length s" by (simp add: s0_def)
  ultimately show ?thesis using scanInt_length[of s0] scanFrac_length[of s1] scanExp_length[of s2] by fastforce
qed

lemma stripLit_length: "stripLit (c # lit) s = Some r \<Longrightarrow> length r < length s"
  by (cases s) (auto simp: stripLit_def split: if_splits)


definition consumes :: "nat \<Rightarrow> bool" where
  "consumes fuel \<longleftrightarrow>
     (\<forall>d s v r. scanVal fuel d s = Some (v, r) \<longrightarrow> length r < length s) \<and>
     (\<forall>d s vs r. scanElems fuel d s = Some (vs, r) \<longrightarrow> length r < length s) \<and>
     (\<forall>d s kvs r. scanMembers fuel d s = Some (kvs, r) \<longrightarrow> length r < length s)"

lemma consumesD:
  assumes "consumes fuel"
  shows "scanVal fuel d s = Some (v, r) \<Longrightarrow> length r < length s"
    "scanElems fuel d s = Some (vs, r) \<Longrightarrow> length r < length s"
    "scanMembers fuel d s = Some (kvs, r) \<Longrightarrow> length r < length s"
  using assms unfolding consumes_def by blast+

lemma scanVal_length:
  assumes "consumes fuel" and sv: "scanVal (Suc fuel) d s = Some (v, r)"
  shows "length r < length s"
proof -
  from sv obtain c t where sk: "skipWs s = c # t" by (auto split: list.splits)
  then have lt: "length t < length s" by (rule skipWs_Cons_length)
  have tl: "length (tl (skipWs t)) \<le> length t" using skipWs_length[of t] by simp
  consider "c = CHR ''{''" | "c = CHR ''[''" | "c \<noteq> CHR ''{''" "c \<noteq> CHR ''[''" by blast
  then show ?thesis
  proof cases
    case 3
    then consider x where "scanStr t = Some (x, r)" | b lit where "stripLit (b # lit) (c # t) = Some r"
      | x where "scanNum (c # t) = Some (x, r)"
      using sv sk by (auto split: if_splits)
    then have "length r < length (c # t)"
      using scanStr_length[of t] scanNum_length[of "c # t"] stripLit_length[of _ _ "c # t"]
      by cases fastforce+
    with lt show ?thesis by simp
  qed (use sv sk lt tl consumesD(2,3)[OF assms(1), of _ t] in \<open>fastforce split: nat.splits if_splits\<close>)+
qed

lemma scanElems_length:
  assumes "consumes fuel" and "scanElems (Suc fuel) d s = Some (vs, r)"
  shows "length r < length s"
proof -
  from assms(2) obtain v r1 c r2 where st: "scanVal fuel d s = Some (v, r1)" "skipWs r1 = c # r2"
    by (auto split: option.splits list.splits)
  then have "length r1 < length s" "length r2 < length r1"
    using consumesD(1)[OF assms(1)] skipWs_Cons_length by blast+
  moreover have "length r \<le> length r2"
    using assms(2) st consumesD(2)[OF assms(1), of d r2] by (fastforce split: if_splits)
  ultimately show ?thesis by simp
qed

lemma scanMembers_length:
  assumes "consumes fuel" and "scanMembers (Suc fuel) d s = Some (kvs, r)"
  shows "length r < length s"
proof -
  from assms(2) obtain t k r0 r1 v r2 e r3 where st: "skipWs s = quoteChar # t" "scanStr t = Some (k, r0)"
      "skipWs r0 = CHR '':'' # r1" "scanVal fuel d r1 = Some (v, r2)" "skipWs r2 = e # r3"
    by (auto split: option.splits list.splits if_splits)
  then have "length t < length s" "length r0 < length t" "length r1 < length r0" "length r2 < length r1" "length r3 < length r2"
    using scanStr_length skipWs_Cons_length consumesD(1)[OF assms(1)] by blast+
  moreover have "length r \<le> length r3"
    using assms(2) st consumesD(3)[OF assms(1), of d r3] by (fastforce split: if_splits)
  ultimately show ?thesis by simp
qed

lemma consumes: "consumes fuel"
proof (induction fuel)
  case 0
  show ?case by (simp add: consumes_def)
next
  case (Suc fuel)
  from scanVal_length[OF this] scanElems_length[OF this] scanMembers_length[OF this]
  show ?case unfolding consumes_def by blast
qed

lemma scanVal_fuel:
  assumes "2 * length s < f" "2 * length s < f'"
    and IH: "\<And>t g g' d. length t < length s \<Longrightarrow> 2 * length t + 1 < g \<Longrightarrow> 2 * length t + 1 < g' \<Longrightarrow>
      scanElems g d t = scanElems g' d t \<and> scanMembers g d t = scanMembers g' d t"
  shows "scanVal f d s = scanVal f' d s"
proof -
  obtain g g' where g: "f = Suc g" "f' = Suc g'" "2 * length s \<le> g" "2 * length s \<le> g'"
    using assms(1,2) by (cases f; cases f') auto
  show ?thesis
  proof (cases "skipWs s")
    case (Cons c t)
    from skipWs_Cons_length[OF this] g
    have "scanElems g d' t = scanElems g' d' t" "scanMembers g d' t = scanMembers g' d' t" for d'
      using IH[of t g g'] by simp_all
    with Cons g(1,2) show ?thesis by (simp split: nat.split)
  qed (simp add: g)
qed

lemma scanElems_fuel:
  assumes "scanVal g d s = scanVal g' d s"
    and "\<And>t. length t < length s \<Longrightarrow> scanElems g d t = scanElems g' d t"
  shows "scanElems (Suc g) d s = scanElems (Suc g') d s"
proof (cases "scanVal g' d s")
  case (Some p)
  then obtain w r where sv: "scanVal g' d s = Some (w, r)" by (cases p) simp
  show ?thesis
  proof (cases "skipWs r")
    case (Cons c t)
    then have "scanElems g d t = scanElems g' d t"
      using assms(2)[of t] skipWs_Cons_length[OF Cons] consumesD(1)[OF consumes sv] by simp
    then show ?thesis using assms(1) sv Cons by simp
  qed (use assms(1) sv in simp)
qed (use assms(1) in simp)

lemma scanMembers_fuel:
  assumes "\<And>t. length t < length s \<Longrightarrow> scanVal g d t = scanVal g' d t"
    and "\<And>t. length t < length s \<Longrightarrow> scanMembers g d t = scanMembers g' d t"
  shows "scanMembers (Suc g) d s = scanMembers (Suc g') d s"
proof (cases "\<exists>t k r r1. skipWs s = quoteChar # t \<and> scanStr t = Some (k, r) \<and> skipWs r = CHR '':'' # r1")
  case True
  then obtain t k r r1 where st: "skipWs s = quoteChar # t" "scanStr t = Some (k, r)" "skipWs r = CHR '':'' # r1"
    by blast
  then have l: "length r1 < length s"
    using skipWs_Cons_length[OF st(1)] scanStr_length[OF st(2)] skipWs_Cons_length[OF st(3)] by simp
  note v = assms(1)[OF this]
  show ?thesis
  proof (cases "\<exists>w r2 e r3. scanVal g' d r1 = Some (w, r2) \<and> skipWs r2 = e # r3")
    case True
    then obtain w r2 e r3 where sv: "scanVal g' d r1 = Some (w, r2)" "skipWs r2 = e # r3" by blast
    then have "scanMembers g d r3 = scanMembers g' d r3"
      using assms(2)[of r3] l consumesD(1)[OF consumes sv(1)] skipWs_Cons_length[OF sv(2)] by simp
    then show ?thesis using st v sv by simp
  next
    case False
    then show ?thesis using st v by (auto split: option.splits list.splits)
  qed
next
  case False
  then show ?thesis by (auto split: option.splits list.splits)
qed

lemma scan_fuel:
  "2 * length s < f \<Longrightarrow> 2 * length s < f' \<Longrightarrow> scanVal f d s = scanVal f' d s"
  "2 * length s + 1 < f \<Longrightarrow> 2 * length s + 1 < f' \<Longrightarrow> scanElems f d s = scanElems f' d s"
  "2 * length s + 1 < f \<Longrightarrow> 2 * length s + 1 < f' \<Longrightarrow> scanMembers f d s = scanMembers f' d s"
proof (induction "length s" arbitrary: s f f' d rule: less_induct)
  case less
  have val: "scanVal f d s = scanVal f' d s" if "2 * length s < f" "2 * length s < f'" for f f' d
    using that by (intro scanVal_fuel conjI less(2,3)) simp_all
  have pred: "\<exists>g g'. f = Suc g \<and> f' = Suc g' \<and> 2 * length s < g \<and> 2 * length s < g'"
    if "2 * length s + 1 < f" "2 * length s + 1 < f'" for f f'
    using that by (cases f; cases f') auto
  {
    case 1
    then show ?case by (rule val)
  next
    case 2
    then obtain g g' where g: "f = Suc g" "f' = Suc g'" "2 * length s < g" "2 * length s < g'" using pred by blast
    then show ?case unfolding g(1,2) by (intro scanElems_fuel val less(2)) auto
  next
    case 3
    then obtain g g' where g: "f = Suc g" "f' = Suc g'" "2 * length s < g" "2 * length s < g'" using pred by blast
    then show ?case unfolding g(1,2) by (intro scanMembers_fuel less(1,3)) auto
  }
qed

text \<open>The fuel of \<open>json_scan\<close> is enough for every input: no larger fuel changes what it accepts
  or returns.\<close>

theorem scanVal_enough_fuel: "scanFuel s \<le> fuel \<Longrightarrow> scanVal fuel d s = scanVal (scanFuel s) d s"
  by (rule scan_fuel) (simp_all add: scanFuel_def)

subsection \<open>Struct decoding\<close>

text \<open>Field names are plain ASCII: they scan and unquote to themselves.\<close>

definition plainName :: "string \<Rightarrow> bool" where
  "plainName s \<longleftrightarrow> list_all (\<lambda>c. plainChar c \<and> byte c < 0x80) s"

lemma plainName_rawOk: "plainName s \<Longrightarrow> rawOk s"
  by (rule rawOk_plain) (simp add: plainName_def list_all_iff)

lemma plainName_unquote: "plainName s \<Longrightarrow> json_unquote s = Some s"
proof (induction s)
  case Nil
  then show ?case by (simp add: json_unquote.simps)
next
  case (Cons c s)
  then have "unquoteStep ([c] @ s) = Some ([c], length [c])"
    by (simp add: unquoteStep_def plainName_def plainChar_def)
  from json_unquote_piece[OF this] Cons show ?case by (simp add: plainName_def)
qed

lemma decodeString_clean: "decodeString upd (jstring s) r = (upd (toValidUTF8 s) r, False)"
  by (simp add: decodeString_def jstring_def json_unquote_quote)

lemma toValidUTF8_Nil [simp]: "toValidUTF8 '''' = ''''"
  using validUTF8_Nil by (simp add: validUTF8_def)

lemma decodeString_jstring:
  "validUTF8 s \<Longrightarrow> decodeString upd (jstring s) r = (upd s r, False)"
  by (simp add: decodeString_def jstring_def json_unquote_quote_valid)

lemma decodeBool_JBool: "decodeBool upd (JBool b) r = (upd b r, False)"
  by (simp add: decodeBool_def)

lemma wf_jstring: "wf_json d (jstring s)"
  by (simp add: jstring_def rawOk_quote)

lemmas struct_decode_simps =
  decodeStruct_def lookupField_def plainName_unquote decodeString_jstring decodeBool_JBool

lemma lookupField_mem: "lookupField fs k = Some f \<Longrightarrow> \<exists>n. (n, f) \<in> set fs"
  by (auto simp: lookupField_def find_Some_iff split: option.splits dest!: map_of_SomeD) (metis nth_mem)

definition preserves :: "('r \<Rightarrow> bool) \<Rightarrow> 'r fieldDecoder \<Rightarrow> bool" where
  "preserves P f \<longleftrightarrow> (\<forall>j r. P r \<longrightarrow> P (fst (f j r)))"

lemma decodeMembers_preserves:
  assumes dec: "\<forall>(n, f) \<in> set fs. preserves P f"
  shows "P r \<Longrightarrow> P (fst (decodeMembers fs kvs r))"
proof (induction kvs arbitrary: r)
  case (Cons kv kvs)
  obtain raw v where kv: "kv = (raw, v)" by fastforce
  obtain r1 e1 where q: "(case json_unquote raw of
           None \<Rightarrow> (r, True)
         | Some k \<Rightarrow> (case lookupField fs k of None \<Rightarrow> (r, False) | Some f \<Rightarrow> f v r)) = (r1, e1)"
    by fastforce
  have "P r1"
  proof (cases "\<exists>k f. json_unquote raw = Some k \<and> lookupField fs k = Some f")
    case True
    then obtain k f where kf: "json_unquote raw = Some k" "lookupField fs k = Some f" by blast
    then obtain n where "(n, f) \<in> set fs" using lookupField_mem by blast
    then have "P (fst (f v r))" using dec Cons.prems by (auto simp: preserves_def)
    then show ?thesis using q kf by simp
  next
    case False
    then show ?thesis using q Cons.prems by (auto split: option.splits)
  qed
  from Cons.IH[OF this] show ?case by (simp add: kv q case_prod_beta)
qed simp

lemma preserves_decodeStruct: "\<forall>(n, f) \<in> set fs. preserves P f \<Longrightarrow> preserves P (decodeStruct fs)"
  using decodeMembers_preserves[of fs P] by (simp add: preserves_def decodeStruct_def split: json.split)

lemma preserves_decodeString:
  "(\<And>s r. validUTF8 s \<Longrightarrow> P r \<Longrightarrow> P (upd s r)) \<Longrightarrow> preserves P (decodeString upd)"
  by (auto simp: preserves_def decodeString_def dest: json_unquote_valid split: json.splits option.splits)

lemma preserves_decodeBool: "(\<And>b r. P r \<Longrightarrow> P (upd b r)) \<Longrightarrow> preserves P (decodeBool upd)"
  by (auto simp: preserves_def decodeBool_def split: json.splits)

lemma json_Decode_preserves:
  "preserves P dec \<Longrightarrow> P zero \<Longrightarrow> json_Decode dec zero body = Inr r \<Longrightarrow> P r"
  by (auto simp: preserves_def json_Decode_def json_finish_def split: option.splits prod.splits if_splits)
     (metis fst_conv)

lemma keyFold_ascii:
  "plainName k \<Longrightarrow> plainName n \<Longrightarrow>
   keyFold k n \<longleftrightarrow> map (asciiFold \<circ> byte) k = map (asciiFold \<circ> byte) n"
  by (simp add: keyFold_def EqualFold_ascii runes_ascii plainName_def list_all_iff)

subsection \<open>Time stamps are plain text\<close>

lemma isDigit_plainChar: "isDigit c \<Longrightarrow> plainChar c"
  by (auto simp: isDigit_def plainChar_def byte_def)

lemma digits_plain: "list_all isDigit s \<Longrightarrow> list_all plainChar s"
  by (auto simp: list_all_iff isDigit_plainChar)

lemma fracText_plain: "list_all plainChar (fracText n)"
proof -
  let ?ds = "rev (dropWhile (\<lambda>c. c = CHR ''0'') (rev (padN 9 n)))"
  have "set ?ds \<subseteq> set (padN 9 n)" by (auto dest: set_dropWhileD)
  then have "list_all isDigit ?ds" using padN_digits[of 9 n] by (auto simp: list_all_iff)
  then have "list_all plainChar ?ds" by (rule digits_plain)
  moreover have "plainChar (CHR ''.'')" by (simp add: plainChar_def byte_def)
  ultimately show ?thesis by (simp add: fracText_def)
qed

lemma pad_digits:
  "0 \<le> n \<Longrightarrow> n \<le> 99 \<Longrightarrow> list_all plainChar (pad2 n)"
  "0 \<le> n \<Longrightarrow> n \<le> 9999 \<Longrightarrow> list_all plainChar (pad4 n)"
proof -
  have dc: "d < 10 \<Longrightarrow> plainChar (digitChar d)" for d
    by (simp add: isDigit_plainChar isDigit_digitChar)
  {
    assume n: "0 \<le> n" "n \<le> 99"
    then have "nat n div 10 < 10" by linarith
    then show "list_all plainChar (pad2 n)" by (simp add: pad2_def dc)
  next
    assume n: "0 \<le> n" "n \<le> 9999"
    then have "nat n div 1000 < 10" by linarith
    then show "list_all plainChar (pad4 n)" by (simp add: pad4_def dc)
  }
qed

lemma MarshalTime_rawOk:
  assumes "MarshalTime t = Some s"
  shows "rawOk s"
proof -
  define secs where "secs = t div Second"
  define sod where "sod = secs mod 86400"
  obtain y m d where ymd: "civil_of_days (secs div 86400) = (y, m, d)" by (metis prod_cases3)
  from assms have yr: "0 \<le> y" "y \<le> 9999"
    and s: "s = pad4 y @ ''-'' @ pad2 m @ ''-'' @ pad2 d @ ''T'' @ pad2 (sod div 3600) @ '':'' @
        pad2 (sod div 60 mod 60) @ '':'' @ pad2 (sod mod 60) @ fracText (nat (t mod Second)) @ ''Z''"
    using ymd by (auto simp: MarshalTime_def Let_def secs_def sod_def split: if_splits)
  from civil_of_days_props[OF ymd] daysIn_le[of m y]
  have md: "1 \<le> m" "m \<le> 12" "1 \<le> d" "d \<le> 31" by auto
  have sod: "0 \<le> sod" "sod < 86400" by (simp_all add: sod_def)
  have "0 \<le> x mod 60 \<and> x mod 60 \<le> 59" for x :: int
    using pos_mod_bound[of 60 x] pos_mod_sign[of 60 x] by linarith
  then have "list_all plainChar s"
    unfolding s using yr md sod_parts[OF sod]
    by (simp add: pad_digits fracText_plain) (simp add: plainChar_def byte_def)
  then show ?thesis by (rule rawOk_plain)
qed

end
