(* ===== verification/HttpAuth.thy ===== *)
theory HttpAuth
  imports AuthEntry Json
begin

text \<open>
  \<^verbatim>\<open>src/http_auth.go\<close>: the L3 lookup client. The HTTP transport and bcrypt are not part of this
  repository; they are the parameters \<open>http_env\<close> and \<open>bcrypt\<close> of the definitions below.
\<close>

section \<open>Definitions\<close>

datatype AuthResult = AuthAllow | AuthDeny | AuthError

subsection \<open>The auth projection and its decoders\<close>

record AuthProjection =
  p_AssetUUID :: string
  p_OrgId :: string
  p_Enabled :: bool
  p_Type :: string
  p_AuthType :: string
  p_PasswordHash :: string
  p_CurrentCertSerial :: string

definition zero_AuthProjection :: AuthProjection where
  "zero_AuthProjection = \<lparr>p_AssetUUID = '''', p_OrgId = '''', p_Enabled = False, p_Type = '''',
     p_AuthType = '''', p_PasswordHash = '''', p_CurrentCertSerial = ''''\<rparr>"

text \<open>The struct tags of \<open>AuthProjection\<close>.\<close>

definition projectionFields :: "(string \<times> AuthProjection fieldDecoder) list" where
  "projectionFields =
     [(''assetUUID'', decodeString (\<lambda>s r. r\<lparr>p_AssetUUID := s\<rparr>)),
      (''orgId'', decodeString (\<lambda>s r. r\<lparr>p_OrgId := s\<rparr>)),
      (''enabled'', decodeBool (\<lambda>b r. r\<lparr>p_Enabled := b\<rparr>)),
      (''type'', decodeString (\<lambda>s r. r\<lparr>p_Type := s\<rparr>)),
      (''authType'', decodeString (\<lambda>s r. r\<lparr>p_AuthType := s\<rparr>)),
      (''passwordHash'', decodeString (\<lambda>s r. r\<lparr>p_PasswordHash := s\<rparr>)),
      (''currentCertSerial'', decodeString (\<lambda>s r. r\<lparr>p_CurrentCertSerial := s\<rparr>))]"

definition decodeProjection :: "AuthProjection fieldDecoder" where
  "decodeProjection = decodeStruct projectionFields"

text \<open>\<open>authProjectionEnvelope\<close> has the one field \<open>Data\<close>; the struct is its projection.\<close>

definition decodeEnvelope :: "AuthProjection fieldDecoder" where
  "decodeEnvelope = decodeStruct [(''data'', decodeProjection)]"

definition ToAuthEntry :: "AuthProjection \<Rightarrow> AuthEntry" where
  "ToAuthEntry p = \<lparr>Enabled = p_Enabled p, AssetUUID = p_AssetUUID p, OrgId = p_OrgId p,
     AuthType = p_AuthType p, PasswordHash = p_PasswordHash p,
     CurrentCertSerial = p_CurrentCertSerial p\<rparr>"

definition DecodeReadModelEnvelopeToAuthEntry :: "bytes \<Rightarrow> AuthEntry result" where
  "DecodeReadModelEnvelopeToAuthEntry r =
     (case json_Decode decodeEnvelope zero_AuthProjection r of
        Inl err \<Rightarrow> Inl (ErrWrap ''decode auth projection envelope'' err)
      | Inr proj \<Rightarrow> Inr (ToAuthEntry proj))"

definition DecodeReadModelToAuthEntry :: "bytes \<Rightarrow> AuthEntry result" where
  "DecodeReadModelToAuthEntry r =
     (case json_Decode decodeProjection zero_AuthProjection r of
        Inl err \<Rightarrow> Inl (ErrWrap ''decode auth projection'' err)
      | Inr proj \<Rightarrow> Inr (ToAuthEntry proj))"

definition decodeReadModelToAuthEntry :: "bytes \<Rightarrow> AuthEntry result" where
  "decodeReadModelToAuthEntry r = DecodeReadModelEnvelopeToAuthEntry r"

declare decodeReadModelToAuthEntry_def [simp]

subsection \<open>The client\<close>

record AuthClientConfig =
  URL :: string
  APIKey :: string
  Timeout :: duration
  MaxIdleConns :: int
  IdleConnTimeout :: duration

record AuthClient =
  ac_cfg :: AuthClientConfig
  lookups :: counter
  lookupHits :: counter
  lookupMiss :: counter
  lookupError :: counter

definition NewAuthClient :: "AuthClientConfig \<Rightarrow> AuthClient result" where
  "NewAuthClient cfg =
     (if URL cfg = '''' then Inl (ErrText ''auth url is required'')
      else if APIKey cfg = '''' then Inl (ErrText ''auth api key is required'')
      else
        let cfg = (if Timeout cfg \<le> 0 then cfg\<lparr>Timeout := 5 * Second\<rparr> else cfg);
            cfg = (if MaxIdleConns cfg \<le> 0 then cfg\<lparr>MaxIdleConns := 32\<rparr> else cfg);
            cfg = (if IdleConnTimeout cfg \<le> 0 then cfg\<lparr>IdleConnTimeout := 90 * Second\<rparr> else cfg)
        in Inr \<lparr>ac_cfg = cfg, lookups = 0, lookupHits = 0, lookupMiss = 0, lookupError = 0\<rparr>)"

text \<open>\<open>bcrypt hash password\<close> says whether \<^verbatim>\<open>bcrypt.CompareHashAndPassword\<close> returns nil.\<close>

definition CompareLocal :: "(string \<Rightarrow> string \<Rightarrow> bool) \<Rightarrow> string \<Rightarrow> string \<Rightarrow> bool" where
  "CompareLocal bcrypt hash plaintext =
     (if hash = '''' \<or> plaintext = '''' then False
      else bcrypt hash plaintext)"

record http_request =
  rq_method :: string
  rq_url :: string
  rq_headers :: "(string \<times> string) list"

datatype http_reply = TransportError string | Response int bytes

record http_env =
  newRequestError :: "string \<Rightarrow> string option"
  http_Do :: "http_request \<Rightarrow> http_reply"

definition lookupRequest :: "AuthClient \<Rightarrow> string \<Rightarrow> http_request" where
  "lookupRequest a assetUUID =
     \<lparr>rq_method = ''GET'', rq_url = URL (ac_cfg a) @ ''/'' @ assetUUID,
      rq_headers = [(''X-API-Key'', APIKey (ac_cfg a)), (''User-Agent'', ''mapex-broker-plugin/1.0'')]\<rparr>"

definition LookupEntry ::
    "http_env \<Rightarrow> AuthClient \<Rightarrow> string \<Rightarrow> AuthClient \<times> AuthEntry option result" where
  "LookupEntry env a assetUUID =
     (if assetUUID = '''' then (a, Inl ErrAuthEntryNotFound)
      else
        let a = a\<lparr>lookups := lookups a + 1\<rparr>; req = lookupRequest a assetUUID in
        case newRequestError env (rq_url req) of
          Some e \<Rightarrow> (a\<lparr>lookupError := lookupError a + 1\<rparr>,
                     Inl (ErrWrap ''build lookup request'' (ErrText e)))
        | None \<Rightarrow>
            (case http_Do env req of
               TransportError e \<Rightarrow> (a\<lparr>lookupError := lookupError a + 1\<rparr>, Inl (ErrText e))
             | Response status body \<Rightarrow>
                 if status = 200 then
                   (a\<lparr>lookupHits := lookupHits a + 1\<rparr>,
                    map_sum id Some (decodeReadModelToAuthEntry body))
                 else if status = 404 then
                   (a\<lparr>lookupMiss := lookupMiss a + 1\<rparr>, Inl ErrAuthEntryNotFound)
                 else
                   (a\<lparr>lookupError := lookupError a + 1\<rparr>, Inl (ErrText (''lookup status '' @ Itoa status)))))"

text \<open>The counter accessors \<open>LookupCount\<close>, \<open>LookupHitCount\<close>, \<open>LookupMissCount\<close> and \<open>LookupErrorCount\<close>.\<close>

definition lookup_counts :: "AuthClient \<Rightarrow> counter \<times> counter \<times> counter \<times> counter" where
  "lookup_counts a = (lookups a, lookupHits a, lookupMiss a, lookupError a)"

section \<open>Lemmas\<close>

text \<open>The text of a projection, as the assets service writes it.\<close>

definition projection_json :: "AuthProjection \<Rightarrow> json" where
  "projection_json p = JObj
     [(''assetUUID'', jstring (p_AssetUUID p)), (''orgId'', jstring (p_OrgId p)),
      (''enabled'', JBool (p_Enabled p)), (''type'', jstring (p_Type p)),
      (''authType'', jstring (p_AuthType p)), (''passwordHash'', jstring (p_PasswordHash p)),
      (''currentCertSerial'', jstring (p_CurrentCertSerial p))]"

definition projection_valid :: "AuthProjection \<Rightarrow> bool" where
  "projection_valid p \<longleftrightarrow> list_all validUTF8
     [p_AssetUUID p, p_OrgId p, p_Type p, p_AuthType p, p_PasswordHash p, p_CurrentCertSerial p]"

lemma field_names [simp]:
  "plainName ''assetUUID''" "plainName ''orgId''" "plainName ''enabled''" "plainName ''type''"
  "plainName ''authType''" "plainName ''passwordHash''" "plainName ''currentCertSerial''"
  "plainName ''data''" "plainName ''entry''" "plainName ''cachedAt''"
  by (simp_all add: plainName_def plainChar_def byte_def)

lemma wf_projection_json: "wf_json 1 (projection_json p)"
  by (simp add: projection_json_def wf_jstring plainName_rawOk)

text \<open>What decoding makes of the strings of a projection: ill-formed UTF-8 becomes U+FFFD.\<close>

definition projection_clean :: "AuthProjection \<Rightarrow> AuthProjection" where
  "projection_clean p = \<lparr>p_AssetUUID = toValidUTF8 (p_AssetUUID p), p_OrgId = toValidUTF8 (p_OrgId p),
     p_Enabled = p_Enabled p, p_Type = toValidUTF8 (p_Type p), p_AuthType = toValidUTF8 (p_AuthType p),
     p_PasswordHash = toValidUTF8 (p_PasswordHash p), p_CurrentCertSerial = toValidUTF8 (p_CurrentCertSerial p)\<rparr>"

lemma projection_clean_valid: "projection_valid p \<Longrightarrow> projection_clean p = p"
  by (simp add: projection_clean_def projection_valid_def validUTF8_def)

lemma decodeProjection_json: "decodeProjection (projection_json p) r = (projection_clean p, False)"
  by (simp add: decodeProjection_def projection_json_def projectionFields_def decodeStruct_def lookupField_def
      plainName_unquote decodeString_clean decodeBool_JBool projection_clean_def)

text \<open>A decoded projection holds valid UTF-8 only: every string went through \<^const>\<open>json_unquote\<close>.\<close>

lemma preserves_decodeProjection: "preserves projection_valid decodeProjection"
proof -
  have "\<forall>(n, f) \<in> set projectionFields. preserves projection_valid f"
    unfolding projectionFields_def
    by (simp, intro conjI; rule preserves_decodeString preserves_decodeBool; simp add: projection_valid_def)
  then show ?thesis unfolding decodeProjection_def by (rule preserves_decodeStruct)
qed

lemma preserves_decodeEnvelope: "preserves projection_valid decodeEnvelope"
  unfolding decodeEnvelope_def
  by (rule preserves_decodeStruct) (simp add: preserves_decodeProjection)

lemma zero_projection_valid: "projection_valid zero_AuthProjection"
  by (simp add: projection_valid_def zero_AuthProjection_def)

lemmas json_Decode_projection_valid =
  json_Decode_preserves[OF preserves_decodeProjection zero_projection_valid]
  json_Decode_preserves[OF preserves_decodeEnvelope zero_projection_valid]

lemma LookupEntry_cases:
  assumes "LookupEntry env a assetUUID = (a', res)"
  obtains (empty) "assetUUID = ''''" "a' = a" "res = Inl ErrAuthEntryNotFound"
  | (bad_url) e where "assetUUID \<noteq> ''''" "newRequestError env (rq_url (lookupRequest a assetUUID)) = Some e"
      "a' = a\<lparr>lookups := lookups a + 1, lookupError := lookupError a + 1\<rparr>"
      "res = Inl (ErrWrap ''build lookup request'' (ErrText e))"
  | (transport) e where "assetUUID \<noteq> ''''" "http_Do env (lookupRequest a assetUUID) = TransportError e"
      "a' = a\<lparr>lookups := lookups a + 1, lookupError := lookupError a + 1\<rparr>" "res = Inl (ErrText e)"
  | (ok) body where "assetUUID \<noteq> ''''" "http_Do env (lookupRequest a assetUUID) = Response 200 body"
      "a' = a\<lparr>lookups := lookups a + 1, lookupHits := lookupHits a + 1\<rparr>"
      "res = map_sum id Some (DecodeReadModelEnvelopeToAuthEntry body)"
  | (not_found) body where "assetUUID \<noteq> ''''" "http_Do env (lookupRequest a assetUUID) = Response 404 body"
      "a' = a\<lparr>lookups := lookups a + 1, lookupMiss := lookupMiss a + 1\<rparr>"
      "res = Inl ErrAuthEntryNotFound"
  | (status) st body where "assetUUID \<noteq> ''''" "http_Do env (lookupRequest a assetUUID) = Response st body"
      "st \<noteq> 200" "st \<noteq> 404"
      "a' = a\<lparr>lookups := lookups a + 1, lookupError := lookupError a + 1\<rparr>"
      "res = Inl (ErrText (''lookup status '' @ Itoa st))"
proof -
  have rq: "lookupRequest (a\<lparr>lookups := n\<rparr>) assetUUID = lookupRequest a assetUUID" for n
    by (simp add: lookupRequest_def)
  show thesis
    using assms that
    by (auto simp: LookupEntry_def Let_def rq split: if_splits option.splits http_reply.splits)
qed

section \<open>Properties\<close>

text \<open>The envelope of the platform's HTTP responses around a projection.\<close>

definition envelope_json :: "int \<Rightarrow> AuthProjection \<Rightarrow> json" where
  "envelope_json st p = JObj [(''status'', JNum (Itoa st)), (''errors'', JNull), (''data'', projection_json p)]"

lemma envelope_names [simp]: "plainName ''status''" "plainName ''errors''"
  by (simp_all add: plainName_def plainChar_def byte_def)

lemma envelope_skips: "lookupField [(''data'', f)] ''status'' = None" "lookupField [(''data'', f)] ''errors'' = None"
  by (simp_all add: lookupField_def keyFold_ascii)

lemma decodeEnvelope_json:
  "decodeEnvelope (envelope_json st p) zero_AuthProjection = (projection_clean p, False)"
  by (simp add: decodeEnvelope_def envelope_json_def decodeStruct_def plainName_unquote envelope_skips
      decodeProjection_json) (simp add: lookupField_def decodeProjection_json)

lemma wf_envelope_json: "wf_json 2 (envelope_json st p)"
proof -
  have "wf_json (Suc (Suc 0)) (envelope_json st p)"
    using wf_projection_json[of p] by (auto simp: envelope_json_def plainName_rawOk)
  then show ?thesis by (simp add: numeral_2_eq_2)
qed

lemma DecodeReadModel_clean:
  "DecodeReadModelToAuthEntry (json_text (projection_json p)) = Inr (ToAuthEntry (projection_clean p))"
  "DecodeReadModelEnvelopeToAuthEntry (json_text (envelope_json st p)) = Inr (ToAuthEntry (projection_clean p))"
proof -
  have "wf_json maxNestingDepth (projection_json p)" "wf_json maxNestingDepth (envelope_json st p)"
    using wf_json_mono[OF wf_projection_json] wf_json_mono[OF wf_envelope_json]
    by (simp_all add: maxNestingDepth_def)
  note scans = this[THEN json_scan_prefix_text]
  show "DecodeReadModelToAuthEntry (json_text (projection_json p)) = Inr (ToAuthEntry (projection_clean p))"
    using decodeProjection_json scans
    by (simp add: DecodeReadModelToAuthEntry_def json_Decode_def json_finish_def)
  show "DecodeReadModelEnvelopeToAuthEntry (json_text (envelope_json st p)) = Inr (ToAuthEntry (projection_clean p))"
    using decodeEnvelope_json scans
    by (simp add: DecodeReadModelEnvelopeToAuthEntry_def json_Decode_def json_finish_def)
qed

lemma DecodeReadModel_text:
  assumes "projection_valid p"
  shows "DecodeReadModelToAuthEntry (json_text (projection_json p)) = Inr (ToAuthEntry p)"
    "DecodeReadModelEnvelopeToAuthEntry (json_text (envelope_json st p)) = Inr (ToAuthEntry p)"
  by (simp_all add: DecodeReadModel_clean projection_clean_valid[OF assms])

text \<open>C34: Both wire formats decode to the same entry, field by field. The raw projection text that L2
  holds and the response envelope that L3 returns, written for any projection, are read back to
  the entry with the projection's flag, asset, organisation, mode, password hash and certificate
  serial, each under its own name. A string comes back as it was when it is valid UTF-8; in any
  other, \<open>toValidUTF8\<close> puts U+FFFD for the ill-formed bytes, as \<^verbatim>\<open>encoding/json\<close> does.\<close>

theorem read_model_round_trip:
  "DecodeReadModelToAuthEntry (json_text (projection_json p)) =
     Inr \<lparr>Enabled = p_Enabled p, AssetUUID = toValidUTF8 (p_AssetUUID p), OrgId = toValidUTF8 (p_OrgId p),
          AuthType = toValidUTF8 (p_AuthType p), PasswordHash = toValidUTF8 (p_PasswordHash p),
          CurrentCertSerial = toValidUTF8 (p_CurrentCertSerial p)\<rparr> \<and>
   DecodeReadModelEnvelopeToAuthEntry (json_text (envelope_json st p)) =
     Inr \<lparr>Enabled = p_Enabled p, AssetUUID = toValidUTF8 (p_AssetUUID p), OrgId = toValidUTF8 (p_OrgId p),
          AuthType = toValidUTF8 (p_AuthType p), PasswordHash = toValidUTF8 (p_PasswordHash p),
          CurrentCertSerial = toValidUTF8 (p_CurrentCertSerial p)\<rparr>"
  by (simp add: DecodeReadModel_clean ToAuthEntry_def projection_clean_def)

theorem read_model_round_trip_witness:
  "DecodeReadModelEnvelopeToAuthEntry (json_text (envelope_json 200
     (zero_AuthProjection\<lparr>p_AssetUUID := ''a1'', p_Enabled := True, p_PasswordHash := ''h'', p_CurrentCertSerial := ''0A''\<rparr>)))
   = Inr (zero_AuthEntry\<lparr>AssetUUID := ''a1'', Enabled := True, PasswordHash := ''h'', CurrentCertSerial := ''0A''\<rparr>)"
proof -
  have "toValidUTF8 ''a1'' = ''a1''" "toValidUTF8 ''h'' = ''h''" "toValidUTF8 ''0A'' = ''0A''"
    by (simp_all add: validUTF8_ascii[unfolded validUTF8_def] byte_def)
  with read_model_round_trip[of "zero_AuthProjection\<lparr>p_AssetUUID := ''a1'', p_Enabled := True, p_PasswordHash := ''h'',
      p_CurrentCertSerial := ''0A''\<rparr>" 200]
  show ?thesis by (simp add: zero_AuthProjection_def zero_AuthEntry_def)
qed

text \<open>What a lookup can return: an entry only from a 200 response whose body decodes, the
  not-found sentinel exactly for an empty identifier or a 404, and no nil entry without an error.\<close>

lemma LookupEntry_outcomes:
  "(\<forall>p. snd (LookupEntry env a assetUUID) = Inr p \<longrightarrow>
      (\<exists>body e. p = Some e \<and> assetUUID \<noteq> '''' \<and>
        http_Do env (lookupRequest a assetUUID) = Response 200 body \<and>
        DecodeReadModelEnvelopeToAuthEntry body = Inr e)) \<and>
   (snd (LookupEntry env a assetUUID) = Inl ErrAuthEntryNotFound \<longleftrightarrow>
      assetUUID = '''' \<or>
      newRequestError env (rq_url (lookupRequest a assetUUID)) = None \<and>
        (\<exists>body. http_Do env (lookupRequest a assetUUID) = Response 404 body))"
proof -
  have dec: "DecodeReadModelEnvelopeToAuthEntry body \<noteq> Inl ErrAuthEntryNotFound" for body
    by (auto simp: DecodeReadModelEnvelopeToAuthEntry_def split: sum.splits)
  have rq: "lookupRequest (a\<lparr>lookups := n\<rparr>) assetUUID = lookupRequest a assetUUID" for n
    by (simp add: lookupRequest_def)
  have ms: "map_sum id Some x = Inl e \<longleftrightarrow> x = Inl e" "map_sum id Some x = Inr p \<longleftrightarrow> (\<exists>y. x = Inr y \<and> p = Some y)"
    for x :: "AuthEntry result" and e p
    by (cases x; auto)+
  show ?thesis
    by (auto simp: LookupEntry_def Let_def rq dec ms split: option.splits http_reply.splits)
qed

theorem LookupEntry_outcomes_witness:
  "snd (LookupEntry \<lparr>newRequestError = (\<lambda>_. None), http_Do = (\<lambda>_. Response 404 '''')\<rparr>
     \<lparr>ac_cfg = \<lparr>URL = ''u'', APIKey = ''k'', Timeout = 1, MaxIdleConns = 1, IdleConnTimeout = 1\<rparr>,
      lookups = 0, lookupHits = 0, lookupMiss = 0, lookupError = 0\<rparr> ''ghost'')
   = Inl ErrAuthEntryNotFound"
  using LookupEntry_outcomes[of "\<lparr>newRequestError = (\<lambda>_. None), http_Do = (\<lambda>_. Response 404 '''')\<rparr>"
     "\<lparr>ac_cfg = \<lparr>URL = ''u'', APIKey = ''k'', Timeout = 1, MaxIdleConns = 1, IdleConnTimeout = 1\<rparr>,
      lookups = 0, lookupHits = 0, lookupMiss = 0, lookupError = 0\<rparr>" "''ghost''"]
  by simp

text \<open>Lookup accounting: every lookup is counted under exactly one of hit, miss and error, so
  the total stays the sum of the three (modulo 2^64), and the configuration never changes.\<close>

lemma LookupEntry_accounting:
  assumes "lookups a = lookupHits a + lookupMiss a + lookupError a"
    and "LookupEntry env a assetUUID = (a', res)"
  shows "lookups a' = lookupHits a' + lookupMiss a' + lookupError a' \<and> ac_cfg a' = ac_cfg a"
  using assms(2) by (cases rule: LookupEntry_cases) (simp_all add: assms(1))

theorem LookupEntry_accounting_witness:
  "fst (LookupEntry \<lparr>newRequestError = (\<lambda>_. None), http_Do = (\<lambda>_. TransportError ''down'')\<rparr>
     \<lparr>ac_cfg = \<lparr>URL = ''u'', APIKey = ''k'', Timeout = 1, MaxIdleConns = 1, IdleConnTimeout = 1\<rparr>,
      lookups = 3, lookupHits = 1, lookupMiss = 1, lookupError = 1\<rparr> ''a'')
   = \<lparr>ac_cfg = \<lparr>URL = ''u'', APIKey = ''k'', Timeout = 1, MaxIdleConns = 1, IdleConnTimeout = 1\<rparr>,
      lookups = 4, lookupHits = 1, lookupMiss = 1, lookupError = 2\<rparr> \<and> (4 :: counter) = 1 + 1 + 2"
proof -
  let ?env = "\<lparr>newRequestError = (\<lambda>_. None), http_Do = (\<lambda>_. TransportError ''down'')\<rparr>"
  let ?cfg = "\<lparr>URL = ''u'', APIKey = ''k'', Timeout = 1, MaxIdleConns = 1, IdleConnTimeout = 1\<rparr>"
  let ?a = "\<lparr>ac_cfg = ?cfg, lookups = 3, lookupHits = 1, lookupMiss = 1, lookupError = 1\<rparr>"
  have call: "LookupEntry ?env ?a ''a'' =
      (\<lparr>ac_cfg = ?cfg, lookups = 4, lookupHits = 1, lookupMiss = 1, lookupError = 2\<rparr>, Inl (ErrText ''down''))"
    by (simp add: LookupEntry_def Let_def)
  have inv: "lookups ?a = lookupHits ?a + lookupMiss ?a + lookupError ?a" by simp
  from LookupEntry_accounting[OF inv call] call show ?thesis by simp
qed

end
