(* ===== verification/Logging.thy ===== *)
theory Logging
  imports GoTime
begin

text \<open>
  \<^verbatim>\<open>src/log.go\<close>: log levels, the level filter and line format of \<open>stderrLogger\<close>, and \<open>truncate\<close>.
  The writer is modelled by the list of lines written to it; the formatted message and the instant
  that the clock gives are arguments.
\<close>

section \<open>Definitions\<close>

datatype LogLevel = LogDebug | LogInfo | LogWarn | LogError

fun level_int :: "LogLevel \<Rightarrow> int" where
  "level_int LogDebug = 0"
| "level_int LogInfo = 1"
| "level_int LogWarn = 2"
| "level_int LogError = 3"

instantiation LogLevel :: linorder
begin

definition less_eq_LogLevel :: "LogLevel \<Rightarrow> LogLevel \<Rightarrow> bool" where
  "less_eq_LogLevel a b \<longleftrightarrow> level_int a \<le> level_int b"

definition less_LogLevel :: "LogLevel \<Rightarrow> LogLevel \<Rightarrow> bool" where
  "less_LogLevel a b \<longleftrightarrow> level_int a < level_int b"

instance
proof
  fix a b :: LogLevel
  show "a \<le> b \<Longrightarrow> b \<le> a \<Longrightarrow> a = b"
    by (cases a; cases b) (simp_all add: less_eq_LogLevel_def)
qed (auto simp: less_eq_LogLevel_def less_LogLevel_def)

end

record stderrLogger =
  lg_lines :: "string list"
  minLevel :: LogLevel

definition NewLogger :: "LogLevel \<Rightarrow> stderrLogger" where
  "NewLogger lvl = \<lparr>lg_lines = [], minLevel = lvl\<rparr>"

text \<open>The layout \<^verbatim>\<open>2006-01-02T15:04:05.000Z\<close> of \<^verbatim>\<open>time.Format\<close>: four digits of the year at least, and
  three of the second, cut off and not rounded.\<close>

definition yearText :: "int \<Rightarrow> string" where
  "yearText y = (if y < 0 then ''-'' else []) @
     (if nat \<bar>y\<bar> < 10000 then padN 4 (nat \<bar>y\<bar>) else natDigits (nat \<bar>y\<bar>))"

definition timestamp :: "time \<Rightarrow> string" where
  "timestamp t =
     (let secs = t div Second; ns = t mod Second;
          (y, m, d) = civil_of_days (secs div 86400); sod = secs mod 86400
      in yearText y @ ''-'' @ pad2 m @ ''-'' @ pad2 d @ ''T'' @
         pad2 (sod div 3600) @ '':'' @ pad2 (sod div 60 mod 60) @ '':'' @ pad2 (sod mod 60) @
         ''.'' @ padN 3 (nat ns div 1000000) @ ''Z'')"

text \<open>\<open>now\<close> is the instant, \<open>msg\<close> the formatted message.\<close>

definition log_write :: "time \<Rightarrow> LogLevel \<Rightarrow> string \<Rightarrow> string \<Rightarrow> stderrLogger \<Rightarrow> stderrLogger" where
  "log_write now level label msg l =
     (if level < minLevel l then l
      else l\<lparr>lg_lines := lg_lines l @
             [timestamp now @ '' '' @ label @ '' [PLUGIN:Mosquitto] '' @ msg @ [CHR 0x0A]]\<rparr>)"

fun level_label :: "LogLevel \<Rightarrow> string" where
  "level_label LogDebug = ''DEBUG''"
| "level_label LogInfo = ''INFO ''"
| "level_label LogWarn = ''WARN ''"
| "level_label LogError = ''ERROR''"

text \<open>The four methods \<open>Debug\<close>, \<open>Info\<close>, \<open>Warn\<close> and \<open>Error\<close>, indexed by their level.\<close>

definition log_at :: "LogLevel \<Rightarrow> time \<Rightarrow> string \<Rightarrow> stderrLogger \<Rightarrow> stderrLogger" where
  "log_at level now msg l = log_write now level (level_label level) msg l"

text \<open>The ellipsis U+2026 is three bytes.\<close>

definition ellipsis :: string where
  "ellipsis = [CHR 0xE2, CHR 0x80, CHR 0xA6]"

definition truncate :: "string \<Rightarrow> int \<Rightarrow> string" where
  "truncate s maxLen =
     (if maxLen \<le> 0 \<or> int (length s) \<le> maxLen then s
      else take (nat maxLen) s @ ellipsis)"

section \<open>Properties\<close>

lemma log_at_line:
  "log_at level now msg l =
     (if level < minLevel l then l
      else l\<lparr>lg_lines := lg_lines l @ [timestamp now @ '' '' @ level_label level @ '' [PLUGIN:Mosquitto] '' @ msg @ [CHR 0x0A]]\<rparr>)"
  by (simp add: log_at_def log_write_def)

text \<open>The time of a line can be read back, to the millisecond.\<close>

lemma padN_digits34:
  "padN 3 n = [digitChar (n div 100 mod 10), digitChar (n div 10 mod 10), digitChar (n mod 10)]"
  "padN 4 n = digitChar (n div 1000 mod 10) # padN 3 n"
proof -
  have three: "(3 :: nat) = Suc (Suc (Suc 0))" and four: "(4 :: nat) = Suc (Suc (Suc (Suc 0)))" by simp_all
  show "padN 3 n = [digitChar (n div 100 mod 10), digitChar (n div 10 mod 10), digitChar (n mod 10)]"
    unfolding three by (simp add: div_mult2_eq[symmetric])
  then show "padN 4 n = digitChar (n div 1000 mod 10) # padN 3 n"
    unfolding four by (simp add: div_mult2_eq[symmetric])
qed

lemma yearText_pad4:
  assumes "0 \<le> y" "y \<le> 9999"
  shows "yearText y = pad4 y"
proof -
  define n where "n = nat y"
  have y: "y = int n" "n < 10000" using assms by (simp_all add: n_def nat_less_iff)
  then have "n div 1000 mod 10 = n div 1000" by (simp add: div_less_iff_less_mult)
  with y(2) show ?thesis by (simp add: y(1) yearText_def pad4_def padN_digits34)
qed

lemma parseFrac_millis:
  assumes "n < 1000"
  shows "parseFrac (CHR ''.'' # padN 3 n @ ''Z'') = (n * 1000000, ''Z'')"
proof -
  have z: "\<not> isDigit (CHR ''Z'')" by (simp add: isDigit_def byte_def)
  then have tw: "takeWhile isDigit (padN 3 n @ ''Z'') = padN 3 n" "dropWhile isDigit (padN 3 n @ ''Z'') = ''Z''"
    using padN_digits[of 3 n] by (simp_all add: takeWhile_append dropWhile_append list_all_iff)
  have "isDigit ((padN 3 n @ ''Z'') ! 0)" by (simp add: padN_digits34(1) isDigit_digitChar)
  moreover have "parseNanoseconds (padN 3 n) = n * 1000000"
    using digitsVal_padN[of n 3] assms by (simp add: parseNanoseconds_def)
  ultimately show ?thesis using tw by (simp add: parseFrac_def)
qed

lemma timestamp_reads_back:
  assumes "MarshalTime t \<noteq> None"
  shows "parseRFC3339 (timestamp t) = Some (t - t mod 1000000)"
proof -
  obtain y m d where ymd: "civil_of_days (t div Second div 86400) = (y, m, d)" by (metis prod_cases3)
  with assms have yr: "0 \<le> y" "y \<le> 9999" by (auto simp: MarshalTime_def Let_def split: if_splits)
  let ?k = "nat (t mod Second) div 1000000"
  have "?k < 1000" by (simp add: Second_def nat_less_iff div_less_iff_less_mult)
  from parse_civil_text[OF ymd yr refl parseFrac_millis[OF this]]
  have "parseRFC3339 (timestamp t) = Some (t div Second * Second + int (?k * 1000000))"
    using ymd yr by (simp add: timestamp_def Let_def yearText_pad4)
  moreover have "t div Second * Second + int (?k * 1000000) = t - t mod 1000000"
  proof -
    have "int (?k * 1000000) = t mod Second div 1000000 * 1000000" by (simp add: Second_def zdiv_int)
    also have "\<dots> = t mod Second - t mod Second mod 1000000" by (rule minus_mod_eq_div_mult[symmetric])
    also have "t mod Second mod 1000000 = t mod 1000000" by (simp add: Second_def mod_mod_cancel)
    finally show ?thesis using div_mult_mod_eq[of t Second] by linarith
  qed
  ultimately show ?thesis by simp
qed

text \<open>The level filter over a sequence of calls: the writer receives exactly one line for each
  call at or above the logger's minimum level, in call order, and nothing for the others; the
  minimum never changes.\<close>

lemma log_calls_filtered:
  "fold (\<lambda>(level, now, msg). log_at level now msg) calls l =
     l\<lparr>lg_lines := lg_lines l @
        map (\<lambda>(level, now, msg). timestamp now @ '' '' @ level_label level @ '' [PLUGIN:Mosquitto] '' @ msg @ [CHR 0x0A])
          (filter (\<lambda>(level, _). minLevel l \<le> level) calls)\<rparr>"
  by (induction calls arbitrary: l) (auto simp: log_at_line not_less)

text \<open>A log field clipped to a positive limit never exceeds the limit by more than the three
  bytes of the ellipsis, and a string within the limit is unchanged.\<close>

lemma truncate_bound:
  assumes "0 < maxLen"
  shows "length (truncate s maxLen) \<le> nat maxLen + 3 \<and>
    (int (length s) \<le> maxLen \<longrightarrow> truncate s maxLen = s)"
  using assms by (auto simp: truncate_def ellipsis_def)

theorem truncate_bound_witness: "length (truncate ''abcdef'' 4) \<le> nat 4 + 3 \<and> truncate ''abc'' 4 = ''abc''"
  using truncate_bound[of 4 "''abcdef''"] truncate_bound[of 4 "''abc''"] by simp

text \<open>The limit of \<open>truncate\<close> counts bytes and not code points: clipping the two-byte encoding of
  U+00E9 to one leaves a lone lead byte, which decodes to U+FFFD.\<close>

lemma truncate_cuts_runes:
  "runes (truncate [CHR 0xC3, CHR 0xA9] 1) = [runeError, 0x2026] \<and> runes [CHR 0xC3, CHR 0xA9] = [0xE9]"
  by (simp add: truncate_def ellipsis_def runes.simps DecodeRune.simps byte_def cont_def second_ok_def runeError_def)

end
