(* ===== verification/AuthStore.thy ===== *)
theory AuthStore
  imports HttpAuth Logging
begin

text \<open>
  \<^verbatim>\<open>src/auth_store.go\<close>: the tiered auth store, L1 (Pebble), L2 (MinIO), L3 (HTTP).

  Pebble, MinIO and the HTTP service are outside this repository. A Pebble database is a state of
  type \<open>'db\<close> with the operations of \<open>pebble_api\<close>; the predicate \<open>pebble_spec\<close> states what the store
  relies on. A MinIO read is a function from bucket and key to a reply; a reply carries the bytes
  that the object's reader delivers. The two clock readings of one call are arguments.
\<close>

section \<open>Definitions\<close>

subsection \<open>External interfaces\<close>

datatype pebble_error = PebbleNotFound | PebbleFailure string

record 'db pebble_api =
  pb_Open :: "string \<Rightarrow> string + 'db"
  pb_Get :: "'db \<Rightarrow> string \<Rightarrow> pebble_error + bytes"
  pb_Set :: "'db \<Rightarrow> string \<Rightarrow> bytes \<Rightarrow> 'db \<times> string option"
  pb_Delete :: "'db \<Rightarrow> string \<Rightarrow> 'db \<times> string option"
  pb_Close :: "'db \<Rightarrow> 'db \<times> string option"

text \<open>A failed \<^verbatim>\<open>Stat\<close> has the code of its error response and the text of the error.\<close>

datatype minio_reply =
    GetObjectError string
  | StatError string string
  | Object int bytes

record minio_options =
  mo_accessKey :: string
  mo_secretKey :: string
  mo_secure :: bool

record 'db store_env =
  se_pebble :: "'db pebble_api"
  se_minioNew :: "string \<Rightarrow> minio_options \<Rightarrow> string option"
  se_minio :: "string \<Rightarrow> string \<Rightarrow> minio_reply"
  se_http :: http_env
  se_timeParse :: "string \<Rightarrow> time option"
  se_readNow :: time
  se_writeNow :: time

subsection \<open>Store state\<close>

record TieredAuthStoreConfig =
  L1Path :: string
  L2Endpoint :: string
  L2AccessKey :: string
  L2SecretKey :: string
  L2Bucket :: string
  L2UseSSL :: bool
  L3Client :: "AuthClient option"
  L1TTL :: duration

record 'db TieredAuthStore =
  ts_cfg :: TieredAuthStoreConfig
  pebbleDB :: "'db option"
  minioClient :: bool
  l1Hits :: counter
  l1Misses :: counter
  l2Hits :: counter
  l2Misses :: counter
  l3Hits :: counter
  l3Misses :: counter
  storeErrors :: counter
  invalidations :: counter

text \<open>A fresh store around a configuration: \<^verbatim>\<open>&TieredAuthStore{cfg: cfg, log: cfg.Log}\<close>.\<close>

definition fresh_store :: "TieredAuthStoreConfig \<Rightarrow> 'db TieredAuthStore" where
  "fresh_store cfg = \<lparr>ts_cfg = cfg, pebbleDB = None, minioClient = False, l1Hits = 0, l1Misses = 0,
     l2Hits = 0, l2Misses = 0, l3Hits = 0, l3Misses = 0, storeErrors = 0, invalidations = 0\<rparr>"

definition NewTieredAuthStore ::
    "'db store_env \<Rightarrow> TieredAuthStoreConfig \<Rightarrow> 'db TieredAuthStore result" where
  "NewTieredAuthStore env cfg =
     (if L3Client cfg = None then Inl (ErrText ''L3 HTTP client is required'')
      else
        let cfg = (if L1TTL cfg \<le> 0 then cfg\<lparr>L1TTL := 30 * Minute\<rparr> else cfg);
            store = fresh_store cfg
        in case (if L1Path cfg \<noteq> ''''
                 then (case pb_Open (se_pebble env) (L1Path cfg) of
                         Inl e \<Rightarrow> Inl (ErrWrap (''open pebble L1 at '' @ L1Path cfg) (ErrText e))
                       | Inr db \<Rightarrow> Inr (store\<lparr>pebbleDB := Some db\<rparr>))
                 else Inr store) of
             Inl err \<Rightarrow> Inl err
           | Inr store \<Rightarrow>
               if L2Endpoint cfg \<noteq> ''''
               then (case se_minioNew env (L2Endpoint cfg)
                            \<lparr>mo_accessKey = L2AccessKey cfg, mo_secretKey = L2SecretKey cfg, mo_secure = L2UseSSL cfg\<rparr> of
                       Some e \<Rightarrow> Inl (ErrWrap ''init minio L2'' (ErrText e))
                     | None \<Rightarrow> Inr (store\<lparr>minioClient := True\<rparr>))
               else Inr store)"

subsection \<open>The L1 record\<close>

record pebbleEntry =
  pe_Entry :: AuthEntry
  pe_CachedAt :: time

definition zero_pebbleEntry :: pebbleEntry where
  "zero_pebbleEntry = \<lparr>pe_Entry = zero_AuthEntry, pe_CachedAt = zero_time\<rparr>"

text \<open>The struct tags of \<open>AuthEntry\<close> and \<open>pebbleEntry\<close>, for both directions.\<close>

definition entry_json :: "AuthEntry \<Rightarrow> json" where
  "entry_json e = JObj
     ([(''enabled'', JBool (Enabled e)), (''assetUUID'', jstring (AssetUUID e)),
       (''orgId'', jstring (OrgId e)), (''authType'', jstring (AuthType e)),
       (''passwordHash'', jstring (PasswordHash e))]
      @ omitempty (CurrentCertSerial e = '''') ''currentCertSerial'' (jstring (CurrentCertSerial e)))"

definition entryFields :: "(string \<times> AuthEntry fieldDecoder) list" where
  "entryFields =
     [(''enabled'', decodeBool (\<lambda>b r. r\<lparr>Enabled := b\<rparr>)),
      (''assetUUID'', decodeString (\<lambda>s r. r\<lparr>AssetUUID := s\<rparr>)),
      (''orgId'', decodeString (\<lambda>s r. r\<lparr>OrgId := s\<rparr>)),
      (''authType'', decodeString (\<lambda>s r. r\<lparr>AuthType := s\<rparr>)),
      (''passwordHash'', decodeString (\<lambda>s r. r\<lparr>PasswordHash := s\<rparr>)),
      (''currentCertSerial'', decodeString (\<lambda>s r. r\<lparr>CurrentCertSerial := s\<rparr>))]"

definition decodeEntry :: "AuthEntry fieldDecoder" where
  "decodeEntry = decodeStruct entryFields"

definition marshalPebbleEntry :: "pebbleEntry \<Rightarrow> bytes result" where
  "marshalPebbleEntry pe =
     (case MarshalTime (pe_CachedAt pe) of
        None \<Rightarrow> Inl (ErrText ''json: error calling MarshalJSON for type time.Time'')
      | Some t \<Rightarrow> Inr (json_text (JObj [(''entry'', entry_json (pe_Entry pe)), (''cachedAt'', JStr t)])))"

definition decodePebbleEntry :: "(string \<Rightarrow> time option) \<Rightarrow> pebbleEntry fieldDecoder" where
  "decodePebbleEntry slowParse = decodeStruct
     [(''entry'', \<lambda>j r. case decodeEntry j (pe_Entry r) of (e, err) \<Rightarrow> (r\<lparr>pe_Entry := e\<rparr>, err)),
      (''cachedAt'', decodeTime slowParse (\<lambda>t r. r\<lparr>pe_CachedAt := t\<rparr>))]"

subsection \<open>The layers\<close>

definition readL1 :: "'db store_env \<Rightarrow> 'db TieredAuthStore \<Rightarrow> string \<Rightarrow> AuthEntry option" where
  "readL1 env s assetUUID =
     (case pebbleDB s of
        None \<Rightarrow> None
      | Some db \<Rightarrow>
          (case pb_Get (se_pebble env) db assetUUID of
             Inl _ \<Rightarrow> None
           | Inr value \<Rightarrow>
               (case json_Unmarshal (decodePebbleEntry (se_timeParse env)) zero_pebbleEntry value of
                  Inl _ \<Rightarrow> None
                | Inr pe \<Rightarrow>
                    if L1TTL (ts_cfg s) < time_Sub (se_readNow env) (pe_CachedAt pe) then None
                    else Some (pe_Entry pe))))"

definition writeL1 ::
    "'db store_env \<Rightarrow> 'db TieredAuthStore \<Rightarrow> string \<Rightarrow> AuthEntry option \<Rightarrow> 'db TieredAuthStore" where
  "writeL1 env s assetUUID entry =
     (case (pebbleDB s, entry) of
        (Some db, Some e) \<Rightarrow>
          (case marshalPebbleEntry \<lparr>pe_Entry = e, pe_CachedAt = se_writeNow env\<rparr> of
             Inl _ \<Rightarrow> s
           | Inr data \<Rightarrow> s\<lparr>pebbleDB := Some (fst (pb_Set (se_pebble env) db assetUUID data))\<rparr>)
      | _ \<Rightarrow> s)"

text \<open>\<open>readL2\<close> returns an entry for a hit and \<^const>\<open>None\<close> for a miss; an infrastructure failure is an error.\<close>

definition readL2 :: "'db store_env \<Rightarrow> 'db TieredAuthStore \<Rightarrow> string \<Rightarrow> AuthEntry option result" where
  "readL2 env s assetUUID =
     (if \<not> minioClient s then Inr None
      else let objKey = assetUUID @ ''.json'' in
        case se_minio env (L2Bucket (ts_cfg s)) objKey of
          GetObjectError e \<Rightarrow> Inl (ErrWrap ''minio get'' (ErrText e))
        | StatError code e \<Rightarrow>
            if code = ''NoSuchKey'' then Inr None else Inl (ErrWrap ''minio stat'' (ErrText e))
        | Object sz body \<Rightarrow>
            if 1024 * 1024 < sz
            then Inl (ErrText (''L2 object suspicious size='' @ Itoa sz))
            else (case DecodeReadModelToAuthEntry body of
                    Inl err \<Rightarrow> Inl (ErrWrap ''decode L2 entry'' err)
                  | Inr entry \<Rightarrow> Inr (Some entry)))"

definition readL3 ::
    "'db store_env \<Rightarrow> 'db TieredAuthStore \<Rightarrow> string \<Rightarrow> 'db TieredAuthStore \<times> AuthEntry option result" where
  "readL3 env s assetUUID =
     (case L3Client (ts_cfg s) of
        None \<Rightarrow> (s, Inl ErrAuthStoreUnavailable)
      | Some client \<Rightarrow>
          (case LookupEntry (se_http env) client assetUUID of
             (client', res) \<Rightarrow>
               (s\<lparr>ts_cfg := (ts_cfg s)\<lparr>L3Client := Some client'\<rparr>\<rparr>,
                case res of
                  Inl err \<Rightarrow> Inl err
                | Inr None \<Rightarrow> Inl ErrAuthEntryNotFound
                | Inr (Some entry) \<Rightarrow> Inr (Some entry))))"

subsection \<open>The AuthStore operations\<close>

text \<open>The part of \<open>Get\<close> below L2.\<close>

definition getFromL3 ::
    "'db store_env \<Rightarrow> 'db TieredAuthStore \<Rightarrow> string \<Rightarrow> 'db TieredAuthStore \<times> AuthEntry option result" where
  "getFromL3 env s assetUUID =
     (case readL3 env s assetUUID of
        (s, Inl err) \<Rightarrow>
          if errors_Is err ErrAuthEntryNotFound
          then (s\<lparr>l3Misses := l3Misses s + 1\<rparr>, Inl ErrAuthEntryNotFound)
          else (s\<lparr>l3Misses := l3Misses s + 1, storeErrors := storeErrors s + 1\<rparr>,
                Inl ErrAuthStoreUnavailable)
      | (s, Inr entry) \<Rightarrow>
          (writeL1 env (s\<lparr>l3Hits := l3Hits s + 1\<rparr>) assetUUID entry, Inr entry))"

definition store_Get ::
    "'db store_env \<Rightarrow> 'db TieredAuthStore \<Rightarrow> string \<Rightarrow> 'db TieredAuthStore \<times> AuthEntry option result" where
  "store_Get env s assetUUID =
     (if assetUUID = '''' then (s, Inl ErrAuthEntryNotFound)
      else
        case readL1 env s assetUUID of
          Some entry \<Rightarrow> (s\<lparr>l1Hits := l1Hits s + 1\<rparr>, Inr (Some entry))
        | None \<Rightarrow>
            let s = s\<lparr>l1Misses := l1Misses s + 1\<rparr> in
            (case readL2 env s assetUUID of
               Inr (Some entry) \<Rightarrow>
                 (writeL1 env (s\<lparr>l2Hits := l2Hits s + 1\<rparr>) assetUUID (Some entry), Inr (Some entry))
             | Inr None \<Rightarrow> getFromL3 env (s\<lparr>l2Misses := l2Misses s + 1\<rparr>) assetUUID
             | Inl err \<Rightarrow> getFromL3 env (s\<lparr>storeErrors := storeErrors s + 1\<rparr>) assetUUID))"

definition store_Invalidate ::
    "'db store_env \<Rightarrow> 'db TieredAuthStore \<Rightarrow> string \<Rightarrow> 'db TieredAuthStore \<times> go_error option" where
  "store_Invalidate env s assetUUID =
     (let s = s\<lparr>invalidations := invalidations s + 1\<rparr> in
      case pebbleDB s of
        None \<Rightarrow> (s, None)
      | Some db \<Rightarrow>
          if assetUUID = '''' then (s, None)
          else (case pb_Delete (se_pebble env) db assetUUID of
                  (db', err) \<Rightarrow> (s\<lparr>pebbleDB := Some db'\<rparr>, map_option ErrText err)))"

text \<open>\<open>Close\<close> gives back the closed database too: the pointer is dropped, the database stays.\<close>

definition store_Close ::
    "'db store_env \<Rightarrow> 'db TieredAuthStore \<Rightarrow> 'db TieredAuthStore \<times> go_error option" where
  "store_Close env s =
     (case pebbleDB s of
        Some db \<Rightarrow> (s\<lparr>pebbleDB := None\<rparr>, map_option ErrText (snd (pb_Close (se_pebble env) db)))
      | None \<Rightarrow> (s, None))"

text \<open>The counter accessors \<open>L1HitCount\<close> to \<open>InvalidationCount\<close>.\<close>

definition store_counts :: "'db TieredAuthStore \<Rightarrow> counter list" where
  "store_counts s = [l1Hits s, l1Misses s, l2Hits s, l2Misses s, l3Hits s, l3Misses s,
     storeErrors s, invalidations s]"

subsection \<open>Specification side\<close>

text \<open>
  What the store relies on in Pebble: \<open>contents\<close> is the key-value map a database holds; a read
  that succeeds or reports a missing key tells the truth about it, a write or delete that
  reports success has happened, one that reports an error has happened or not, and neither
  touches another key.
\<close>

definition pebble_spec :: "'db pebble_api \<Rightarrow> ('db \<Rightarrow> string \<rightharpoonup> bytes) \<Rightarrow> bool" where
  "pebble_spec api contents \<longleftrightarrow>
     (\<forall>db k v. pb_Get api db k = Inr v \<longrightarrow> contents db k = Some v) \<and>
     (\<forall>db k. pb_Get api db k = Inl PebbleNotFound \<longrightarrow> contents db k = None) \<and>
     (\<forall>db k v db' err. pb_Set api db k v = (db', err) \<longrightarrow>
        contents db' = (contents db)(k \<mapsto> v) \<or> (err \<noteq> None \<and> contents db' = contents db)) \<and>
     (\<forall>db k db' err. pb_Delete api db k = (db', err) \<longrightarrow>
        contents db' = (contents db)(k := None) \<or> (err \<noteq> None \<and> contents db' = contents db))"

text \<open>The same without I/O failures: in a database that is \<open>ok\<close> every operation succeeds and leaves
  it so.\<close>

definition pebble_reliable ::
    "'db pebble_api \<Rightarrow> ('db \<Rightarrow> string \<rightharpoonup> bytes) \<Rightarrow> ('db \<Rightarrow> bool) \<Rightarrow> bool" where
  "pebble_reliable api contents ok \<longleftrightarrow>
     (\<forall>db. ok db \<longrightarrow>
        (\<forall>k. pb_Get api db k = (case contents db k of None \<Rightarrow> Inl PebbleNotFound | Some v \<Rightarrow> Inr v)) \<and>
        (\<forall>k v. \<exists>db'. pb_Set api db k v = (db', None) \<and> ok db' \<and> contents db' = (contents db)(k \<mapsto> v)) \<and>
        (\<forall>k. \<exists>db'. pb_Delete api db k = (db', None) \<and> ok db' \<and> contents db' = (contents db)(k := None)))"

text \<open>An in-memory database with a switch that makes every operation fail: an instance of the
  hypotheses, for concrete runs of the store.\<close>

record mem_db =
  mem_map :: "string \<rightharpoonup> bytes"
  mem_fails :: bool

definition mem_api :: "mem_db pebble_api" where
  "mem_api =
     \<lparr>pb_Open = (\<lambda>path. Inr \<lparr>mem_map = Map.empty, mem_fails = False\<rparr>),
      pb_Get = (\<lambda>db k. if mem_fails db then Inl (PebbleFailure ''io'')
                       else case mem_map db k of None \<Rightarrow> Inl PebbleNotFound | Some v \<Rightarrow> Inr v),
      pb_Set = (\<lambda>db k v. if mem_fails db then (db, Some ''io'')
                         else (db\<lparr>mem_map := (mem_map db)(k \<mapsto> v)\<rparr>, None)),
      pb_Delete = (\<lambda>db k. if mem_fails db then (db, Some ''io'')
                          else (db\<lparr>mem_map := (mem_map db)(k := None)\<rparr>, None)),
      pb_Close = (\<lambda>db. (db, None))\<rparr>"

definition entry_valid :: "AuthEntry \<Rightarrow> bool" where
  "entry_valid e \<longleftrightarrow> list_all validUTF8
     [AssetUUID e, OrgId e, AuthType e, PasswordHash e, CurrentCertSerial e]"

section \<open>The AuthStore interface\<close>

text \<open>
  What the plugin relies on when it holds an \<^verbatim>\<open>AuthStore\<close>: an empty identifier is not found, a
  lookup without an error has an entry, and its errors are the two sentinels; \<open>env\<close> is the
  state of the outside world during one call.
\<close>

locale auth_store =
  fixes get :: "'e \<Rightarrow> 's \<Rightarrow> string \<Rightarrow> 's \<times> AuthEntry option result"
    and invalidate :: "'e \<Rightarrow> 's \<Rightarrow> string \<Rightarrow> 's \<times> go_error option"
  assumes get_empty: "get env s '''' = (s, Inl ErrAuthEntryNotFound)"
    and get_entry: "snd (get env s k) \<noteq> Inr None"
    and get_error: "snd (get env s k) = Inl err \<Longrightarrow>
          err = ErrAuthEntryNotFound \<or> err = ErrAuthStoreUnavailable"
begin

lemma get_cases:
  obtains (found) s' e where "get env s k = (s', Inr (Some e))" "k \<noteq> ''''"
  | (not_found) s' where "get env s k = (s', Inl ErrAuthEntryNotFound)"
  | (unavailable) s' where "get env s k = (s', Inl ErrAuthStoreUnavailable)"
proof -
  obtain s' r where gr: "get env s k = (s', r)" by fastforce
  show thesis
  proof (cases r)
    case (Inl err)
    then show thesis using gr get_error[of env s k err] not_found unavailable by auto
  next
    case (Inr p)
    then obtain e where "p = Some e" using gr get_entry[of env s k] by (cases p) auto
    moreover have "k \<noteq> ''''" using gr Inr get_empty[of env s] by auto
    ultimately show thesis using gr Inr found by simp
  qed
qed

end

section \<open>Lemmas\<close>

subsection \<open>The L1 record round trip\<close>

lemma wf_entry_json: "wf_json 1 (entry_json e)"
  by (simp add: entry_json_def omitempty_def wf_jstring plainName_rawOk)

lemma decodeEntry_json: "entry_valid e \<Longrightarrow> decodeEntry (entry_json e) zero_AuthEntry = (e, False)"
  by (cases "CurrentCertSerial e = ''''")
     (simp_all add: entry_valid_def decodeEntry_def entry_json_def entryFields_def omitempty_def
      struct_decode_simps zero_AuthEntry_def)

lemma pebbleEntry_round_trip:
  assumes "marshalPebbleEntry pe = Inr data" "entry_valid (pe_Entry pe)"
  shows "json_Unmarshal (decodePebbleEntry p) zero_pebbleEntry data = Inr pe"
proof -
  from assms(1) obtain t where t: "MarshalTime (pe_CachedAt pe) = Some t"
    and data: "data = json_text (JObj [(''entry'', entry_json (pe_Entry pe)), (''cachedAt'', JStr t)])"
    by (auto simp: marshalPebbleEntry_def split: option.splits)
  have wf: "wf_json (Suc 1) (JObj [(''entry'', entry_json (pe_Entry pe)), (''cachedAt'', JStr t)])"
    using wf_entry_json MarshalTime_rawOk[OF t] by (simp add: plainName_rawOk)
  have "json_scan data = Some (JObj [(''entry'', entry_json (pe_Entry pe)), (''cachedAt'', JStr t)])"
    unfolding data by (rule json_scan_text, rule wf_json_mono[OF wf]) (simp add: maxNestingDepth_def)
  then show ?thesis
    using decodeEntry_json[OF assms(2)] UnmarshalTime_MarshalTime[OF t]
    by (simp add: json_Unmarshal_def json_finish_def decodePebbleEntry_def struct_decode_simps
        decodeTime_def zero_pebbleEntry_def)
qed

subsection \<open>Frames and case analysis\<close>

lemma writeL1_frame [simp]:
  "ts_cfg (writeL1 env s k e) = ts_cfg s" "minioClient (writeL1 env s k e) = minioClient s"
  "l1Hits (writeL1 env s k e) = l1Hits s" "l1Misses (writeL1 env s k e) = l1Misses s"
  "l2Hits (writeL1 env s k e) = l2Hits s" "l2Misses (writeL1 env s k e) = l2Misses s"
  "l3Hits (writeL1 env s k e) = l3Hits s" "l3Misses (writeL1 env s k e) = l3Misses s"
  "storeErrors (writeL1 env s k e) = storeErrors s" "invalidations (writeL1 env s k e) = invalidations s"
  by (auto simp: writeL1_def split: option.splits sum.splits)

lemma readL3_frame:
  "readL3 env s k = (s', r) \<Longrightarrow> \<exists>c. s' = s\<lparr>ts_cfg := (ts_cfg s)\<lparr>L3Client := c\<rparr>\<rparr>"
  by (auto simp: readL3_def split: option.splits prod.splits)
     (metis (mono_tags) TieredAuthStore.surjective TieredAuthStore.update_convs(1)
       TieredAuthStoreConfig.surjective TieredAuthStoreConfig.update_convs(7))

lemma readL3_not_nil: "readL3 env s k \<noteq> (s', Inr None)"
  by (auto simp: readL3_def split: option.splits prod.splits sum.splits)

lemma readL1_cfg:
  "pebbleDB s' = pebbleDB s \<Longrightarrow> L1TTL (ts_cfg s') = L1TTL (ts_cfg s) \<Longrightarrow> readL1 env s' k = readL1 env s k"
  unfolding readL1_def by presburger

text \<open>The store after an L1 miss, with L2's outcome counted: the state L3 starts from.\<close>

definition missed :: "'db store_env \<Rightarrow> 'db TieredAuthStore \<Rightarrow> string \<Rightarrow> 'db TieredAuthStore" where
  "missed env s k =
     (let s = s\<lparr>l1Misses := l1Misses s + 1\<rparr> in
      case readL2 env s k of
        Inl _ \<Rightarrow> s\<lparr>storeErrors := storeErrors s + 1\<rparr>
      | Inr _ \<Rightarrow> s\<lparr>l2Misses := l2Misses s + 1\<rparr>)"

lemma readL2_counter [simp]: "readL2 env (s\<lparr>l1Misses := n\<rparr>) k = readL2 env s k"
  by (simp add: readL2_def)

lemma missed_frame [simp]:
  "pebbleDB (missed env s k) = pebbleDB s" "ts_cfg (missed env s k) = ts_cfg s"
  "l1Hits (missed env s k) = l1Hits s" "l1Misses (missed env s k) = l1Misses s + 1"
  "l2Hits (missed env s k) = l2Hits s" "l3Hits (missed env s k) = l3Hits s"
  "l3Misses (missed env s k) = l3Misses s"
  by (auto simp: missed_def Let_def split: sum.splits)

lemma store_Get_cases:
  assumes "store_Get env s k = (s', r)"
  obtains (empty) "k = ''''" "s' = s" "r = Inl ErrAuthEntryNotFound"
  | (l1) e where "k \<noteq> ''''" "readL1 env s k = Some e" "s' = s\<lparr>l1Hits := l1Hits s + 1\<rparr>" "r = Inr (Some e)"
  | (l2) e where "k \<noteq> ''''" "readL1 env s k = None" "readL2 env s k = Inr (Some e)"
      "s' = writeL1 env (s\<lparr>l1Misses := l1Misses s + 1, l2Hits := l2Hits s + 1\<rparr>) k (Some e)"
      "r = Inr (Some e)"
  | (l3) t e where "k \<noteq> ''''" "readL1 env s k = None" "\<forall>e. readL2 env s k \<noteq> Inr (Some e)"
      "readL3 env (missed env s k) k = (t, Inr (Some e))"
      "s' = writeL1 env (t\<lparr>l3Hits := l3Hits t + 1\<rparr>) k (Some e)" "r = Inr (Some e)"
  | (l3_not_found) t err where "k \<noteq> ''''" "readL1 env s k = None" "\<forall>e. readL2 env s k \<noteq> Inr (Some e)"
      "readL3 env (missed env s k) k = (t, Inl err)" "errors_Is err ErrAuthEntryNotFound"
      "s' = t\<lparr>l3Misses := l3Misses t + 1\<rparr>" "r = Inl ErrAuthEntryNotFound"
  | (l3_error) t err where "k \<noteq> ''''" "readL1 env s k = None" "\<forall>e. readL2 env s k \<noteq> Inr (Some e)"
      "readL3 env (missed env s k) k = (t, Inl err)" "\<not> errors_Is err ErrAuthEntryNotFound"
      "s' = t\<lparr>l3Misses := l3Misses t + 1, storeErrors := storeErrors t + 1\<rparr>"
      "r = Inl ErrAuthStoreUnavailable"
proof (cases "k = '''' \<or> readL1 env s k \<noteq> None \<or> (\<exists>e. readL2 env s k = Inr (Some e))")
  case True
  then show thesis
    using assms empty l1 l2 by (auto simp: store_Get_def Let_def split: if_splits option.splits)
next
  case False
  then have "store_Get env s k = getFromL3 env (missed env s k) k"
    by (auto simp: store_Get_def missed_def Let_def split: sum.splits option.splits)
  moreover obtain t q where q: "readL3 env (missed env s k) k = (t, q)" by fastforce
  ultimately show thesis
    using assms False l3 l3_not_found l3_error readL3_not_nil[of env "missed env s k" k t]
    by (cases q) (auto simp: getFromL3_def split: if_splits option.splits)
qed

interpretation tiered: auth_store store_Get store_Invalidate
proof
  fix env :: "'a store_env" and s k
  show "store_Get env s '''' = (s, Inl ErrAuthEntryNotFound)" by (simp add: store_Get_def)
  obtain s' r where g: "store_Get env s k = (s', r)" by fastforce
  have r: "r \<noteq> Inr None \<and> (\<forall>err. r = Inl err \<longrightarrow> err \<in> {ErrAuthEntryNotFound, ErrAuthStoreUnavailable})"
    using g by (cases rule: store_Get_cases) simp_all
  show "snd (store_Get env s k) \<noteq> Inr None" using r by (simp add: g)
  show "err = ErrAuthEntryNotFound \<or> err = ErrAuthStoreUnavailable"
    if "snd (store_Get env s k) = Inl err" for err
    using r that by (simp add: g)
qed

lemma mem_pebble_spec: "pebble_spec mem_api (\<lambda>db. mem_map db)"
  by (auto simp: pebble_spec_def mem_api_def split: option.splits if_splits)

subsection \<open>Decoded entries are valid\<close>

lemma DecodeReadModel_valid:
  "DecodeReadModelToAuthEntry body = Inr e \<Longrightarrow> entry_valid e"
  "DecodeReadModelEnvelopeToAuthEntry body = Inr e \<Longrightarrow> entry_valid e"
  by (auto simp: DecodeReadModelToAuthEntry_def DecodeReadModelEnvelopeToAuthEntry_def entry_valid_def
      ToAuthEntry_def projection_valid_def split: sum.splits
      dest!: json_Decode_projection_valid)

lemma readL2_hit:
  assumes "readL2 env s k = Inr (Some e)"
  obtains sz body where "minioClient s" "se_minio env (L2Bucket (ts_cfg s)) (k @ ''.json'') = Object sz body"
    "sz \<le> 1024 * 1024" "DecodeReadModelToAuthEntry body = Inr e"
  using assms by (auto simp: readL2_def Let_def split: if_splits minio_reply.splits sum.splits)

lemma readL3_hit:
  assumes "readL3 env s k = (s', Inr (Some e))"
  obtains client body where "L3Client (ts_cfg s) = Some client" "k \<noteq> ''''"
    "http_Do (se_http env) (lookupRequest client k) = Response 200 body"
    "DecodeReadModelEnvelopeToAuthEntry body = Inr e"
proof -
  from assms obtain client client' res where c: "L3Client (ts_cfg s) = Some client"
    "LookupEntry (se_http env) client k = (client', res)" "res = Inr (Some e)"
    by (auto simp: readL3_def split: option.splits prod.splits sum.splits)
  from c(2) show thesis
  proof (cases rule: LookupEntry_cases)
    case (ok body)
    with c that[of client body] show thesis
      by (cases "DecodeReadModelEnvelopeToAuthEntry body") auto
  qed (use c(3) in auto)
qed

lemma store_Get_valid:
  assumes "store_Get env s k = (s', Inr (Some e))" "readL1 env s k = None"
  shows "entry_valid e"
  using assms(1)
proof (cases rule: store_Get_cases)
  case l2
  then show ?thesis by (auto elim!: readL2_hit dest: DecodeReadModel_valid)
next
  case l3
  then show ?thesis by (auto elim!: readL3_hit dest: DecodeReadModel_valid)
qed (use assms(2) in auto)

subsection \<open>Pebble and the layers\<close>

lemma pebble_specD:
  assumes "pebble_spec api contents"
  shows "pb_Get api db k = Inr v \<Longrightarrow> contents db k = Some v"
    "pb_Get api db k = Inl PebbleNotFound \<Longrightarrow> contents db k = None"
    "pb_Set api db k v = (db', err) \<Longrightarrow>
       contents db' = (contents db)(k \<mapsto> v) \<or> (err \<noteq> None \<and> contents db' = contents db)"
    "pb_Delete api db k = (db', err) \<Longrightarrow>
       contents db' = (contents db)(k := None) \<or> (err \<noteq> None \<and> contents db' = contents db)"
  using assms unfolding pebble_spec_def by blast+

lemma readL1_hit:
  assumes "readL1 env s k = Some e"
  obtains db v pe where "pebbleDB s = Some db" "pb_Get (se_pebble env) db k = Inr v"
    "json_Unmarshal (decodePebbleEntry (se_timeParse env)) zero_pebbleEntry v = Inr pe"
    "time_Sub (se_readNow env) (pe_CachedAt pe) \<le> L1TTL (ts_cfg s)" "e = pe_Entry pe"
  using assms by (auto simp: readL1_def not_less split: option.splits sum.splits if_splits)

lemma store_Get_frame:
  assumes "store_Get env s k = (s', r)"
  shows "\<exists>c. ts_cfg s' = (ts_cfg s)\<lparr>L3Client := c\<rparr>"
    "minioClient s' = minioClient s" "invalidations s' = invalidations s"
proof -
  have self: "\<exists>c. ts_cfg s = (ts_cfg s)\<lparr>L3Client := c\<rparr>"
    by (rule exI[of _ "L3Client (ts_cfg s)"]) simp
  show "\<exists>c. ts_cfg s' = (ts_cfg s)\<lparr>L3Client := c\<rparr>"
    using assms by (cases rule: store_Get_cases) (use self in \<open>auto dest!: readL3_frame\<close>)
  show "minioClient s' = minioClient s" "invalidations s' = invalidations s"
    using assms by (cases rule: store_Get_cases; auto dest!: readL3_frame simp: missed_def Let_def split: sum.splits)+
qed

text \<open>What a lookup leaves in L1: on a miss that found an entry, the entry written under its key;
  otherwise the database as it was.\<close>

lemma store_Get_db:
  assumes "store_Get env s k = (s', r)"
  shows "pebbleDB s' = (case (readL1 env s k, r) of
           (None, Inr (Some e)) \<Rightarrow> pebbleDB (writeL1 env s k (Some e))
         | _ \<Rightarrow> pebbleDB s)"
proof -
  have w: "pebbleDB u = pebbleDB s \<Longrightarrow> pebbleDB (writeL1 env u k e) = pebbleDB (writeL1 env s k e)" for u e
    by (auto simp: writeL1_def split: option.splits sum.splits)
  show ?thesis
    using assms by (cases rule: store_Get_cases) (auto dest!: readL3_frame intro!: w split: option.splits)
qed

subsection \<open>Runs of the store\<close>

text \<open>
  A run is a sequence of operations, each in its own environment. \<open>store_run\<close> also keeps, for
  the statements below, the entries L2 and L3 delivered: key, entry and write time, without
  those whose key was invalidated since.
\<close>

datatype store_op = OpGet string | OpInvalidate string | OpClose

type_synonym delivery = "string \<times> AuthEntry \<times> time"

fun store_step :: "'db store_env \<Rightarrow> store_op \<Rightarrow> 'db TieredAuthStore \<times> delivery list \<Rightarrow>
    'db TieredAuthStore \<times> delivery list" where
  "store_step env (OpGet k) (s, h) =
     (case store_Get env s k of (s', r) \<Rightarrow>
        (s', case (readL1 env s k, r) of
               (None, Inr (Some e)) \<Rightarrow> (k, e, se_writeNow env) # h
             | _ \<Rightarrow> h))"
| "store_step env (OpInvalidate k) (s, h) =
     (case store_Invalidate env s k of (s', err) \<Rightarrow>
        (s', if err = None then filter (\<lambda>(k', _). k' \<noteq> k) h else h))"
| "store_step env OpClose (s, h) = (fst (store_Close env s), h)"

fun store_run :: "('db store_env \<times> store_op) list \<Rightarrow> 'db TieredAuthStore \<times> delivery list \<Rightarrow>
    'db TieredAuthStore \<times> delivery list" where
  "store_run [] sh = sh"
| "store_run ((env, op) # ops) sh = store_run ops (store_step env op sh)"

text \<open>Everything in L1 is the text of a delivered entry, with its write time.\<close>

definition L1_backed ::
    "('db \<Rightarrow> string \<rightharpoonup> bytes) \<Rightarrow> 'db TieredAuthStore \<times> delivery list \<Rightarrow> bool" where
  "L1_backed contents sh \<longleftrightarrow>
     (\<forall>(k, e, t) \<in> set (snd sh). k \<noteq> '''' \<and> entry_valid e) \<and>
     (\<forall>db k v. pebbleDB (fst sh) = Some db \<longrightarrow> contents db k = Some v \<longrightarrow>
        (\<exists>e t. (k, e, t) \<in> set (snd sh) \<and> marshalPebbleEntry \<lparr>pe_Entry = e, pe_CachedAt = t\<rparr> = Inr v))"

lemma writeL1_contents:
  assumes "pebble_spec (se_pebble env) contents" "pebbleDB s = Some db"
    and "pebbleDB (writeL1 env s k (Some e)) = Some db'"
  shows "contents db' = contents db \<or>
    (\<exists>v. marshalPebbleEntry \<lparr>pe_Entry = e, pe_CachedAt = se_writeNow env\<rparr> = Inr v \<and>
         contents db' = (contents db)(k \<mapsto> v))"
proof (cases "marshalPebbleEntry \<lparr>pe_Entry = e, pe_CachedAt = se_writeNow env\<rparr>")
  case Inl
  then show ?thesis using assms by (simp add: writeL1_def)
next
  case (Inr v)
  obtain d err where "pb_Set (se_pebble env) db k v = (d, err)" by fastforce
  with pebble_specD(3)[OF assms(1) this] assms(2,3) Inr show ?thesis by (auto simp: writeL1_def)
qed

lemma Get_backed:
  assumes api: "pebble_spec (se_pebble env) contents" and inv: "L1_backed contents (s, h)"
  shows "L1_backed contents (store_step env (OpGet k) (s, h))"
proof -
  obtain s' r where g: "store_Get env s k = (s', r)" by fastforce
  show ?thesis
  proof (cases "\<exists>e. readL1 env s k = None \<and> r = Inr (Some e)")
    case True
    then obtain e where e: "readL1 env s k = None" "r = Inr (Some e)" by blast
    have "k \<noteq> ''''" "entry_valid e"
      using g e store_Get_valid[of env s k s' e] by (auto simp: store_Get_def)
    moreover have "\<exists>e' t. (k', e', t) \<in> set ((k, e, se_writeNow env) # h) \<and>
        marshalPebbleEntry \<lparr>pe_Entry = e', pe_CachedAt = t\<rparr> = Inr v"
      if db': "pebbleDB s' = Some db'" "contents db' k' = Some v" for db' k' v
    proof -
      have w: "pebbleDB (writeL1 env s k (Some e)) = Some db'" using store_Get_db[OF g] e db' by simp
      then obtain db where db: "pebbleDB s = Some db" by (auto simp: writeL1_def split: option.splits)
      show ?thesis
        using writeL1_contents[OF api db w] db' inv db
        by (auto simp: L1_backed_def split: if_splits) blast+
    qed
    ultimately show ?thesis using g e inv by (auto simp: L1_backed_def)
  next
    case False
    then have "store_step env (OpGet k) (s, h) = (s', h)"
      using g by (auto split: option.splits sum.splits)
    moreover have "pebbleDB s' = pebbleDB s"
      using store_Get_db[OF g] False by (auto split: option.splits sum.splits)
    ultimately show ?thesis using inv by (simp add: L1_backed_def)
  qed
qed

lemma Invalidate_backed:
  assumes api: "pebble_spec (se_pebble env) contents" and inv: "L1_backed contents (s, h)"
  shows "L1_backed contents (store_step env (OpInvalidate k) (s, h))"
proof -
  obtain s' err where i: "store_Invalidate env s k = (s', err)" by fastforce
  show ?thesis
  proof (cases "pebbleDB s = None \<or> k = ''''")
    case True
    then have "pebbleDB s' = pebbleDB s" using i by (auto simp: store_Invalidate_def Let_def split: option.splits)
    moreover have "filter (\<lambda>(k', _). k' \<noteq> k) h = h" if "k = ''''"
      using inv that by (auto simp: L1_backed_def filter_id_conv)
    ultimately show ?thesis
      using True i inv by (cases "pebbleDB s") (auto simp: L1_backed_def)
  next
    case False
    then obtain db where db: "pebbleDB s = Some db" by (cases "pebbleDB s") auto
    obtain d e where del: "pb_Delete (se_pebble env) db k = (d, e)" by fastforce
    have "pebbleDB s' = Some d" "err = map_option ErrText e"
      using i False db del by (auto simp: store_Invalidate_def Let_def)
    with pebble_specD(4)[OF api del] i inv db show ?thesis
      by (auto simp: L1_backed_def split: if_splits)
  qed
qed

lemma store_step_backed:
  assumes "pebble_spec (se_pebble env) contents" "L1_backed contents (s, h)"
  shows "L1_backed contents (store_step env op (s, h))"
proof (cases op)
  case OpClose
  then show ?thesis using assms(2) by (auto simp: L1_backed_def store_Close_def split: option.splits)
qed (use Get_backed[OF assms] Invalidate_backed[OF assms] in simp_all)

interpretation sequential: run_system
  "\<lambda>(env, op) sh. Some (store_step env op sh)" "\<lambda>ops sh. Some (store_run ops sh)"
  by unfold_locales auto

lemma store_run_backed:
  assumes "\<forall>(env, op) \<in> set ops. pebble_spec (se_pebble env) contents" "L1_backed contents sh"
  shows "L1_backed contents (store_run ops sh)"
  by (rule sequential.exec_inv[where P = "L1_backed contents", OF _ refl assms(2)])
     (clarsimp, metis (no_types) assms(1) case_prodD store_step_backed)

lemma L1_backed_hit:
  assumes "pebble_spec (se_pebble env) contents" "L1_backed contents (s, h)" "readL1 env s k = Some e"
  shows "\<exists>t. (k, e, t) \<in> set h \<and> time_Sub (se_readNow env) t \<le> L1TTL (ts_cfg s)"
  using assms(3)
proof (cases rule: readL1_hit)
  case (1 db v pe)
  then have "contents db k = Some v" using pebble_specD(1)[OF assms(1)] by blast
  moreover have "pebbleDB s = Some db \<Longrightarrow> contents db k = Some v \<Longrightarrow> \<exists>e t. (k, e, t) \<in> set h \<and>
      marshalPebbleEntry \<lparr>pe_Entry = e, pe_CachedAt = t\<rparr> = Inr v"
    using assms(2) unfolding L1_backed_def by simp
  ultimately obtain e' t where et: "(k, e', t) \<in> set h"
      "marshalPebbleEntry \<lparr>pe_Entry = e', pe_CachedAt = t\<rparr> = Inr v"
    using 1(1) by blast
  then have "entry_valid e'" using assms(2) by (auto simp: L1_backed_def)
  with pebbleEntry_round_trip[OF et(2)] 1(3) have "pe = \<lparr>pe_Entry = e', pe_CachedAt = t\<rparr>"
    by simp
  with et(1) 1(4,5) show ?thesis by auto
qed

text \<open>The TTL is fixed at construction.\<close>

lemma store_step_TTL: "L1TTL (ts_cfg (fst (store_step env op sh))) = L1TTL (ts_cfg (fst sh))"
proof (cases op)
  case (OpGet k)
  obtain s' r where g: "store_Get env (fst sh) k = (s', r)" by fastforce
  with store_Get_frame(1)[OF this] OpGet show ?thesis by (cases sh) auto
qed (cases sh; auto simp: store_Invalidate_def store_Close_def Let_def split: option.splits prod.splits)+

lemma store_run_TTL: "L1TTL (ts_cfg (fst (store_run ops sh))) = L1TTL (ts_cfg (fst sh))"
  by (rule sequential.exec_inv[where P = "\<lambda>z. L1TTL (ts_cfg (fst z)) = L1TTL (ts_cfg (fst sh))", OF _ refl refl])
     (use store_step_TTL in \<open>metis (mono_tags, lifting) case_prod_beta option.inject\<close>)

lemma pebble_reliable_SetGet:
  assumes "pebble_reliable api contents ok" "ok db"
  shows "pb_Get api (fst (pb_Set api db k v)) k = Inr v"
proof -
  obtain db' where "pb_Set api db k v = (db', None)" "ok db'" "contents db' = (contents db)(k \<mapsto> v)"
    using assms unfolding pebble_reliable_def by blast
  then show ?thesis using assms(1) by (simp add: pebble_reliable_def)
qed

lemma writeL1_readL1:
  assumes "pebble_reliable (se_pebble env) contents ok" "pebbleDB s = Some db \<and> ok db" "entry_valid e"
    and "MarshalTime (se_writeNow env) \<noteq> None"
    and "se_pebble env' = se_pebble env" "time_Sub (se_readNow env') (se_writeNow env) \<le> L1TTL (ts_cfg s)"
    and "pebbleDB s' = pebbleDB (writeL1 env s k (Some e))" "L1TTL (ts_cfg s') = L1TTL (ts_cfg s)"
  shows "readL1 env' s' k = Some e"
proof -
  let ?pe = "\<lparr>pe_Entry = e, pe_CachedAt = se_writeNow env\<rparr>"
  obtain v where v: "marshalPebbleEntry ?pe = Inr v" using assms(4) by (auto simp: marshalPebbleEntry_def)
  have "pebbleDB s' = Some (fst (pb_Set (se_pebble env) db k v))" using assms(2,7) v by (simp add: writeL1_def)
  moreover have "pb_Get (se_pebble env') (fst (pb_Set (se_pebble env) db k v)) k = Inr v"
    using pebble_reliable_SetGet[OF assms(1)] assms(2,5) by simp
  moreover have "json_Unmarshal (decodePebbleEntry (se_timeParse env')) zero_pebbleEntry v = Inr ?pe"
    using pebbleEntry_round_trip[OF v] assms(3) by simp
  ultimately show ?thesis using assms(6,8) by (simp add: readL1_def)
qed


text \<open>L3 reports \<open>not found\<close> exactly for a 404.\<close>

lemma readL3_not_found:
  assumes "readL3 env s k = (s', Inl err)" "k \<noteq> ''''"
  shows "errors_Is err ErrAuthEntryNotFound \<longleftrightarrow>
    (\<exists>client body. L3Client (ts_cfg s) = Some client \<and>
       newRequestError (se_http env) (rq_url (lookupRequest client k)) = None \<and>
       http_Do (se_http env) (lookupRequest client k) = Response 404 body)"
proof (cases "L3Client (ts_cfg s)")
  case None
  then show ?thesis using assms by (simp add: readL3_def)
next
  case (Some client)
  have dec: "DecodeReadModelEnvelopeToAuthEntry body = Inl e \<Longrightarrow> \<not> errors_Is e ErrAuthEntryNotFound" for body e
    by (auto simp: DecodeReadModelEnvelopeToAuthEntry_def json_Decode_def json_finish_def
        split: sum.splits option.splits prod.splits if_splits)
  obtain client' res where look: "LookupEntry (se_http env) client k = (client', res)" by fastforce
  have err: "res = Inl err \<or> (res = Inr None \<and> err = ErrAuthEntryNotFound)"
    using assms(1) Some look by (auto simp: readL3_def split: sum.splits option.splits)
  from look show ?thesis
  proof (cases rule: LookupEntry_cases)
    case (ok body)
    then have "DecodeReadModelEnvelopeToAuthEntry body = Inl err"
      using err by (cases "DecodeReadModelEnvelopeToAuthEntry body") auto
    then show ?thesis using dec ok Some by auto
  next
    case (not_found body)
    then show ?thesis using err Some look assms(2)
      by (auto simp: LookupEntry_def Let_def lookupRequest_def split: option.splits)
  qed (use err Some assms(2) in auto)
qed


lemma readL3_cfg: "ts_cfg s = ts_cfg t \<Longrightarrow> snd (readL3 env s k) = snd (readL3 env t k)"
  by (simp add: readL3_def split: option.split prod.split)

lemma getFromL3_cfg: "ts_cfg s = ts_cfg t \<Longrightarrow> snd (getFromL3 env s k) = snd (getFromL3 env t k)"
  using readL3_cfg[of s t env k]
  by (cases "readL3 env s k"; cases "readL3 env t k") (auto simp: getFromL3_def split: sum.splits)

lemma readL2_cfg: "ts_cfg s = ts_cfg t \<Longrightarrow> minioClient s = minioClient t \<Longrightarrow> readL2 env s k = readL2 env t k"
  by (simp add: readL2_def)

text \<open>Below L1, the answer depends on the configuration and the environment only.\<close>

lemma store_Get_below_L1:
  assumes "readL1 env s k = None" "readL1 env t k = None" "ts_cfg s = ts_cfg t" "minioClient s = minioClient t"
  shows "snd (store_Get env s k) = snd (store_Get env t k)"
  using assms readL2_cfg[OF assms(3,4), of env k]
  by (auto simp: store_Get_def Let_def intro!: getFromL3_cfg split: sum.splits option.splits)

subsection \<open>A concrete store\<close>

text \<open>An empty L1 in memory, one object in L2, and an L3 endpoint that knows nothing: the inputs of
  the witnesses below.\<close>

definition demo_projection :: AuthProjection where
  "demo_projection = zero_AuthProjection\<lparr>p_AssetUUID := ''a1'', p_OrgId := ''o1'', p_Enabled := True,
     p_AuthType := ''password'', p_PasswordHash := ''h''\<rparr>"

definition demo_entry :: AuthEntry where
  "demo_entry = \<lparr>Enabled = True, AssetUUID = ''a1'', OrgId = ''o1'', AuthType = ''password'',
     PasswordHash = ''h'', CurrentCertSerial = ''''\<rparr>"

definition demo_client :: AuthClient where
  "demo_client = \<lparr>ac_cfg = \<lparr>URL = ''u'', APIKey = ''k'', Timeout = 1, MaxIdleConns = 1, IdleConnTimeout = 1\<rparr>,
      lookups = 0, lookupHits = 0, lookupMiss = 0, lookupError = 0\<rparr>"

definition demo_cfg :: TieredAuthStoreConfig where
  "demo_cfg = \<lparr>L1Path = ''/l1'', L2Endpoint = ''e'', L2AccessKey = ''x'', L2SecretKey = ''y'',
     L2Bucket = ''b'', L2UseSSL = False, L3Client = Some demo_client, L1TTL = 30 * Minute\<rparr>"

definition demo_store :: "mem_db TieredAuthStore" where
  "demo_store = (fresh_store demo_cfg)\<lparr>pebbleDB := Some \<lparr>mem_map = Map.empty, mem_fails = False\<rparr>,
     minioClient := True\<rparr>"

declare fresh_store_def [demo_store_defs] demo_cfg_def [demo_store_defs] demo_store_def [demo_store_defs]

definition demo_env :: "time \<Rightarrow> mem_db store_env" where
  "demo_env now = \<lparr>se_pebble = mem_api, se_minioNew = (\<lambda>_ _. None),
     se_minio = (\<lambda>b k. if k = ''a1.json'' then Object 99 (json_text (projection_json demo_projection))
                       else StatError ''NoSuchKey'' ''gone''),
     se_http = \<lparr>newRequestError = (\<lambda>_. None), http_Do = (\<lambda>_. Response 404 '''')\<rparr>,
     se_timeParse = (\<lambda>_. None), se_readNow = now, se_writeNow = now\<rparr>"

lemma demo_L1: "readL1 (demo_env t) demo_store k = None"
  by (simp add: readL1_def demo_env_def demo_store_def mem_api_def)

lemma demo_valid: "projection_valid demo_projection" "ToAuthEntry demo_projection = demo_entry"
  by (simp_all add: projection_valid_def demo_projection_def zero_AuthProjection_def validUTF8_ascii
      byte_def ToAuthEntry_def demo_entry_def)

lemma demo_L2: "readL2 (demo_env t) demo_store ''a1'' = Inr (Some demo_entry)"
  using DecodeReadModel_text(1)[OF demo_valid(1)] demo_valid(2)
  by (simp add: readL2_def demo_env_def demo_store_def Let_def)

lemma demo_Get: "store_Get (demo_env t) demo_store ''a1'' =
   (writeL1 (demo_env t) (demo_store\<lparr>l1Misses := 1, l2Hits := 1\<rparr>) ''a1'' (Some demo_entry),
    Inr (Some demo_entry))"
  by (simp add: store_Get_def demo_L1 demo_L2) (simp add: demo_store_def fresh_store_def)

lemma demo_spec: "pebble_spec (se_pebble (demo_env t)) mem_map"
  using mem_pebble_spec by (simp add: demo_env_def)

lemma demo_reliable: "pebble_reliable (se_pebble (demo_env t)) mem_map (\<lambda>db. \<not> mem_fails db)"
  by (simp add: pebble_reliable_def demo_env_def mem_api_def)

lemma demo_db: "pebbleDB demo_store = Some \<lparr>mem_map = Map.empty, mem_fails = False\<rparr> \<and>
   \<not> mem_fails \<lparr>mem_map = Map.empty, mem_fails = False\<rparr>"
  by (simp add: demo_store_def)

lemma demo_time: "MarshalTime (se_writeNow (demo_env 0)) \<noteq> None"
    "time_Sub (se_readNow (demo_env (30 * Second))) (se_writeNow (demo_env 0)) \<le> L1TTL (ts_cfg demo_store)"
proof -
  show "MarshalTime (se_writeNow (demo_env 0)) \<noteq> None" using MarshalTime_epoch by (simp add: demo_env_def)
qed (simp add: demo_env_def demo_store_defs time_Sub_def sat64_def
      Minute_def Second_def int64_defs)

lemma demo_pebble: "se_pebble (demo_env t) = mem_api"
  by (simp add: demo_env_def)

lemma demo_warm:
  "readL1 (demo_env (30 * Second)) (writeL1 (demo_env 0) (demo_store\<lparr>l1Misses := 1, l2Hits := 1\<rparr>) ''a1''
     (Some demo_entry)) ''a1'' = Some demo_entry"
  by (rule writeL1_readL1[where db = "\<lparr>mem_map = Map.empty, mem_fails = False\<rparr>", OF demo_reliable _
        store_Get_valid[OF demo_Get demo_L1] demo_time(1) _ _ refl])
     (use demo_db demo_time(2) in \<open>simp_all add: demo_pebble\<close>)

section \<open>Properties\<close>

text \<open>C28: Where an answer comes from. An entry that \<open>Get\<close> returns is one of: the entry of an L1
  record whose age is at most the TTL; the projection decoded from an L2 object of at most
  1 MiB, read only after L1 missed; the projection decoded from a 200 response of the L3
  endpoint, read only after L1 missed and L2 gave no entry.\<close>

theorem store_Get_provenance:
  assumes "store_Get env s k = (s', Inr (Some e))"
  shows "k \<noteq> '''' \<and>
    ((\<exists>db v pe. pebbleDB s = Some db \<and> pb_Get (se_pebble env) db k = Inr v \<and>
        json_Unmarshal (decodePebbleEntry (se_timeParse env)) zero_pebbleEntry v = Inr pe \<and>
        time_Sub (se_readNow env) (pe_CachedAt pe) \<le> L1TTL (ts_cfg s) \<and> e = pe_Entry pe) \<or>
     readL1 env s k = None \<and>
       ((\<exists>sz body. se_minio env (L2Bucket (ts_cfg s)) (k @ ''.json'') = Object sz body \<and>
           sz \<le> 1024 * 1024 \<and> DecodeReadModelToAuthEntry body = Inr e) \<or>
        (\<forall>e'. readL2 env s k \<noteq> Inr (Some e')) \<and>
        (\<exists>client body. L3Client (ts_cfg s) = Some client \<and>
           http_Do (se_http env) (lookupRequest client k) = Response 200 body \<and>
           DecodeReadModelEnvelopeToAuthEntry body = Inr e)))"
  using assms
proof (cases rule: store_Get_cases)
  case (l1 e')
  then have "readL1 env s k = Some e" by simp
  then show ?thesis using \<open>k \<noteq> ''''\<close> by (auto elim!: readL1_hit)
next
  case (l2 e')
  then have "readL2 env s k = Inr (Some e)" by simp
  then show ?thesis using l2(1,2) by (auto elim!: readL2_hit)
next
  case (l3 t e')
  then have "readL3 env (missed env s k) k = (t, Inr (Some e))" by simp
  then show ?thesis using l3(1-3) by (auto elim!: readL3_hit)
qed simp_all

theorem store_Get_provenance_witness:
  "(\<exists>sz body. se_minio (demo_env 0) ''b'' ''a1.json'' = Object sz body \<and> sz \<le> 1024 * 1024 \<and>
      DecodeReadModelToAuthEntry body = Inr demo_entry)"
  using store_Get_provenance[OF demo_Get[of 0]] demo_L2[of 0]
  by (auto simp: demo_L1) (auto simp: demo_store_defs demo_env_def mem_api_def)

text \<open>C27: Fail closed. Every lookup ends in an entry or in one of the two sentinels; \<open>not found\<close> is
  reported exactly for an empty identifier or when L1 missed, L2 had no entry and the L3
  endpoint answered 404. Any other failure (transport error, unusable URL, other status, body
  that does not decode, no client) is \<open>unavailable\<close>.\<close>

theorem store_Get_fail_closed:
  "snd (store_Get env s k) \<in> range (Inr \<circ> Some) \<union> {Inl ErrAuthEntryNotFound, Inl ErrAuthStoreUnavailable} \<and>
   (snd (store_Get env s k) = Inl ErrAuthEntryNotFound \<longleftrightarrow>
      k = '''' \<or>
      readL1 env s k = None \<and> (\<forall>e. readL2 env s k \<noteq> Inr (Some e)) \<and>
      (\<exists>client body. L3Client (ts_cfg s) = Some client \<and>
         newRequestError (se_http env) (rq_url (lookupRequest client k)) = None \<and>
         http_Do (se_http env) (lookupRequest client k) = Response 404 body))"
proof
  show "snd (store_Get env s k) \<in> range (Inr \<circ> Some) \<union> {Inl ErrAuthEntryNotFound, Inl ErrAuthStoreUnavailable}"
    by (cases rule: tiered.get_cases[of env s k]) auto
  obtain s' r where g: "store_Get env s k = (s', r)" by fastforce
  have "r = Inl ErrAuthEntryNotFound \<longleftrightarrow>
      k = '''' \<or>
      readL1 env s k = None \<and> (\<forall>e. readL2 env s k \<noteq> Inr (Some e)) \<and>
      (\<exists>client body. L3Client (ts_cfg s) = Some client \<and>
         newRequestError (se_http env) (rq_url (lookupRequest client k)) = None \<and>
         http_Do (se_http env) (lookupRequest client k) = Response 404 body)"
    using g
  proof (cases rule: store_Get_cases)
    case (l3 t e)
    then show ?thesis by (auto elim!: readL3_hit)
  next
    case (l3_not_found t err)
    then show ?thesis using readL3_not_found[of env "missed env s k" k t err] by auto
  next
    case (l3_error t err)
    then show ?thesis using readL3_not_found[of env "missed env s k" k t err] by auto
  qed auto
  then show "snd (store_Get env s k) = Inl ErrAuthEntryNotFound \<longleftrightarrow>
      k = '''' \<or>
      readL1 env s k = None \<and> (\<forall>e. readL2 env s k \<noteq> Inr (Some e)) \<and>
      (\<exists>client body. L3Client (ts_cfg s) = Some client \<and>
         newRequestError (se_http env) (rq_url (lookupRequest client k)) = None \<and>
         http_Do (se_http env) (lookupRequest client k) = Response 404 body)"
    by (simp add: g)
qed


text \<open>C14: Bounded staleness and invalidation. Start from a store whose L1 is empty and run any
  sequence of lookups, invalidations and closes, with L1 reads, writes and deletes failing at
  will. If the next lookup is answered by L1, the entry was delivered by L2 or L3 for the same
  key in that run, at most the TTL ago, and the key was not successfully invalidated since.\<close>

theorem L1_bounded_staleness:
  assumes "\<forall>(env, op) \<in> set ops. pebble_spec (se_pebble env) contents"
    and "pebble_spec (se_pebble env) contents"
    and "\<forall>db. pebbleDB s0 = Some db \<longrightarrow> contents db = Map.empty"
    and "store_run ops (s0, []) = (s, h)"
    and "readL1 env s k = Some e"
  shows "store_Get env s k = (if k = '''' then (s, Inl ErrAuthEntryNotFound)
                              else (s\<lparr>l1Hits := l1Hits s + 1\<rparr>, Inr (Some e))) \<and>
    (\<exists>t. (k, e, t) \<in> set h \<and> time_Sub (se_readNow env) t \<le> L1TTL (ts_cfg s0))"
proof -
  have "L1_backed contents (s0, [])" using assms(3) by (simp add: L1_backed_def)
  from store_run_backed[OF assms(1) this] have "L1_backed contents (s, h)" by (simp add: assms(4))
  from L1_backed_hit[OF assms(2) this assms(5)] store_run_TTL[of ops "(s0, [])"] assms(4,5)
  show ?thesis by (simp add: store_Get_def)
qed

text \<open>Two lookups of the same key thirty seconds apart.\<close>

theorem L1_bounded_staleness_witness:
  "case store_run [(demo_env 0, OpGet ''a1'')] (demo_store, []) of (s, h) \<Rightarrow>
     \<exists>t. (''a1'', demo_entry, t) \<in> set h \<and> time_Sub (30 * Second) t \<le> 30 * Minute"
proof -
  let ?s = "writeL1 (demo_env 0) (demo_store\<lparr>l1Misses := 1, l2Hits := 1\<rparr>) ''a1'' (Some demo_entry)"
  have run: "store_run [(demo_env 0, OpGet ''a1'')] (demo_store, []) = (?s, [(''a1'', demo_entry, 0)])"
    by (simp add: demo_Get demo_L1) (simp add: demo_env_def)
  have "readL1 (demo_env (30 * Second)) ?s ''a1'' = Some demo_entry"
    by (rule demo_warm)
  from L1_bounded_staleness[OF _ demo_spec _ run this] demo_spec[of 0]
  show ?thesis unfolding run by (simp add: demo_env_def demo_store_defs)
qed

text \<open>C29: Warm-up. When a lookup misses L1 and finds an entry below, and Pebble works, the next
  lookup of that key within the TTL is an L1 hit with the same entry, whatever L2 and L3 would
  answer by then.\<close>

theorem store_Get_warms_L1:
  assumes "pebble_reliable (se_pebble env) contents ok" "pebbleDB s = Some db \<and> ok db"
    and "store_Get env s k = (s', Inr (Some e))" "readL1 env s k = None"
    and "MarshalTime (se_writeNow env) \<noteq> None"
    and "se_pebble env' = se_pebble env" "time_Sub (se_readNow env') (se_writeNow env) \<le> L1TTL (ts_cfg s)"
  shows "store_Get env' s' k = (s'\<lparr>l1Hits := l1Hits s' + 1\<rparr>, Inr (Some e))"
proof -
  obtain db where db: "pebbleDB s = Some db" using assms(2) by blast
  have "readL1 env' s' k = Some e"
    using store_Get_db[OF assms(3)] store_Get_frame(1)[OF assms(3)] assms(4)
    by (intro writeL1_readL1[OF assms(1,2) store_Get_valid[OF assms(3,4)] assms(5-7)]) auto
  moreover have "k \<noteq> ''''" using assms(3) by (auto simp: store_Get_def)
  ultimately show ?thesis by (simp add: store_Get_def)
qed

theorem store_Get_warms_L1_witness:
  "snd (store_Get (demo_env (30 * Second)) (fst (store_Get (demo_env 0) demo_store ''a1'')) ''a1'')
   = Inr (Some demo_entry)"
proof -
  have "store_Get (demo_env (30 * Second))
      (writeL1 (demo_env 0) (demo_store\<lparr>l1Misses := 1, l2Hits := 1\<rparr>) ''a1'' (Some demo_entry)) ''a1'' =
      (writeL1 (demo_env 0) (demo_store\<lparr>l1Misses := 1, l2Hits := 1\<rparr>) ''a1'' (Some demo_entry)
       \<lparr>l1Hits := 1\<rparr>, Inr (Some demo_entry))"
    using store_Get_warms_L1[OF demo_reliable demo_db demo_Get[of 0] demo_L1 demo_time(1) _ demo_time(2)]
    by (simp add: demo_pebble) (simp add: demo_store_def fresh_store_def)
  then show ?thesis by (simp add: demo_Get)
qed

lemma Invalidate_refresh:
  assumes "pebble_spec (se_pebble env) contents" "se_pebble env' = se_pebble env"
    and "store_Invalidate env s k = (s', None)"
  shows "snd (store_Get env' s' k) = snd (store_Get env' (s\<lparr>pebbleDB := None\<rparr>) k) \<and>
    (\<forall>db db' k'. pebbleDB s = Some db \<longrightarrow> pebbleDB s' = Some db' \<longrightarrow> k' \<noteq> k \<longrightarrow>
       contents db' k' = contents db k')"
proof (cases "pebbleDB s = None \<or> k = ''''")
  case True
  then have s': "s' = s\<lparr>invalidations := invalidations s + 1\<rparr>"
    using assms(3) by (auto simp: store_Invalidate_def Let_def split: option.splits)
  with True have "k = '''' \<or> readL1 env' s' k = None" by (auto simp: readL1_def)
  then have "snd (store_Get env' s' k) = snd (store_Get env' (s\<lparr>pebbleDB := None\<rparr>) k)"
  proof
    assume "k = ''''"
    then show ?thesis by (simp add: store_Get_def)
  next
    assume "readL1 env' s' k = None"
    then show ?thesis using s' by (intro store_Get_below_L1) (simp_all add: readL1_def)
  qed
  with s' show ?thesis by simp
next
  case False
  then obtain db where db: "pebbleDB s = Some db" by (cases "pebbleDB s") auto
  obtain d err where del: "pb_Delete (se_pebble env) db k = (d, err)" by fastforce
  then have s': "s' = s\<lparr>invalidations := invalidations s + 1, pebbleDB := Some d\<rparr>" and "err = None"
    using assms(3) False db by (auto simp: store_Invalidate_def Let_def)
  with pebble_specD(4)[OF assms(1) del] have c: "contents d = (contents db)(k := None)" by simp
  have "pb_Get (se_pebble env') d k \<noteq> Inr v" for v
    using pebble_specD(1)[OF assms(1), of d k v] c assms(2) by auto
  then have "readL1 env' s' k = None" using s' by (auto simp: readL1_def split: sum.splits)
  moreover have "readL1 env' (s\<lparr>pebbleDB := None\<rparr>) k = None" by (simp add: readL1_def)
  ultimately have "snd (store_Get env' s' k) = snd (store_Get env' (s\<lparr>pebbleDB := None\<rparr>) k)"
    using s' by (intro store_Get_below_L1) simp_all
  then show ?thesis using s' db c by simp
qed

text \<open>Invalidation. After an \<open>Invalidate\<close> that reports no error, a lookup of the key answers
  as a store without L1 would: from L2, then L3. The L1 records of all other keys are as before.\<close>

lemma Invalidate_forces_refresh:
  assumes "pebble_spec (se_pebble env) contents" "se_pebble env' = se_pebble env"
    and "store_Invalidate env s k = (s', None)"
  shows "snd (store_Get env' s' k) = snd (store_Get env' (s\<lparr>pebbleDB := None\<rparr>) k) \<and>
    (\<forall>db db' k'. pebbleDB s = Some db \<longrightarrow> pebbleDB s' = Some db' \<longrightarrow> k' \<noteq> k \<longrightarrow>
       contents db' k' = contents db k')"
  using Invalidate_refresh[OF assms] .

theorem Invalidate_forces_refresh_witness:
  "snd (store_Get (demo_env 1) (fst (store_Invalidate (demo_env 0) demo_store ''a1'')) ''a1'') = Inr (Some demo_entry)"
proof -
  have inv: "store_Invalidate (demo_env 0) demo_store ''a1'' =
      (demo_store\<lparr>invalidations := 1, pebbleDB := Some \<lparr>mem_map = Map.empty, mem_fails = False\<rparr>\<rparr>, None)"
    by (simp add: store_Invalidate_def demo_env_def demo_store_def fresh_store_def mem_api_def Let_def)
  have "snd (store_Get (demo_env 1) (demo_store\<lparr>pebbleDB := None\<rparr>) ''a1'') = Inr (Some demo_entry)"
    using store_Get_below_L1[of "demo_env 1" "demo_store\<lparr>pebbleDB := None\<rparr>" "''a1''" demo_store]
    by (simp add: demo_L1 demo_Get) (simp add: readL1_def)
  with Invalidate_forces_refresh[OF demo_spec _ inv, of "demo_env 1"] show ?thesis
    unfolding inv by (simp add: demo_env_def)
qed

definition layers_balanced :: "'db TieredAuthStore \<Rightarrow> bool" where
  "layers_balanced s \<longleftrightarrow> l1Misses s = l2Hits s + l3Hits s + l3Misses s"

lemma store_Get_balanced:
  assumes "store_Get env s k = (s', r)" "layers_balanced s"
  shows "layers_balanced s'"
  using assms(1)
  by (cases rule: store_Get_cases) (use assms(2) in \<open>auto simp: layers_balanced_def dest!: readL3_frame\<close>)

lemma store_step_balanced: "layers_balanced (fst sh) \<Longrightarrow> layers_balanced (fst (store_step env op sh))"
proof (cases op)
  case (OpGet k)
  assume "layers_balanced (fst sh)"
  then show ?thesis using OpGet store_Get_balanced[of env "fst sh" k]
    by (cases sh; cases "store_Get env (fst sh) k") simp
qed (cases sh; auto simp: layers_balanced_def store_Invalidate_def store_Close_def Let_def
      split: option.splits prod.splits)+

text \<open>Layer accounting. Every lookup that misses L1 is counted under exactly one of L2 hit, L3
  hit and L3 miss, through any run of the store (modulo 2^64).\<close>

theorem store_accounting:
  assumes "NewTieredAuthStore env cfg = Inr s0"
  shows "layers_balanced (fst (store_run ops (s0, [])))"
proof -
  have run: "layers_balanced (fst sh) \<Longrightarrow> layers_balanced (fst (store_run ops sh))" for sh
    by (induction ops sh rule: store_run.induct) (simp_all add: store_step_balanced)
  have "layers_balanced s0"
    using assms by (auto simp: NewTieredAuthStore_def fresh_store_def Let_def layers_balanced_def
        split: if_splits option.splits sum.splits)
  then show ?thesis by (intro run) simp
qed

theorem store_accounting_witness:
  "layers_balanced (fst (store_run [(demo_env 0, OpGet ''a1''), (demo_env 0, OpInvalidate ''a1'')] (demo_store, [])))"
proof -
  have "NewTieredAuthStore (demo_env 0) demo_cfg = Inr demo_store"
    by (simp add: NewTieredAuthStore_def demo_env_def demo_cfg_def demo_store_def fresh_store_def mem_api_def
        Minute_def Second_def)
  then show ?thesis by (rule store_accounting)
qed

text \<open>What construction establishes: a store has an L3 client and a positive TTL, L1 exactly
  when a path is configured, L2 exactly when an endpoint is; a missing L3 client is always
  refused.\<close>

lemma NewTieredAuthStore_ok:
  "(L3Client cfg = None \<longrightarrow> NewTieredAuthStore env cfg = Inl (ErrText ''L3 HTTP client is required'')) \<and>
   (\<forall>s. NewTieredAuthStore env cfg = Inr s \<longrightarrow>
      L3Client (ts_cfg s) = L3Client cfg \<and> L3Client cfg \<noteq> None \<and>
      L1TTL (ts_cfg s) = (if L1TTL cfg \<le> 0 then 30 * Minute else L1TTL cfg) \<and> 0 < L1TTL (ts_cfg s) \<and>
      (pebbleDB s \<noteq> None \<longleftrightarrow> L1Path cfg \<noteq> '''') \<and> (minioClient s \<longleftrightarrow> L2Endpoint cfg \<noteq> '''') \<and>
      store_counts s = replicate 8 0)"
  by (auto simp: NewTieredAuthStore_def fresh_store_def Let_def store_counts_def Minute_def Second_def
      numeral_eq_Suc split: if_splits option.splits sum.splits)


theorem NewTieredAuthStore_ok_witness:
  "0 < L1TTL (ts_cfg demo_store) \<and>
   NewTieredAuthStore (demo_env 0) (demo_cfg\<lparr>L3Client := None\<rparr>) = Inl (ErrText ''L3 HTTP client is required'')"
proof -
  have "NewTieredAuthStore (demo_env 0) demo_cfg = Inr demo_store"
    by (simp add: NewTieredAuthStore_def demo_env_def demo_cfg_def demo_store_def fresh_store_def mem_api_def
        Minute_def Second_def)
  with NewTieredAuthStore_ok[of demo_cfg "demo_env 0"]
    NewTieredAuthStore_ok[of "demo_cfg\<lparr>L3Client := None\<rparr>" "demo_env 0"]
  show ?thesis by simp
qed

end
