(* ===== verification/StoreConc.thy ===== *)
theory StoreConc
  imports AuthStore
begin

text \<open>
  The tiered store under concurrency. The broker thread looks entries up while the goroutine of the
  fanout subscription invalidates, and at shutdown the broker thread closes the store. \<open>Get\<close>,
  \<open>Invalidate\<close> and \<open>Close\<close> of \<^verbatim>\<open>src/auth_store.go\<close> are cut into their atomic actions here: a
  counter update, a test of the \<open>pebbleDB\<close> pointer, one Pebble call through the pointer (which is
  read again, and which panics when it is nil), one request to L2 or L3. What Pebble does with
  calls after its own \<open>Close\<close> is not claimed: the database stays as it was.
\<close>

section \<open>Definitions\<close>

datatype store_pc =
    Idle
  | GStart string
  | GCheckL1 string
  | GGetL1 string
  | GHit AuthEntry
  | GMiss string
  | GReadL2 string
  | GCountL2Hit string AuthEntry
  | GCountL2Miss string
  | GCountL2Error string
  | GReadL3 string
  | GCountL3Miss bool
  | GCountError
  | GCountL3Hit string "AuthEntry option"
  | GCheckWrite string "AuthEntry option"
  | GSet string "AuthEntry option" bytes
  | GReturn "AuthEntry option result"
  | ICount string
  | ICheck string
  | IDelete string
  | IReturn "go_error option"
  | CCheck
  | CClose
  | CSetNil "go_error option"
  | CReturn "go_error option"

fun start_pc :: "store_op \<Rightarrow> store_pc" where
  "start_pc (OpGet k) = GStart k"
| "start_pc (OpInvalidate k) = ICount k"
| "start_pc OpClose = CCheck"

fun finished :: "store_pc \<Rightarrow> bool" where
  "finished Idle = True"
| "finished (GReturn r) = True"
| "finished (IReturn e) = True"
| "finished (CReturn e) = True"
| "finished _ = False"

subsection \<open>Get, one action at a time\<close>

fun get_step :: "'db store_env \<Rightarrow> store_pc \<Rightarrow> 'db TieredAuthStore \<Rightarrow>
    (go_panic + store_pc \<times> 'db TieredAuthStore) option" where
  "get_step env (GStart k) s =
     Some (Inr (if k = '''' then GReturn (Inl ErrAuthEntryNotFound) else GCheckL1 k, s))"
| "get_step env (GCheckL1 k) s = Some (Inr (if pebbleDB s = None then GMiss k else GGetL1 k, s))"
| "get_step env (GGetL1 k) s =
     Some (case pebbleDB s of
             None \<Rightarrow> Inl NilDereference
           | Some db \<Rightarrow>
               Inr (case pb_Get (se_pebble env) db k of
                      Inl _ \<Rightarrow> GMiss k
                    | Inr value \<Rightarrow>
                        (case json_Unmarshal (decodePebbleEntry (se_timeParse env)) zero_pebbleEntry value of
                           Inl _ \<Rightarrow> GMiss k
                         | Inr pe \<Rightarrow>
                             if L1TTL (ts_cfg s) < time_Sub (se_readNow env) (pe_CachedAt pe) then GMiss k
                             else GHit (pe_Entry pe)), s))"
| "get_step env (GHit e) s = Some (Inr (GReturn (Inr (Some e)), s\<lparr>l1Hits := l1Hits s + 1\<rparr>))"
| "get_step env (GMiss k) s = Some (Inr (GReadL2 k, s\<lparr>l1Misses := l1Misses s + 1\<rparr>))"
| "get_step env (GReadL2 k) s =
     Some (Inr (case readL2 env s k of
                  Inr (Some e) \<Rightarrow> GCountL2Hit k e
                | Inr None \<Rightarrow> GCountL2Miss k
                | Inl err \<Rightarrow> GCountL2Error k, s))"
| "get_step env (GCountL2Hit k e) s = Some (Inr (GCheckWrite k (Some e), s\<lparr>l2Hits := l2Hits s + 1\<rparr>))"
| "get_step env (GCountL2Miss k) s = Some (Inr (GReadL3 k, s\<lparr>l2Misses := l2Misses s + 1\<rparr>))"
| "get_step env (GCountL2Error k) s = Some (Inr (GReadL3 k, s\<lparr>storeErrors := storeErrors s + 1\<rparr>))"
| "get_step env (GReadL3 k) s =
     (case readL3 env s k of
        (s, Inl err) \<Rightarrow> Some (Inr (GCountL3Miss (errors_Is err ErrAuthEntryNotFound), s))
      | (s, Inr entry) \<Rightarrow> Some (Inr (GCountL3Hit k entry, s)))"
| "get_step env (GCountL3Miss notFound) s =
     Some (Inr (if notFound then GReturn (Inl ErrAuthEntryNotFound) else GCountError,
                s\<lparr>l3Misses := l3Misses s + 1\<rparr>))"
| "get_step env GCountError s =
     Some (Inr (GReturn (Inl ErrAuthStoreUnavailable), s\<lparr>storeErrors := storeErrors s + 1\<rparr>))"
| "get_step env (GCountL3Hit k entry) s = Some (Inr (GCheckWrite k entry, s\<lparr>l3Hits := l3Hits s + 1\<rparr>))"
| "get_step env (GCheckWrite k entry) s =
     Some (Inr (case (pebbleDB s, entry) of
                  (Some db, Some e) \<Rightarrow>
                    (case marshalPebbleEntry \<lparr>pe_Entry = e, pe_CachedAt = se_writeNow env\<rparr> of
                       Inl _ \<Rightarrow> GReturn (Inr entry)
                     | Inr data \<Rightarrow> GSet k entry data)
                | _ \<Rightarrow> GReturn (Inr entry), s))"
| "get_step env (GSet k entry data) s =
     Some (case pebbleDB s of
             None \<Rightarrow> Inl NilDereference
           | Some db \<Rightarrow>
               Inr (GReturn (Inr entry), s\<lparr>pebbleDB := Some (fst (pb_Set (se_pebble env) db k data))\<rparr>))"
| "get_step env _ s = None"

subsection \<open>Invalidate and Close, one action at a time\<close>

fun invalidate_step :: "'db store_env \<Rightarrow> store_pc \<Rightarrow> 'db TieredAuthStore \<Rightarrow>
    (go_panic + store_pc \<times> 'db TieredAuthStore) option" where
  "invalidate_step env (ICount k) s = Some (Inr (ICheck k, s\<lparr>invalidations := invalidations s + 1\<rparr>))"
| "invalidate_step env (ICheck k) s =
     Some (Inr (if pebbleDB s = None \<or> k = '''' then IReturn None else IDelete k, s))"
| "invalidate_step env (IDelete k) s =
     Some (case pebbleDB s of
             None \<Rightarrow> Inl NilDereference
           | Some db \<Rightarrow>
               (case pb_Delete (se_pebble env) db k of
                  (db', err) \<Rightarrow> Inr (IReturn (map_option ErrText err), s\<lparr>pebbleDB := Some db'\<rparr>)))"
| "invalidate_step env _ s = None"

fun close_step :: "'db store_env \<Rightarrow> store_pc \<Rightarrow> 'db TieredAuthStore \<Rightarrow>
    (go_panic + store_pc \<times> 'db TieredAuthStore) option" where
  "close_step env CCheck s = Some (Inr (if pebbleDB s = None then CReturn None else CClose, s))"
| "close_step env CClose s =
     Some (case pebbleDB s of
             None \<Rightarrow> Inl NilDereference
           | Some db \<Rightarrow> Inr (CSetNil (map_option ErrText (snd (pb_Close (se_pebble env) db))), s))"
| "close_step env (CSetNil err) s = Some (Inr (CReturn err, s\<lparr>pebbleDB := None\<rparr>))"
| "close_step env _ s = None"

definition pc_step :: "'db store_env \<Rightarrow> store_pc \<Rightarrow> 'db TieredAuthStore \<Rightarrow>
    (go_panic + store_pc \<times> 'db TieredAuthStore) option" where
  "pc_step env pc s =
     (case get_step env pc s of
        Some r \<Rightarrow> Some r
      | None \<Rightarrow> (case invalidate_step env pc s of Some r \<Rightarrow> Some r | None \<Rightarrow> close_step env pc s))"

subsection \<open>The system\<close>

text \<open>
  Any number of threads. An action starts an operation on a thread that has none under way, or
  lets a thread take its next action, with the outside world of that moment. \<open>delivered\<close> is kept
  for the statements below: the entries about to be written to L1, with the key and the time.
\<close>

record 'db store_sys =
  shared :: "'db TieredAuthStore"
  threads :: "store_pc list"
  failed :: "go_panic option"
  delivered :: "delivery list"

datatype 'db store_act = Call nat store_op | Act nat "'db store_env"

fun deliver :: "'db store_env \<Rightarrow> store_pc \<Rightarrow> delivery list \<Rightarrow> delivery list" where
  "deliver env (GSet k (Some e) data) h = (k, e, se_writeNow env) # h"
| "deliver env pc h = h"

fun store_do :: "'db store_act \<Rightarrow> 'db store_sys \<Rightarrow> 'db store_sys option" where
  "store_do (Call i op) y =
     (if failed y = None \<and> i < length (threads y) \<and> finished (threads y ! i)
      then Some (y\<lparr>threads := (threads y)[i := start_pc op]\<rparr>) else None)"
| "store_do (Act i env) y =
     (if failed y = None \<and> i < length (threads y)
      then (case pc_step env (threads y ! i) (shared y) of
              None \<Rightarrow> None
            | Some (Inl e) \<Rightarrow> Some (y\<lparr>failed := Some e\<rparr>)
            | Some (Inr (pc, s)) \<Rightarrow>
                Some (y\<lparr>shared := s, threads := (threads y)[i := pc], delivered := deliver env pc (delivered y)\<rparr>))
      else None)"

fun store_exec :: "'db store_act list \<Rightarrow> 'db store_sys \<Rightarrow> 'db store_sys option" where
  "store_exec [] y = Some y"
| "store_exec (a # as) y = (case store_do a y of None \<Rightarrow> None | Some z \<Rightarrow> store_exec as z)"

definition store_init :: "'db TieredAuthStore \<Rightarrow> nat \<Rightarrow> 'db store_sys" where
  "store_init s n = \<lparr>shared = s, threads = replicate n Idle, failed = None, delivered = []\<rparr>"

text \<open>A \<open>Get\<close> that runs alone, with enough fuel for its longest path.\<close>

fun returned :: "store_pc \<Rightarrow> AuthEntry option result option" where
  "returned (GReturn r) = Some r"
| "returned _ = None"

primrec get_alone :: "nat \<Rightarrow> 'db store_env \<Rightarrow> store_pc \<Rightarrow> 'db TieredAuthStore \<Rightarrow>
    (go_panic + 'db TieredAuthStore \<times> AuthEntry option result) option" where
  "get_alone 0 env pc s = (case returned pc of Some r \<Rightarrow> Some (Inr (s, r)) | None \<Rightarrow> None)"
| "get_alone (Suc fuel) env pc s =
     (case returned pc of
        Some r \<Rightarrow> Some (Inr (s, r))
      | None \<Rightarrow>
          (case get_step env pc s of
             None \<Rightarrow> None
           | Some (Inl e) \<Rightarrow> Some (Inl e)
           | Some (Inr (pc, s)) \<Rightarrow> get_alone fuel env pc s))"

section \<open>Lemmas\<close>

lemma get_alone_return [simp]: "get_alone fuel env (GReturn r) s = Some (Inr (s, r))"
  by (cases fuel) simp_all

lemma get_alone_count [simp]:
  "get_alone (Suc fuel) env (GHit e) s = get_alone fuel env (GReturn (Inr (Some e))) (s\<lparr>l1Hits := l1Hits s + 1\<rparr>)"
  "get_alone (Suc fuel) env (GCountL2Hit k e) s = get_alone fuel env (GCheckWrite k (Some e)) (s\<lparr>l2Hits := l2Hits s + 1\<rparr>)"
  "get_alone (Suc fuel) env (GCountL2Miss k) s = get_alone fuel env (GReadL3 k) (s\<lparr>l2Misses := l2Misses s + 1\<rparr>)"
  "get_alone (Suc fuel) env (GCountL2Error k) s = get_alone fuel env (GReadL3 k) (s\<lparr>storeErrors := storeErrors s + 1\<rparr>)"
  "get_alone (Suc fuel) env (GCountL3Hit k entry) s = get_alone fuel env (GCheckWrite k entry) (s\<lparr>l3Hits := l3Hits s + 1\<rparr>)"
  by simp_all

lemma get_alone_write [simp]:
  "get_alone (Suc (Suc fuel)) env (GCheckWrite k entry) s = Some (Inr (writeL1 env s k entry, Inr entry))"
  by (simp add: writeL1_def split: option.splits sum.splits)

declare get_alone.simps(2) [simp del]

lemma get_alone_L3 [simp]:
  "get_alone (Suc (Suc (Suc (Suc fuel)))) env (GReadL3 k) s = Some (Inr (getFromL3 env s k))"
proof (cases "readL3 env s k")
  case (Pair s' r)
  then show ?thesis by (cases r) (simp_all add: get_alone.simps(2)[of _ _ "GReadL3 k"] get_alone.simps(2)[of _ _ "GCountL3Miss b" for b] get_alone.simps(2)[of _ _ GCountError] getFromL3_def)
qed

lemma get_alone_miss [simp]:
  "get_alone (Suc (Suc (Suc (Suc (Suc (Suc (Suc fuel))))))) env (GMiss k) s =
     Some (Inr (let s = s\<lparr>l1Misses := l1Misses s + 1\<rparr> in
       case readL2 env s k of
         Inr (Some e) \<Rightarrow> (writeL1 env (s\<lparr>l2Hits := l2Hits s + 1\<rparr>) k (Some e), Inr (Some e))
       | Inr None \<Rightarrow> getFromL3 env (s\<lparr>l2Misses := l2Misses s + 1\<rparr>) k
       | Inl err \<Rightarrow> getFromL3 env (s\<lparr>storeErrors := storeErrors s + 1\<rparr>) k))"
proof -
  let ?s = "s\<lparr>l1Misses := l1Misses s + 1\<rparr>"
  have "get_alone (Suc (Suc (Suc (Suc (Suc (Suc (Suc fuel))))))) env (GMiss k) s =
      get_alone (Suc (Suc (Suc (Suc (Suc (Suc fuel)))))) env (GReadL2 k) ?s"
    by (subst get_alone.simps(2)) simp
  also have "\<dots> = get_alone (Suc (Suc (Suc (Suc (Suc fuel))))) env
      (case readL2 env ?s k of Inr (Some e) \<Rightarrow> GCountL2Hit k e | Inr None \<Rightarrow> GCountL2Miss k | Inl err \<Rightarrow> GCountL2Error k) ?s"
    by (subst get_alone.simps(2)) simp
  finally show ?thesis by (simp add: Let_def split: sum.splits option.splits)
qed

text \<open>The invariant of the concurrent store: everything in L1, and everything about to be written
  there, is the text of a delivered entry.\<close>

fun pc_backed :: "delivery list \<Rightarrow> store_pc \<Rightarrow> bool" where
  "pc_backed h (GCountL2Hit k e) \<longleftrightarrow> entry_valid e"
| "pc_backed h (GCountL3Hit k entry) \<longleftrightarrow> (\<forall>e. entry = Some e \<longrightarrow> entry_valid e)"
| "pc_backed h (GCheckWrite k entry) \<longleftrightarrow> (\<forall>e. entry = Some e \<longrightarrow> entry_valid e)"
| "pc_backed h (GSet k entry data) \<longleftrightarrow>
     (\<exists>e t. entry = Some e \<and> (k, e, t) \<in> set h \<and> marshalPebbleEntry \<lparr>pe_Entry = e, pe_CachedAt = t\<rparr> = Inr data)"
| "pc_backed h pc \<longleftrightarrow> True"

definition store_backed :: "('db \<Rightarrow> string \<rightharpoonup> bytes) \<Rightarrow> 'db store_sys \<Rightarrow> bool" where
  "store_backed contents y \<longleftrightarrow>
     (\<forall>(k, e, t) \<in> set (delivered y). entry_valid e) \<and>
     (\<forall>db k v. pebbleDB (shared y) = Some db \<longrightarrow> contents db k = Some v \<longrightarrow>
        (\<exists>e t. (k, e, t) \<in> set (delivered y) \<and> marshalPebbleEntry \<lparr>pe_Entry = e, pe_CachedAt = t\<rparr> = Inr v)) \<and>
     (\<forall>pc \<in> set (threads y). pc_backed (delivered y) pc)"

lemma readL2_valid: "readL2 env s k = Inr (Some e) \<Longrightarrow> entry_valid e"
  by (auto elim!: readL2_hit dest: DecodeReadModel_valid(1))

lemma readL3_valid: "readL3 env s k = (s', Inr (Some e)) \<Longrightarrow> entry_valid e"
  by (auto elim!: readL3_hit dest: DecodeReadModel_valid(2))

lemma pc_step_cases:
  assumes "pc_step env pc s = Some r"
  obtains "get_step env pc s = Some r" | "invalidate_step env pc s = Some r" | "close_step env pc s = Some r"
  using assms by (auto simp: pc_step_def split: option.splits)

lemma deliver_mono: "set h \<subseteq> set (deliver env pc h)"
  by (induction env pc h rule: deliver.induct) auto

lemma pc_backed_mono: "pc_backed h pc \<Longrightarrow> set h \<subseteq> set h' \<Longrightarrow> pc_backed h' pc"
  by (cases pc) auto

text \<open>The next position of a thread is backed, and what it delivers is valid.\<close>

lemma get_step_backed:
  assumes "get_step env pc s = Some (Inr (pc', s'))" "pc_backed h pc"
  shows "pc_backed (deliver env pc' h) pc' \<and> (\<forall>x \<in> set (deliver env pc' h). x \<in> set h \<or> entry_valid (fst (snd x)))"
proof (cases pc)
  case (GReadL2 k)
  with assms show ?thesis by (auto dest: readL2_valid split: sum.splits option.splits)
next
  case (GReadL3 k)
  obtain t r where r: "readL3 env s k = (t, r)" by fastforce
  with GReadL3 assms show ?thesis by (cases r) (auto dest: readL3_valid)
next
  case (GCheckWrite k entry)
  with assms show ?thesis by (auto split: option.splits sum.splits)
qed (use assms in \<open>auto split: option.splits sum.splits if_splits\<close>)

lemma pc_step_backed:
  assumes "pc_step env pc s = Some (Inr (pc', s'))" "pc_backed h pc"
  shows "pc_backed (deliver env pc' h) pc' \<and> (\<forall>x \<in> set (deliver env pc' h). x \<in> set h \<or> entry_valid (fst (snd x)))"
  using assms(1)
proof (cases rule: pc_step_cases)
  case 1
  then show ?thesis using assms(2) by (rule get_step_backed)
next
  case 2
  then show ?thesis by (cases pc) (auto split: option.splits prod.splits if_splits)
next
  case 3
  then show ?thesis by (cases pc) (auto split: option.splits if_splits)
qed

text \<open>Only three actions touch the database.\<close>

lemma get_step_db:
  assumes "get_step env pc s = Some (Inr (pc', s'))"
  shows "pebbleDB s' = pebbleDB s \<or>
    (\<exists>k entry data db. pc = GSet k entry data \<and> pebbleDB s = Some db \<and>
       pebbleDB s' = Some (fst (pb_Set (se_pebble env) db k data)))"
  using assms by (cases pc) (auto dest!: readL3_frame split: option.splits prod.splits sum.splits)

lemma pc_step_db:
  assumes "pc_step env pc s = Some (Inr (pc', s'))" "pebbleDB s' = Some db'"
  obtains "pebbleDB s = Some db'"
  | k entry data db where "pc = GSet k entry data" "pebbleDB s = Some db" "db' = fst (pb_Set (se_pebble env) db k data)"
  | k db where "pc = IDelete k" "pebbleDB s = Some db" "db' = fst (pb_Delete (se_pebble env) db k)"
  using assms(1)
proof (cases rule: pc_step_cases)
  case 1
  with get_step_db[OF 1] assms(2) that show thesis by auto
next
  case 2
  with assms(2) that show thesis by (cases pc) (auto split: option.splits prod.splits if_splits)
next
  case 3
  with assms(2) that show thesis by (cases pc) (auto split: option.splits if_splits)
qed

lemma pc_step_contents:
  assumes "pebble_spec (se_pebble env) contents" "pc_step env pc s = Some (Inr (pc', s'))" "pc_backed h pc"
    and "pebbleDB s' = Some db'" "contents db' k = Some v"
  shows "(\<exists>e t. (k, e, t) \<in> set h \<and> marshalPebbleEntry \<lparr>pe_Entry = e, pe_CachedAt = t\<rparr> = Inr v) \<or>
    (\<exists>db. pebbleDB s = Some db \<and> contents db k = Some v)"
  using assms(2,4)
proof (cases rule: pc_step_db)
  case 1
  then show ?thesis using assms(5) by blast
next
  case (2 k' entry data db)
  obtain d err where "pb_Set (se_pebble env) db k' data = (d, err)" by fastforce
  with pebble_specD(3)[OF assms(1) this] 2 assms(3,5) show ?thesis by (auto split: if_splits) blast
next
  case (3 k' db)
  obtain d err where "pb_Delete (se_pebble env) db k' = (d, err)" by fastforce
  with pebble_specD(4)[OF assms(1) this] 3 assms(5) show ?thesis by (auto split: if_splits)
qed

lemma start_pc_backed: "pc_backed h (start_pc op)"
  by (cases op) simp_all

lemma store_do_backed:
  assumes "store_do a y = Some z" "store_backed contents y" "\<forall>i env. a = Act i env \<longrightarrow> pebble_spec (se_pebble env) contents"
  shows "store_backed contents z"
proof (cases a)
  case (Call i op)
  with assms(1,2) start_pc_backed show ?thesis
    by (auto simp: store_backed_def dest!: set_update_subset_insert[THEN subsetD] split: if_splits)
next
  case (Act i env)
  from assms(1) Act have i: "i < length (threads y)" by (auto split: if_splits)
  show ?thesis
  proof (cases "\<exists>e. pc_step env (threads y ! i) (shared y) = Some (Inl e)")
    case True
    with assms(1,2) Act show ?thesis by (auto simp: store_backed_def split: if_splits)
  next
    case False
    with assms(1) Act obtain pc s where st: "pc_step env (threads y ! i) (shared y) = Some (Inr (pc, s))"
      and z: "z = y\<lparr>shared := s, threads := (threads y)[i := pc], delivered := deliver env pc (delivered y)\<rparr>"
      by (auto split: if_splits option.splits sum.splits)
    let ?h = "delivered y" and ?h' = "deliver env pc (delivered y)"
    have pcs: "\<forall>p \<in> set (threads y). pc_backed ?h p" using assms(2) by (simp add: store_backed_def)
    with i have b: "pc_backed ?h (threads y ! i)" by simp
    note new = pc_step_backed[OF st b] and sub = deliver_mono[of ?h env pc]
    have "\<forall>p \<in> set ((threads y)[i := pc]). pc_backed ?h' p"
      using new pcs pc_backed_mono[OF _ sub] set_update_subset_insert[of "threads y" i pc] by blast
    moreover have "\<forall>(k, e, t) \<in> set ?h'. entry_valid e"
      using new assms(2) by (fastforce simp: store_backed_def)
    moreover have "\<exists>e t. (k, e, t) \<in> set ?h' \<and> marshalPebbleEntry \<lparr>pe_Entry = e, pe_CachedAt = t\<rparr> = Inr v"
      if "pebbleDB s = Some db" "contents db k = Some v" for db k v
    proof -
      have spec: "pebble_spec (se_pebble env) contents" using assms(3) Act by blast
      from pc_step_contents[OF spec st b that] assms(2) sub show ?thesis unfolding store_backed_def by blast
    qed
    ultimately show ?thesis by (simp add: store_backed_def z)
  qed
qed

interpretation conc: run_system store_do store_exec
  by unfold_locales simp_all

lemma store_exec_backed:
  assumes "store_exec as y = Some z" "store_backed contents y" "\<forall>i env. Act i env \<in> set as \<longrightarrow> pebble_spec (se_pebble env) contents"
  shows "store_backed contents z"
  by (rule conc.exec_inv[where P = "store_backed contents", OF _ assms(1,2)])
     (use assms(3) store_do_backed in blast)

lemma store_init_backed:
  "\<forall>db. pebbleDB s = Some db \<longrightarrow> contents db = Map.empty \<Longrightarrow> store_backed contents (store_init s n)"
  by (auto simp: store_backed_def store_init_def)

subsection \<open>The pointer\<close>

fun needs_db :: "store_pc \<Rightarrow> bool" where
  "needs_db (GGetL1 k) = True"
| "needs_db (GSet k entry data) = True"
| "needs_db (IDelete k) = True"
| "needs_db _ = False"

fun closing :: "store_pc \<Rightarrow> bool" where
  "closing CCheck = True"
| "closing CClose = True"
| "closing (CSetNil err) = True"
| "closing _ = False"

definition pointer_safe :: "'db store_sys \<Rightarrow> bool" where
  "pointer_safe y \<longleftrightarrow> failed y = None \<and>
     (\<forall>pc \<in> set (threads y). \<not> closing pc \<and> (needs_db pc \<longrightarrow> pebbleDB (shared y) \<noteq> None))"

lemma pc_step_pointer:
  assumes "pc_step env pc s = Some r" "\<not> closing pc" "needs_db pc \<longrightarrow> pebbleDB s \<noteq> None"
  obtains pc' s' where "r = Inr (pc', s')" "\<not> closing pc'" "needs_db pc' \<longrightarrow> pebbleDB s' \<noteq> None"
    "pebbleDB s \<noteq> None \<longrightarrow> pebbleDB s' \<noteq> None"
  using assms(1)
proof (cases rule: pc_step_cases)
  case 1
  with assms(3) that show thesis
    by (cases pc) (auto dest!: readL3_frame split: option.splits sum.splits prod.splits if_splits)
next
  case 2
  with assms(3) that show thesis by (cases pc) (auto split: option.splits prod.splits if_splits)
next
  case 3
  with assms(2) show thesis by (cases pc) auto
qed

lemma store_do_pointer:
  assumes "store_do a y = Some z" "pointer_safe y" "\<forall>i. a \<noteq> Call i OpClose"
  shows "pointer_safe z"
proof (cases a)
  case (Call i op)
  have "\<not> closing (start_pc op) \<and> \<not> needs_db (start_pc op)" using assms(3) Call by (cases op) auto
  with assms(1,2) Call show ?thesis
    by (auto simp: pointer_safe_def dest!: set_update_subset_insert[THEN subsetD] split: if_splits)
next
  case (Act i env)
  from assms(1) Act have i: "i < length (threads y)" by (auto split: if_splits)
  have pc: "\<not> closing (threads y ! i)" "needs_db (threads y ! i) \<longrightarrow> pebbleDB (shared y) \<noteq> None"
    using assms(2) nth_mem[OF i] unfolding pointer_safe_def by blast+
  from assms(1) Act obtain r where r: "pc_step env (threads y ! i) (shared y) = Some r"
    by (auto split: if_splits option.splits)
  obtain pc' s' where n: "r = Inr (pc', s')" "\<not> closing pc'" "needs_db pc' \<longrightarrow> pebbleDB s' \<noteq> None"
    "pebbleDB (shared y) \<noteq> None \<longrightarrow> pebbleDB s' \<noteq> None"
    by (rule pc_step_pointer[OF r pc])
  have "\<forall>p \<in> set ((threads y)[i := pc']). \<not> closing p \<and> (needs_db p \<longrightarrow> pebbleDB s' \<noteq> None)"
    using n(2-4) assms(2) set_update_subset_insert[of "threads y" i pc'] unfolding pointer_safe_def by blast
  with assms(1,2) Act r n(1) show ?thesis by (auto simp: pointer_safe_def split: if_splits)
qed

lemma store_exec_pointer:
  assumes "store_exec as y = Some z" "pointer_safe y" "\<forall>i. Call i OpClose \<notin> set as"
  shows "pointer_safe z"
  by (rule conc.exec_inv[where P = pointer_safe, OF _ assms(1,2)])
     (use assms(3) store_do_pointer in blast)

lemma store_init_pointer: "pointer_safe (store_init s n)"
  by (simp add: pointer_safe_def store_init_def)

text \<open>A lookup of the example store up to the point where it holds the entry of L2.\<close>

definition demo_fetch :: "mem_db store_act list" where
  "demo_fetch = Call 0 (OpGet ''a1'') # replicate 6 (Act 0 (demo_env 0))"

definition demo_held :: "mem_db store_sys" where
  "demo_held = (store_init demo_store 2)\<lparr>shared := demo_store\<lparr>l1Misses := 1, l2Hits := 1\<rparr>,
     threads := [GCheckWrite ''a1'' (Some demo_entry), Idle]\<rparr>"

lemma demo_fetched: "store_exec demo_fetch (store_init demo_store 2) = Some demo_held"
proof -
  have L2: "readL2 (demo_env 0) (demo_store\<lparr>l1Misses := c\<rparr>) ''a1'' = Inr (Some demo_entry)" for c
    using readL2_cfg[of "demo_store\<lparr>l1Misses := c\<rparr>" demo_store] demo_L2 by simp
  have "l1Misses demo_store = 0" "l2Hits demo_store = 0" by (simp_all add: demo_store_def fresh_store_def)
  with L2 demo_db show ?thesis
    by (simp add: demo_fetch_def store_init_def pc_step_def numeral_eq_Suc demo_held_def demo_pebble mem_api_def)
qed

section \<open>Properties\<close>

text \<open>C15: The concurrent store is still bounded in its staleness. With any number of threads that look
  up, invalidate and close in any interleaving from an empty L1, and with Pebble failing at will,
  an entry that a lookup takes from L1 was answered by L2 or L3 for the same key and written no
  longer ago than the TTL.\<close>

theorem concurrent_L1_staleness:
  assumes "\<forall>db. pebbleDB s = Some db \<longrightarrow> contents db = Map.empty"
    and "\<forall>j env'. Act j env' \<in> set as \<longrightarrow> pebble_spec (se_pebble env') contents" "pebble_spec (se_pebble env) contents"
    and "store_exec as (store_init s n) = Some y"
    and "pc_step env (GGetL1 k) (shared y) = Some (Inr (GHit e, t))"
  shows "\<exists>w. (k, e, w) \<in> set (delivered y) \<and> time_Sub (se_readNow env) w \<le> L1TTL (ts_cfg (shared y))"
proof -
  have inv: "store_backed contents y" by (rule store_exec_backed[OF assms(4) store_init_backed[OF assms(1)] assms(2)])
  from assms(5) obtain db v pe where h: "pebbleDB (shared y) = Some db" "pb_Get (se_pebble env) db k = Inr v"
    "json_Unmarshal (decodePebbleEntry (se_timeParse env)) zero_pebbleEntry v = Inr pe" "e = pe_Entry pe"
    "time_Sub (se_readNow env) (pe_CachedAt pe) \<le> L1TTL (ts_cfg (shared y))"
    by (auto simp: pc_step_def not_less split: option.splits sum.splits if_splits)
  have "contents db k = Some v" using pebble_specD(1)[OF assms(3) h(2)] .
  with inv h(1) obtain e' w where d: "(k, e', w) \<in> set (delivered y)"
    "marshalPebbleEntry \<lparr>pe_Entry = e', pe_CachedAt = w\<rparr> = Inr v" unfolding store_backed_def by blast
  with inv have "entry_valid e'" by (auto simp: store_backed_def)
  with pebbleEntry_round_trip[OF d(2)] h(3) have "pe = \<lparr>pe_Entry = e', pe_CachedAt = w\<rparr>" by simp
  with d(1) h(4,5) show ?thesis by auto
qed

theorem concurrent_L1_staleness_witness:
  "\<exists>y w. store_exec (demo_fetch @ [Act 0 (demo_env 0), Act 0 (demo_env 0)]) (store_init demo_store 2) = Some y \<and>
     (''a1'', demo_entry, w) \<in> set (delivered y) \<and> time_Sub (30 * Second) w \<le> L1TTL (ts_cfg (shared y))"
proof -
  let ?as = "demo_fetch @ [Act 0 (demo_env 0), Act 0 (demo_env 0)]"
  let ?w = "writeL1 (demo_env 0) (demo_store\<lparr>l1Misses := 1, l2Hits := 1\<rparr>) ''a1'' (Some demo_entry)"
  obtain v where v: "marshalPebbleEntry \<lparr>pe_Entry = demo_entry, pe_CachedAt = se_writeNow (demo_env 0)\<rparr> = Inr v"
    using demo_time(1) by (auto simp: marshalPebbleEntry_def)
  have "store_exec ?as (store_init demo_store 2) = store_exec [Act 0 (demo_env 0), Act 0 (demo_env 0)] demo_held"
    by (simp add: conc.exec_append demo_fetched del: store_exec.simps)
  moreover have "\<exists>y. store_exec [Act 0 (demo_env 0), Act 0 (demo_env 0)] demo_held = Some y \<and> shared y = ?w"
    using demo_db v by (simp add: demo_held_def store_init_def pc_step_def writeL1_def)
  ultimately obtain y where y: "store_exec ?as (store_init demo_store 2) = Some y" "shared y = ?w" by auto
  have hit: "readL1 (demo_env (30 * Second)) ?w ''a1'' = Some demo_entry" by (rule demo_warm)
  have "pc_step (demo_env (30 * Second)) (GGetL1 ''a1'') ?w = Some (Inr (GHit demo_entry, ?w))"
    using hit by (auto simp: readL1_def pc_step_def split: option.splits sum.splits if_splits)
  with y(2) have st: "pc_step (demo_env (30 * Second)) (GGetL1 ''a1'') (shared y) = Some (Inr (GHit demo_entry, ?w))" by simp
  have "\<forall>db. pebbleDB demo_store = Some db \<longrightarrow> mem_map db = Map.empty" using demo_db by auto
  moreover have "\<forall>j env'. Act j env' \<in> set ?as \<longrightarrow> pebble_spec (se_pebble env') mem_map"
    using demo_spec by (auto simp: demo_fetch_def)
  ultimately show ?thesis
    using concurrent_L1_staleness[OF _ _ demo_spec y(1) st] y(1) by (auto simp: demo_env_def)
qed

text \<open>Without a \<open>Close\<close> no interleaving of lookups and invalidations panics.\<close>

theorem concurrent_store_no_panic:
  assumes "store_exec as (store_init s n) = Some y" "\<forall>i. Call i OpClose \<notin> set as"
  shows "failed y = None"
  using store_exec_pointer[OF assms(1) store_init_pointer assms(2)] by (simp add: pointer_safe_def)

theorem concurrent_store_no_panic_witness:
  "\<exists>y. store_exec demo_fetch (store_init demo_store 2) = Some y \<and> failed y = None"
  using concurrent_store_no_panic[OF demo_fetched] demo_fetched by (simp add: demo_fetch_def)

text \<open>C16: A lookup that runs alone is the sequential \<open>Get\<close>: its actions in a row end, within eleven, in
  the state and the answer of the one-step operation.\<close>

theorem Get_refines: "get_alone 11 env (GStart k) s = Some (Inr (store_Get env s k))"
proof -
  have eleven: "(11::nat) = Suc (Suc (Suc (Suc (Suc (Suc (Suc (Suc (Suc (Suc (Suc 0))))))))))" by simp
  note step = get_alone.simps(2)[of _ _ "GStart k"] get_alone.simps(2)[of _ _ "GCheckL1 k"] get_alone.simps(2)[of _ _ "GGetL1 k"]
  show ?thesis
    unfolding eleven
    by (simp add: step store_Get_def readL1_def split: option.splits sum.splits)
qed

text \<open>C38: An invalidation can be lost. When it comes while a lookup of the same asset holds the entry that
  L2 or L3 gave it and has not written it to L1 yet, the invalidation reports success, the lookup
  then writes the old entry, and lookups within the TTL get it from L1, whatever L2 and L3 hold by
  then.\<close>

theorem invalidation_lost:
  assumes "pebble_reliable (se_pebble env) contents ok" "pebbleDB (shared y) = Some db" "ok db"
    and "i < length (threads y)" "j < length (threads y)" "i \<noteq> j" "failed y = None"
    and "threads y ! i = GCheckWrite k (Some e)" "finished (threads y ! j)" "k \<noteq> ''''" "entry_valid e"
    and "MarshalTime (se_writeNow env) \<noteq> None" "se_pebble env' = se_pebble env"
    and "time_Sub (se_readNow env') (se_writeNow env) \<le> L1TTL (ts_cfg (shared y))"
  shows "\<exists>z. store_exec ([Call j (OpInvalidate k), Act j env, Act j env, Act j env] @ [Act i env, Act i env] @
       [Call i (OpGet k), Act i env', Act i env', Act i env', Act i env']) y = Some z \<and>
     threads z ! j = IReturn None \<and> threads z ! i = GReturn (Inr (Some e))"
proof -
  obtain db1 where del: "pb_Delete (se_pebble env) db k = (db1, None)" "ok db1"
    using assms(1,3) unfolding pebble_reliable_def by blast
  let ?pe = "\<lparr>pe_Entry = e, pe_CachedAt = se_writeNow env\<rparr>"
  obtain v where v: "marshalPebbleEntry ?pe = Inr v" using assms(12) by (auto simp: marshalPebbleEntry_def)
  have get: "pb_Get (se_pebble env) (fst (pb_Set (se_pebble env) db1 k v)) k = Inr v"
    by (rule pebble_reliable_SetGet[OF assms(1) del(2)])
  have "json_Unmarshal (decodePebbleEntry (se_timeParse env')) zero_pebbleEntry v = Inr ?pe"
    using pebbleEntry_round_trip[OF v] assms(11) by simp
  with assms del v get show ?thesis by (simp add: pc_step_def nth_list_update)
qed

theorem invalidation_lost_witness:
  "\<exists>z. store_exec (demo_fetch @ [Call 1 (OpInvalidate ''a1''), Act 1 (demo_env 0), Act 1 (demo_env 0), Act 1 (demo_env 0)] @
        [Act 0 (demo_env 0), Act 0 (demo_env 0)] @
        [Call 0 (OpGet ''a1''), Act 0 (demo_env (30 * Second)), Act 0 (demo_env (30 * Second)), Act 0 (demo_env (30 * Second)),
         Act 0 (demo_env (30 * Second))]) (store_init demo_store 2) = Some z \<and>
     threads z ! 1 = IReturn None \<and> threads z ! 0 = GReturn (Inr (Some demo_entry))"
proof -
  have y: "pebbleDB (shared demo_held) = Some \<lparr>mem_map = Map.empty, mem_fails = False\<rparr>" "failed demo_held = None"
    "0 < length (threads demo_held)" "1 < length (threads demo_held)"
    "threads demo_held ! 0 = GCheckWrite ''a1'' (Some demo_entry)" "finished (threads demo_held ! 1)"
    using demo_db by (simp_all add: demo_held_def store_init_def)
  have valid: "entry_valid demo_entry" by (rule store_Get_valid[OF demo_Get demo_L1])
  have ttl: "time_Sub (se_readNow (demo_env (30 * Second))) (se_writeNow (demo_env 0)) \<le> L1TTL (ts_cfg (shared demo_held))"
    using demo_time(2) by (simp add: demo_held_def)
  have "se_pebble (demo_env (30 * Second)) = se_pebble (demo_env 0)" by (simp add: demo_pebble)
  from invalidation_lost[OF demo_reliable y(1) _ y(3,4) _ y(2,5,6) _ valid demo_time(1) this ttl]
  show ?thesis unfolding conc.exec_append demo_fetched by simp
qed

text \<open>Shutdown can take the broker down. The fanout goroutine may be between its test of the
  \<open>pebbleDB\<close> pointer and its use when \<open>Close\<close> sets the pointer to nil: the delete then goes through a
  nil pointer and panics.\<close>

theorem close_race_panics:
  assumes "pebbleDB s = Some db" "k \<noteq> ''''"
  shows "\<exists>y. store_exec ([Call 1 (OpInvalidate k), Act 1 env, Act 1 env] @
      [Call 0 OpClose, Act 0 env, Act 0 env, Act 0 env] @ [Act 1 env]) (store_init s 2) = Some y \<and>
    failed y = Some NilDereference"
  using assms by (simp add: store_init_def pc_step_def numeral_2_eq_2)

theorem close_race_panics_witness:
  "\<exists>y. store_exec ([Call 1 (OpInvalidate ''a1''), Act 1 (demo_env 0), Act 1 (demo_env 0)] @
      [Call 0 OpClose, Act 0 (demo_env 0), Act 0 (demo_env 0), Act 0 (demo_env 0)] @ [Act 1 (demo_env 0)])
      (store_init demo_store 2) = Some y \<and> failed y = Some NilDereference"
  by (rule close_race_panics[of demo_store "\<lparr>mem_map = Map.empty, mem_fails = False\<rparr>"]) (use demo_db in simp_all)

end
