(* ===== verification/Fanout.thy ===== *)
theory Fanout
  imports AuthStore
begin

text \<open>
  \<^verbatim>\<open>src/fanout_consumer.go\<close>: the consumer of cache invalidations. The AuthStore it holds is shared
  with the plugin runtime, so a handler takes and returns the store beside the consumer;
  \<open>invalidate\<close> is the store's \<open>Invalidate\<close>. The NATS subscription is outside: whether
  \<open>Subscribe\<close> and \<open>Drain\<close> report an error is an argument.
\<close>

section \<open>Definitions\<close>

text \<open>The single field of \<open>FanoutInvalidatePayload\<close>: the struct is its string.\<close>

definition decodeFanoutPayload :: "string fieldDecoder" where
  "decodeFanoutPayload = decodeStruct [(''assetUUID'', decodeString (\<lambda>s r. s))]"

record FanoutConsumer =
  fc_subject :: string
  fc_sub :: bool
  fc_closed :: bool
  fc_processed :: counter
  fc_dropped :: counter

definition NewFanoutConsumer :: "bool \<Rightarrow> bool \<Rightarrow> string \<Rightarrow> FanoutConsumer result" where
  "NewFanoutConsumer conn_nil store_nil subject =
     (if conn_nil then Inl (ErrText ''nats conn is required'')
      else if store_nil then Inl (ErrText ''auth store is required'')
      else Inr \<lparr>fc_subject = (if subject = '''' then ''mapexos.fanout.asset.invalidate'' else subject),
                fc_sub = False, fc_closed = False, fc_processed = 0, fc_dropped = 0\<rparr>)"

definition fanout_Start :: "go_error option \<Rightarrow> FanoutConsumer \<Rightarrow> FanoutConsumer \<times> go_error option" where
  "fanout_Start subscribeErr c =
     (if fc_sub c then (c, Some (ErrText ''fanout consumer already started''))
      else if fc_closed c then (c, Some (ErrText ''fanout consumer is closed''))
      else case subscribeErr of
             Some err \<Rightarrow> (c, Some err)
           | None \<Rightarrow> (c\<lparr>fc_sub := True\<rparr>, None))"

text \<open>An error of the subscription's own \<open>Drain\<close> is logged only.\<close>

definition fanout_Stop :: "go_error option \<Rightarrow> FanoutConsumer \<Rightarrow> FanoutConsumer \<times> go_error option" where
  "fanout_Stop drainErr c =
     (if fc_closed c then (c, None)
      else let c = c\<lparr>fc_closed := True\<rparr> in
           if \<not> fc_sub c then (c, None) else (c\<lparr>fc_sub := False\<rparr>, None))"

definition fanout_handle ::
    "('s \<Rightarrow> string \<Rightarrow> 's \<times> go_error option) \<Rightarrow> bytes \<Rightarrow> FanoutConsumer \<times> 's \<Rightarrow> FanoutConsumer \<times> 's" where
  "fanout_handle invalidate data cs =
     (case cs of (c, store) \<Rightarrow>
      case json_Unmarshal decodeFanoutPayload '''' data of
        Inl err \<Rightarrow> (c\<lparr>fc_dropped := fc_dropped c + 1\<rparr>, store)
      | Inr assetUUID \<Rightarrow>
          if assetUUID = '''' then (c\<lparr>fc_dropped := fc_dropped c + 1\<rparr>, store)
          else (case invalidate store assetUUID of
                  (store, Some err) \<Rightarrow> (c\<lparr>fc_dropped := fc_dropped c + 1\<rparr>, store)
                | (store, None) \<Rightarrow> (c\<lparr>fc_processed := fc_processed c + 1\<rparr>, store)))"

definition fanout_counts :: "FanoutConsumer \<Rightarrow> counter \<times> counter" where
  "fanout_counts c = (fc_processed c, fc_dropped c)"

subsection \<open>Specification side\<close>

text \<open>What the assets service publishes for an asset: the identifier, and other members.\<close>

definition invalidation_text :: "string \<Rightarrow> (string \<times> json) list \<Rightarrow> bytes" where
  "invalidation_text assetUUID others = json_text (JObj ((''assetUUID'', jstring assetUUID) # others))"

text \<open>The calls of a consumer's life.\<close>

datatype fanout_call = CallStart "go_error option" | CallStop "go_error option"

fun fanout_do :: "fanout_call \<Rightarrow> FanoutConsumer \<Rightarrow> FanoutConsumer \<times> go_error option" where
  "fanout_do (CallStart e) c = fanout_Start e c"
| "fanout_do (CallStop e) c = fanout_Stop e c"

text \<open>The successful \<open>Start\<close> calls of a sequence, and the consumer after it.\<close>

fun fanout_life :: "fanout_call list \<Rightarrow> FanoutConsumer \<Rightarrow> nat \<times> FanoutConsumer" where
  "fanout_life [] c = (0, c)"
| "fanout_life (call # calls) c =
     (case fanout_do call c of (c', err) \<Rightarrow>
      case fanout_life calls c' of (n, c'') \<Rightarrow>
        ((case call of CallStart _ \<Rightarrow> if err = None then n + 1 else n | CallStop _ \<Rightarrow> n), c''))"

section \<open>Lemmas\<close>

lemma decode_invalidation:
  assumes "validUTF8 k" "\<forall>(n, v) \<in> set others. plainName n \<and> wf_json 1 v"
    and "\<forall>(n, v) \<in> set others. \<not> keyFold n ''assetUUID''"
  shows "json_Unmarshal decodeFanoutPayload '''' (invalidation_text k others) = Inr k"
proof -
  let ?j = "JObj ((''assetUUID'', jstring k) # others)"
  have name: "plainName ''assetUUID''" by simp
  have wf: "wf_json (Suc 1) ?j"
    using assms(2) name by (auto simp: wf_jstring plainName_rawOk)
  have scan: "json_scan (invalidation_text k others) = Some ?j"
    unfolding invalidation_text_def
    by (rule json_scan_text, rule wf_json_mono[OF wf]) (simp add: maxNestingDepth_def)
  have skip: "decodeMembers [(''assetUUID'', decodeString (\<lambda>s r. s))] others r = (r, False)" for r
    using assms(2,3)
  proof (induction others)
    case (Cons nv others)
    obtain n v where nv: "nv = (n, v)" by fastforce
    have "n \<noteq> ''assetUUID''" using Cons.prems(2) nv by (auto simp: keyFold_def)
    then have "lookupField [(''assetUUID'', decodeString (\<lambda>s r. s))] n = None"
      using Cons.prems(2) nv by (simp add: lookupField_def)
    then show ?case using Cons nv by (simp add: plainName_unquote)
  qed simp
  show ?thesis
    using assms(1) skip name
    by (simp add: json_Unmarshal_def json_finish_def scan decodeFanoutPayload_def struct_decode_simps)
qed

lemma fanout_handle_valid:
  assumes "json_Unmarshal decodeFanoutPayload '''' data = Inr k" "k \<noteq> ''''"
  shows "fanout_handle invalidate data (c, s) =
    (case invalidate s k of (s', err) \<Rightarrow>
       (if err = None then c\<lparr>fc_processed := fc_processed c + 1\<rparr> else c\<lparr>fc_dropped := fc_dropped c + 1\<rparr>, s'))"
  using assms by (simp add: fanout_handle_def split: prod.splits option.splits)

text \<open>A consumer that has subscribed or stopped never subscribes again; a stopped one stays as it is.\<close>

lemma fanout_Start_again: "fc_sub c \<or> fc_closed c \<Longrightarrow> \<exists>err. fanout_Start e c = (c, Some err)"
  by (auto simp: fanout_Start_def)

lemma fanout_Start_fresh:
  "\<not> fc_sub c \<Longrightarrow> \<not> fc_closed c \<Longrightarrow>
   fanout_Start e c = (case e of None \<Rightarrow> (c\<lparr>fc_sub := True\<rparr>, None) | Some err \<Rightarrow> (c, Some err))"
  by (simp add: fanout_Start_def)

lemma fanout_Stop_closes:
  "\<exists>c'. fanout_Stop e c = (c', None) \<and> fc_closed c' \<and>
     (if fc_closed c then c' = c else \<not> fc_sub c')"
  by (auto simp: fanout_Stop_def Let_def)

lemma fanout_life_no_start: "fc_sub c \<or> fc_closed c \<Longrightarrow> fst (fanout_life calls c) = 0"
proof (induction calls arbitrary: c)
  case (Cons call calls)
  show ?case
  proof (cases call)
    case (CallStart e)
    then show ?thesis
      using Cons fanout_Start_again[of c e] by (auto simp: case_prod_beta)
  next
    case (CallStop e)
    then show ?thesis
      using Cons.IH fanout_Stop_closes[of e c] by (auto simp: case_prod_beta)
  qed
qed simp

lemma fanout_life_starts: "\<not> fc_sub c \<Longrightarrow> \<not> fc_closed c \<Longrightarrow> fst (fanout_life calls c) \<le> 1"
proof (induction calls arbitrary: c)
  case (Cons call calls)
  show ?case
  proof (cases call)
    case (CallStart e)
    then show ?thesis
      using Cons fanout_life_no_start[of "c\<lparr>fc_sub := True\<rparr>" calls]
      by (cases e) (simp_all add: fanout_Start_fresh case_prod_beta)
  next
    case (CallStop e)
    then show ?thesis
      using fanout_Stop_closes[of e c] fanout_life_no_start[of _ calls] by (auto simp: case_prod_beta)
  qed
qed simp

lemma fanout_life_closed: "fc_closed c \<Longrightarrow> \<not> fc_sub c \<Longrightarrow> snd (fanout_life calls c) = c"
proof (induction calls)
  case (Cons call calls)
  have "fanout_Start e c = (c, Some (ErrText ''fanout consumer is closed''))" "fanout_Stop e c = (c, None)" for e
    using Cons.prems by (simp_all add: fanout_Start_def fanout_Stop_def)
  with Cons show ?case by (cases call) (simp_all add: case_prod_beta)
qed simp

lemma fanout_life_stopped:
  "CallStop e \<in> set calls \<Longrightarrow> \<not> fc_closed c \<Longrightarrow>
     fc_closed (snd (fanout_life calls c)) \<and> \<not> fc_sub (snd (fanout_life calls c))"
proof (induction calls arbitrary: c)
  case (Cons call calls)
  show ?case
  proof (cases call)
    case (CallStart x)
    obtain c' err where st: "fanout_Start x c = (c', err)" by fastforce
    then have "\<not> fc_closed c'" using Cons.prems(2) by (auto simp: fanout_Start_def split: if_splits option.splits)
    then show ?thesis using Cons CallStart st by (simp add: case_prod_beta)
  next
    case (CallStop x)
    obtain c' where "fanout_Stop x c = (c', None)" "fc_closed c'" "\<not> fc_sub c'"
      using fanout_Stop_closes[of x c] Cons.prems(2) by auto
    then show ?thesis using CallStop by (simp add: case_prod_beta fanout_life_closed)
  qed
qed simp

section \<open>Properties\<close>

text \<open>An invalidation takes effect: after the consumer handles the message the assets service
  publishes for an asset, and Pebble reports the delete done, the next lookup of that asset
  answers as a store without L1, so from L2 or L3; the message counts as processed.\<close>

lemma fanout_forces_refresh:
  assumes "pebble_spec (se_pebble env) contents" "se_pebble env' = se_pebble env"
    and "validUTF8 k" "k \<noteq> ''''" "\<forall>(n, v) \<in> set others. plainName n \<and> wf_json 1 v"
    and "\<forall>(n, v) \<in> set others. \<not> keyFold n ''assetUUID''"
    and "snd (store_Invalidate env s k) = None"
    and "fanout_handle (store_Invalidate env) (invalidation_text k others) (c, s) = (c', s')"
  shows "c' = c\<lparr>fc_processed := fc_processed c + 1\<rparr> \<and>
    snd (store_Get env' s' k) = snd (store_Get env' (s\<lparr>pebbleDB := None\<rparr>) k)"
proof -
  note dec = fanout_handle_valid[OF decode_invalidation[OF assms(3,5,6)] assms(4), of "store_Invalidate env" c s]
  obtain t where t: "store_Invalidate env s k = (t, None)" using assms(7) by (metis prod.collapse)
  with dec assms(8) have "s' = t" "c' = c\<lparr>fc_processed := fc_processed c + 1\<rparr>" by simp_all
  with Invalidate_refresh[OF assms(1,2) t] show ?thesis by simp
qed

theorem fanout_forces_refresh_witness:
  "snd (store_Get (demo_env 1) (snd (fanout_handle (store_Invalidate (demo_env 0)) (invalidation_text ''a1'' [])
      (\<lparr>fc_subject = ''s'', fc_sub = True, fc_closed = False, fc_processed = 0, fc_dropped = 0\<rparr>, demo_store))) ''a1'')
   = snd (store_Get (demo_env 1) (demo_store\<lparr>pebbleDB := None\<rparr>) ''a1'')"
proof -
  let ?c = "\<lparr>fc_subject = ''s'', fc_sub = True, fc_closed = False, fc_processed = 0, fc_dropped = 0\<rparr>"
  obtain c' s' where h: "fanout_handle (store_Invalidate (demo_env 0)) (invalidation_text ''a1'' []) (?c, demo_store) = (c', s')"
    by fastforce
  have "se_pebble (demo_env 1) = se_pebble (demo_env 0)" "validUTF8 ''a1''"
    "snd (store_Invalidate (demo_env 0) demo_store ''a1'') = None"
    by (simp_all add: demo_pebble validUTF8_ascii byte_def store_Invalidate_def demo_store_def mem_api_def
        fresh_store_def Let_def)
  from fanout_forces_refresh[OF demo_spec this(1,2) _ _ _ this(3) h] show ?thesis by (simp add: h)
qed

text \<open>Every message is counted under exactly one of processed and dropped, whatever its bytes,
  and a message that does not decode to a non-empty identifier leaves the store alone.\<close>

lemma fanout_handle_accounts:
  "fc_processed (fst (fanout_handle invalidate data (c, s))) + fc_dropped (fst (fanout_handle invalidate data (c, s)))
     = fc_processed c + fc_dropped c + 1 \<and>
   (json_Unmarshal decodeFanoutPayload '''' data \<in> insert (Inr '''') (range Inl) \<longrightarrow>
     snd (fanout_handle invalidate data (c, s)) = s)"
  by (auto simp: fanout_handle_def split: sum.splits prod.splits option.splits)

theorem fanout_handle_accounts_witness:
  "snd (fanout_handle (\<lambda>s k. (Suc s, None)) ''''
     (\<lparr>fc_subject = ''s'', fc_sub = True, fc_closed = False, fc_processed = 0, fc_dropped = 0\<rparr>, 0 :: nat)) = 0"
proof -
  have "json_Unmarshal decodeFanoutPayload '''' '''' = Inl (ErrText ''json: syntax error'')"
    by (simp add: json_Unmarshal_def json_finish_def json_scan_def scanFuel_def skipWs_def)
  then show ?thesis using fanout_handle_accounts[of "\<lambda>s k. (Suc s, None)" "''''"
      "\<lparr>fc_subject = ''s'', fc_sub = True, fc_closed = False, fc_processed = 0, fc_dropped = 0\<rparr>" 0]
    by simp
qed

text \<open>The life cycle over any sequence of calls of \<open>Start\<close> and \<open>Stop\<close> on a new consumer: at most
  one \<open>Start\<close> succeeds, and once a \<open>Stop\<close> is among the calls the consumer ends closed and
  unsubscribed.\<close>

lemma fanout_life_cycle:
  assumes "NewFanoutConsumer conn_nil store_nil subject = Inr c"
  shows "fst (fanout_life calls c) \<le> 1 \<and>
    ((\<exists>e. CallStop e \<in> set calls) \<longrightarrow>
       fc_closed (snd (fanout_life calls c)) \<and> \<not> fc_sub (snd (fanout_life calls c)))"
proof -
  have "\<not> fc_sub c" "\<not> fc_closed c" using assms by (auto simp: NewFanoutConsumer_def split: if_splits)
  then show ?thesis using fanout_life_starts[of c calls] fanout_life_stopped[of _ calls c] by blast
qed

theorem fanout_life_cycle_witness:
  "fst (fanout_life [CallStart None, CallStop None, CallStart None]
      \<lparr>fc_subject = ''s'', fc_sub = False, fc_closed = False, fc_processed = 0, fc_dropped = 0\<rparr>) \<le> 1"
  using fanout_life_cycle[of False False "''s''"
      "\<lparr>fc_subject = ''s'', fc_sub = False, fc_closed = False, fc_processed = 0, fc_dropped = 0\<rparr>"
      "[CallStart None, CallStop None, CallStart None]"]
  by (simp add: NewFanoutConsumer_def)

end
