(* ===== verification/Acl.thy ===== *)
theory Acl
  imports GoStrings
begin

text \<open>
  \<^verbatim>\<open>src/acl.go\<close>: the pure access check of MOSQ_EVT_ACL_CHECK. \<open>CheckACL\<close> is characterised exactly,
  two devices are shown to have disjoint topics, and a granted subscription filter is shown to
  match only topics of its own device under the MQTT wildcard rules.
\<close>

section \<open>Definitions\<close>

definition AccessRead :: int where "AccessRead = 1"
definition AccessWrite :: int where "AccessWrite = 2"
definition AccessSubscribe :: int where "AccessSubscribe = 4"
definition AccessUnsubscribe :: int where "AccessUnsubscribe = 8"

definition TopicPrefixEvents :: string where "TopicPrefixEvents = ''events''"
definition TopicPrefixCommands :: string where "TopicPrefixCommands = ''commands''"

text \<open>The \<^verbatim>\<open>(value, ok)\<close> results of the two parsers are options.\<close>

definition parseUsername :: "string \<Rightarrow> string option" where
  "parseUsername username =
     (if username = '''' then None
      else if ContainsRune username (byte (CHR '':'')) then None
      else Some username)"

definition parseTopic :: "string \<Rightarrow> (string \<times> string) option" where
  "parseTopic topic =
     (if topic = '''' then None
      else let parts = SplitN 3 (CHR ''/'') topic in
        if length parts < 2 then None
        else let prefix = parts ! 0; assetUUID = parts ! 1 in
          if prefix = '''' \<or> assetUUID = '''' then None
          else Some (prefix, assetUUID))"

definition CheckACL :: "string \<Rightarrow> string \<Rightarrow> int \<Rightarrow> bool" where
  "CheckACL username topic acc =
     (case parseUsername username of
        None \<Rightarrow> False
      | Some assetUUID \<Rightarrow>
          (case parseTopic topic of
             None \<Rightarrow> False
           | Some (prefix, tAsset) \<Rightarrow>
               if tAsset \<noteq> assetUUID then False
               else if prefix = TopicPrefixEvents then acc = AccessWrite
               else if prefix = TopicPrefixCommands then acc = AccessRead \<or> acc = AccessSubscribe
               else False))"

text \<open>
  Specification side: the topics of one device below a prefix, and MQTT's matching of a
  subscription filter against a topic, level by level (\<open>+\<close> is one level, a final \<open>#\<close> any number).
\<close>

definition device_topic :: "string \<Rightarrow> string \<Rightarrow> string \<Rightarrow> bool" where
  "device_topic prefix u t \<longleftrightarrow>
     t = prefix @ ''/'' @ u \<or> (\<exists>rest. t = prefix @ ''/'' @ u @ ''/'' @ rest)"

function levels :: "string \<Rightarrow> string list" where
  "levels t = (if CHR ''/'' \<in> set t
     then takeWhile (\<lambda>c. c \<noteq> CHR ''/'') t # levels (tl (dropWhile (\<lambda>c. c \<noteq> CHR ''/'') t))
     else [t])"
  by pat_completeness auto
termination
proof (relation "measure length")
  fix t :: string
  assume "CHR ''/'' \<in> set t"
  then have "length t = length (takeWhile (\<lambda>c. c \<noteq> CHR ''/'') t)
      + Suc (length (tl (dropWhile (\<lambda>c. c \<noteq> CHR ''/'') t)))"
    by (metis split_at_sep length_append length_Cons)
  then show "(tl (dropWhile (\<lambda>c. c \<noteq> CHR ''/'') t), t) \<in> measure length" by simp
qed simp

declare levels.simps [simp del]

fun filter_matches :: "string list \<Rightarrow> string list \<Rightarrow> bool" where
  "filter_matches [] [] = True"
| "filter_matches [] (t # ts) = False"
| "filter_matches (f # fs) ts =
     (if f = ''#'' \<and> fs = [] then True
      else case ts of
             [] \<Rightarrow> False
           | t # ts' \<Rightarrow> (f = ''+'' \<or> f = t) \<and> filter_matches fs ts')"

section \<open>Lemmas\<close>

lemma byte_colon: "byte (CHR '':'') = 58" "byte (CHR '':'') < 0x80"
  by (simp_all add: byte_def)

lemma parseUsername_Some_iff:
  "parseUsername u = Some a \<longleftrightarrow> a = u \<and> u \<noteq> '''' \<and> CHR '':'' \<notin> set u"
  using ContainsRune_ascii[OF byte_colon(2), of u] by (auto simp: parseUsername_def)

lemma parseUsername_None_iff: "parseUsername u = None \<longleftrightarrow> u = '''' \<or> CHR '':'' \<in> set u"
  using ContainsRune_ascii[OF byte_colon(2), of u] by (auto simp: parseUsername_def)

lemma SplitN3_one: "CHR ''/'' \<notin> set t \<Longrightarrow> SplitN 3 (CHR ''/'') t = [t]"
  by (simp add: numeral_3_eq_3)

lemma SplitN3_two:
  "CHR ''/'' \<notin> set p \<Longrightarrow> CHR ''/'' \<notin> set a \<Longrightarrow> SplitN 3 (CHR ''/'') (p @ CHR ''/'' # a) = [p, a]"
  by (simp add: numeral_3_eq_3 takeWhile_sep_append)

lemma SplitN3_three:
  "CHR ''/'' \<notin> set p \<Longrightarrow> CHR ''/'' \<notin> set a \<Longrightarrow>
   SplitN 3 (CHR ''/'') (p @ CHR ''/'' # a @ CHR ''/'' # r) = [p, a, r]"
  by (simp add: numeral_3_eq_3 takeWhile_sep_append)

lemma parse_sep_cases:
  obtains (none) "CHR ''/'' \<notin> set t"
  | (one) p a where "t = p @ CHR ''/'' # a" "CHR ''/'' \<notin> set p" "CHR ''/'' \<notin> set a"
  | (two) p a r where "t = p @ CHR ''/'' # a @ CHR ''/'' # r" "CHR ''/'' \<notin> set p" "CHR ''/'' \<notin> set a"
  by (metis split_list_first)

lemma parseTopic_Some_iff:
  "parseTopic t = Some (p, a) \<longleftrightarrow>
     p \<noteq> '''' \<and> a \<noteq> '''' \<and> CHR ''/'' \<notin> set p \<and> CHR ''/'' \<notin> set a \<and> device_topic p a t"
proof (cases t rule: parse_sep_cases)
  case none
  then show ?thesis by (auto simp: parseTopic_def Let_def SplitN3_one device_topic_def)
next
  case (one p' a')
  have "parseTopic t = (if p' = '''' \<or> a' = '''' then None else Some (p', a'))"
    by (simp add: parseTopic_def Let_def one SplitN3_two)
  moreover have "device_topic p a t \<longleftrightarrow> p = p' \<and> a = a'"
    if "CHR ''/'' \<notin> set p" "CHR ''/'' \<notin> set a"
    using that one by (auto simp: device_topic_def append_eq_append_conv2 append_eq_Cons_conv
        Cons_eq_append_conv)
  ultimately show ?thesis using one(2,3) by auto
next
  case (two p' a' r')
  have "parseTopic t = (if p' = '''' \<or> a' = '''' then None else Some (p', a'))"
    by (simp add: parseTopic_def Let_def two SplitN3_three)
  moreover have "device_topic p a t \<longleftrightarrow> p = p' \<and> a = a'"
    if "CHR ''/'' \<notin> set p" "CHR ''/'' \<notin> set a"
    using that two by (auto simp: device_topic_def append_eq_append_conv2 append_eq_Cons_conv
        Cons_eq_append_conv)
  ultimately show ?thesis using two(2,3) by auto
qed

lemma CheckACL_iff_device_topic:
  "CheckACL u t acc \<longleftrightarrow>
     u \<noteq> '''' \<and> CHR '':'' \<notin> set u \<and> CHR ''/'' \<notin> set u \<and>
     (device_topic TopicPrefixEvents u t \<and> acc = AccessWrite \<or>
      device_topic TopicPrefixCommands u t \<and> (acc = AccessRead \<or> acc = AccessSubscribe))"
proof -
  have pt: "parseTopic t = Some (p, u) \<longleftrightarrow>
      p \<noteq> '''' \<and> u \<noteq> '''' \<and> CHR ''/'' \<notin> set p \<and> CHR ''/'' \<notin> set u \<and> device_topic p u t" for p
    by (rule parseTopic_Some_iff)
  have "CheckACL u t acc \<longleftrightarrow> u \<noteq> '''' \<and> CHR '':'' \<notin> set u \<and>
      (parseTopic t = Some (TopicPrefixEvents, u) \<and> acc = AccessWrite \<or>
       parseTopic t = Some (TopicPrefixCommands, u) \<and> (acc = AccessRead \<or> acc = AccessSubscribe))"
    by (auto simp: CheckACL_def parseUsername_Some_iff parseUsername_None_iff
        TopicPrefixEvents_def TopicPrefixCommands_def split: option.splits)
  then show ?thesis
    unfolding pt by (auto simp: TopicPrefixEvents_def TopicPrefixCommands_def)
qed

lemma levels_sep: "CHR ''/'' \<notin> set a \<Longrightarrow> levels (a @ CHR ''/'' # t) = a # levels t"
  by (subst levels.simps) (simp add: takeWhile_sep_append)

lemma levels_nosep: "CHR ''/'' \<notin> set a \<Longrightarrow> levels a = [a]"
  by (subst levels.simps) simp

lemma levels_join:
  "levels t = a # b # ls \<Longrightarrow> \<exists>r. t = a @ CHR ''/'' # r \<and> levels r = b # ls"
  using split_at_sep[of "CHR ''/''" t]
  by (subst (asm) levels.simps) (auto split: if_splits)

lemma levels_single: "levels t = [a] \<Longrightarrow> t = a"
  by (subst (asm) levels.simps) (auto split: if_splits simp: levels.simps)

lemma levels_two_device_topic:
  assumes "levels t = p # u # ls"
  shows "device_topic p u t"
proof -
  from levels_join[OF assms] obtain r where t: "t = p @ CHR ''/'' # r" and r: "levels r = u # ls"
    by blast
  show ?thesis
  proof (cases ls)
    case Nil
    with r have "r = u" by (simp add: levels_single)
    with t show ?thesis by (simp add: device_topic_def)
  next
    case (Cons l ls')
    with r levels_join[of r u l ls'] obtain r' where "r = u @ CHR ''/'' # r'" by blast
    with t show ?thesis by (auto simp: device_topic_def)
  qed
qed

lemma device_topic_levels:
  assumes "device_topic p u f" "CHR ''/'' \<notin> set p" "CHR ''/'' \<notin> set u"
  shows "\<exists>ls. levels f = p # u # ls"
  using assms by (auto simp: device_topic_def levels_sep levels_nosep)

section \<open>Properties\<close>

text \<open>C11: \<open>CheckACL\<close> grants exactly this: the username is a non-empty string with neither a colon nor
  a slash, and the topic is \<open>events/{username}\<close> or below with write access, or
  \<open>commands/{username}\<close> or below with read or subscribe access. Everything else, unsubscribe
  included, is denied.\<close>

theorem CheckACL_grants_exactly:
  "CheckACL u t acc \<longleftrightarrow>
     (u \<noteq> '''' \<and> CHR '':'' \<notin> set u \<and> CHR ''/'' \<notin> set u) \<and>
     ((t = ''events/'' @ u \<or> (\<exists>rest. t = ''events/'' @ u @ ''/'' @ rest)) \<and> acc = 2 \<or>
      (t = ''commands/'' @ u \<or> (\<exists>rest. t = ''commands/'' @ u @ ''/'' @ rest)) \<and> (acc = 1 \<or> acc = 4))"
  unfolding CheckACL_iff_device_topic
  by (auto simp: device_topic_def TopicPrefixEvents_def TopicPrefixCommands_def AccessWrite_def
      AccessRead_def AccessSubscribe_def)

text \<open>C12: Two devices never share a topic: when \<open>CheckACL\<close> grants two usernames any access on the
  same topic, the usernames are equal.\<close>

theorem CheckACL_isolates_devices:
  assumes "CheckACL u t acc" and "CheckACL u' t acc'"
  shows "u = u'"
proof -
  have "\<exists>p. parseTopic t = Some (p, u)" "\<exists>p. parseTopic t = Some (p, u')"
    using assms by (auto simp: CheckACL_def parseUsername_Some_iff split: option.splits if_splits)
  then show ?thesis by auto
qed

theorem CheckACL_isolates_devices_witness:
  "CheckACL ''dev-1'' ''events/dev-1/t'' 2 \<and> (''dev-1'' = ''dev-1'')"
proof -
  have h: "CheckACL ''dev-1'' ''events/dev-1/t'' 2"
    by (auto simp: CheckACL_iff_device_topic device_topic_def TopicPrefixEvents_def AccessWrite_def)
  from h CheckACL_isolates_devices[OF h h] show ?thesis by simp
qed

text \<open>C13: No cross-device wildcard subscription: when a username other than the bare wildcards is
  granted a subscription, every topic the filter matches under the MQTT rules is a topic of
  that device below \<open>commands\<close>.\<close>

theorem CheckACL_subscription_stays_in_device:
  assumes "CheckACL u f AccessSubscribe"
    and "u \<noteq> ''+''" and "u \<noteq> ''#''"
    and "filter_matches (levels f) (levels t)"
  shows "device_topic ''commands'' u t"
proof -
  from assms(1) have f: "device_topic ''commands'' u f" and u: "CHR ''/'' \<notin> set u"
    by (auto simp: CheckACL_iff_device_topic AccessSubscribe_def AccessWrite_def TopicPrefixCommands_def)
  from device_topic_levels[OF f _ u] obtain ls where ls: "levels f = ''commands'' # u # ls" by auto
  with assms(2-4) obtain ts where "levels t = ''commands'' # u # ts"
    by (auto split: list.splits if_splits)
  then show ?thesis by (rule levels_two_device_topic)
qed

theorem CheckACL_subscription_stays_in_device_witness:
  "filter_matches (levels ''commands/d1/#'') (levels ''commands/d1/reboot'') \<and>
   device_topic ''commands'' ''d1'' ''commands/d1/reboot''"
proof -
  have m: "filter_matches (levels ''commands/d1/#'') (levels ''commands/d1/reboot'')"
    by (simp add: levels.simps)
  have a: "CheckACL ''d1'' ''commands/d1/#'' AccessSubscribe"
    by (auto simp: CheckACL_iff_device_topic device_topic_def TopicPrefixCommands_def)
  from m CheckACL_subscription_stays_in_device[OF a _ _ m] show ?thesis by simp
qed

text \<open>The exclusion of the bare wildcards is needed: a device whose username is the single
  character \<open>#\<close> is granted a filter that matches the commands of every device.\<close>

theorem CheckACL_wildcard_username:
  "CheckACL ''#'' ''commands/#'' AccessSubscribe \<and>
   filter_matches (levels ''commands/#'') (levels ''commands/victim/reboot'')"
  by (auto simp: CheckACL_iff_device_topic device_topic_def TopicPrefixCommands_def levels.simps)

end
