(* ===== verification/Payloads.thy ===== *)
theory Payloads
  imports Json
begin

text \<open>
  \<^verbatim>\<open>src/payloads.go\<close> and \<^verbatim>\<open>src/format.go\<close>: the two NATS payloads, their JSON form and the labels of
  the disconnect reasons. A \<^verbatim>\<open>[]byte\<close> field is written as standard base64, a nil slice as
  \<^verbatim>\<open>null\<close>. The decoders at the end are the consumer's view of the same struct tags; they
  state what the receiving side reads.
\<close>

section \<open>Definitions\<close>

subsection \<open>encoding/base64\<close>

definition b64char :: "nat \<Rightarrow> char" where
  "b64char n = char_of
     (if n < 26 then 65 + n else if n < 52 then 71 + n else if n < 62 then n - 4
      else if n = 62 then 43 else 47)"

fun b64encode :: "bytes \<Rightarrow> string" where
  "b64encode [] = []"
| "b64encode [a] = [b64char (byte a div 4), b64char (byte a mod 4 * 16), CHR ''='', CHR ''='']"
| "b64encode [a, b] =
     [b64char (byte a div 4), b64char (byte a mod 4 * 16 + byte b div 16), b64char (byte b mod 16 * 4), CHR ''='']"
| "b64encode (a # b # c # s) =
     b64char (byte a div 4) # b64char (byte a mod 4 * 16 + byte b div 16)
     # b64char (byte b mod 16 * 4 + byte c div 64) # b64char (byte c mod 64) # b64encode s"

subsection \<open>The payload structs\<close>

record PresenceAdvisory =
  pa_Event :: string
  pa_OrgID :: string
  pa_AssetUUID :: string
  pa_ClientID :: string
  pa_SourceIP :: string
  pa_Timestamp :: time
  pa_ReasonCode :: int
  pa_ReasonText :: string

record IngressMessage =
  im_OrgID :: string
  im_AssetUUID :: string
  im_ClientID :: string
  im_Topic :: string
  im_Payload :: "bytes option"
  im_QoS :: int
  im_Retain :: bool
  im_Timestamp :: time

definition EventConnect :: string where "EventConnect = ''connect''"
definition EventDisconnect :: string where "EventDisconnect = ''disconnect''"

definition formatUnknown :: "int \<Rightarrow> string" where
  "formatUnknown code = ''unknown_'' @ Itoa code"

definition MapDisconnectReason :: "int \<Rightarrow> string" where
  "MapDisconnectReason code =
     (if code = 0 then ''clean_disconnect''
      else if code = 4 then ''keepalive_timeout''
      else if code = 142 then ''session_taken_over''
      else if code = 152 then ''admin_action''
      else formatUnknown code)"

subsection \<open>json.Marshal of the two structs\<close>

text \<open>The trees; the time stamp is given as its text.\<close>

definition presence_json :: "PresenceAdvisory \<Rightarrow> string \<Rightarrow> json" where
  "presence_json a ts = JObj
     ([(''event'', jstring (pa_Event a)), (''orgId'', jstring (pa_OrgID a)),
       (''assetUUID'', jstring (pa_AssetUUID a))]
      @ omitempty (pa_ClientID a = '''') ''clientId'' (jstring (pa_ClientID a))
      @ omitempty (pa_SourceIP a = '''') ''sourceIp'' (jstring (pa_SourceIP a))
      @ [(''timestamp'', JStr ts)]
      @ omitempty (pa_ReasonCode a = 0) ''reasonCode'' (JNum (Itoa (pa_ReasonCode a)))
      @ omitempty (pa_ReasonText a = '''') ''reasonText'' (jstring (pa_ReasonText a)))"

definition ingress_json :: "IngressMessage \<Rightarrow> string \<Rightarrow> json" where
  "ingress_json i ts = JObj
     ([(''orgId'', jstring (im_OrgID i)), (''assetUUID'', jstring (im_AssetUUID i))]
      @ omitempty (im_ClientID i = '''') ''clientId'' (jstring (im_ClientID i))
      @ [(''topic'', jstring (im_Topic i)),
         (''payload'', case im_Payload i of None \<Rightarrow> JNull | Some p \<Rightarrow> JStr (b64encode p)),
         (''qos'', JNum (Itoa (im_QoS i))), (''retain'', JBool (im_Retain i)),
         (''timestamp'', JStr ts)])"

definition timeError :: go_error where
  "timeError = ErrText ''json: error calling MarshalJSON for type time.Time''"

definition marshalPresence :: "PresenceAdvisory \<Rightarrow> bytes result" where
  "marshalPresence a =
     (case MarshalTime (pa_Timestamp a) of
        None \<Rightarrow> Inl timeError
      | Some ts \<Rightarrow> Inr (json_text (presence_json a ts)))"

definition marshalIngress :: "IngressMessage \<Rightarrow> bytes result" where
  "marshalIngress i =
     (case MarshalTime (im_Timestamp i) of
        None \<Rightarrow> Inl timeError
      | Some ts \<Rightarrow> Inr (json_text (ingress_json i ts)))"

subsection \<open>The consumer's side\<close>

definition b64val :: "char \<Rightarrow> nat option" where
  "b64val c =
     (let n = byte c in
      if 65 \<le> n \<and> n \<le> 90 then Some (n - 65)
      else if 97 \<le> n \<and> n \<le> 122 then Some (n - 71)
      else if 48 \<le> n \<and> n \<le> 57 then Some (n + 4)
      else if n = 43 then Some 62 else if n = 47 then Some 63 else None)"

fun b64decode :: "string \<Rightarrow> bytes option" where
  "b64decode [] = Some []"
| "b64decode (p # q # r # t # s) =
     (case (b64val p, b64val q) of
        (Some w, Some x) \<Rightarrow>
          if r = CHR ''='' \<and> t = CHR ''='' \<and> s = [] then Some [char_of (w * 4 + x div 16)]
          else (case b64val r of
            None \<Rightarrow> None
          | Some y \<Rightarrow>
              if t = CHR ''='' \<and> s = []
              then Some [char_of (w * 4 + x div 16), char_of (x mod 16 * 16 + y div 4)]
              else (case (b64val t, b64decode s) of
                (Some z, Some rest) \<Rightarrow>
                  Some (char_of (w * 4 + x div 16) # char_of (x mod 16 * 16 + y div 4)
                        # char_of (y mod 4 * 64 + z) # rest)
              | _ \<Rightarrow> None))
      | _ \<Rightarrow> None)"
| "b64decode _ = None"

definition decodeInt :: "(int \<Rightarrow> 'r \<Rightarrow> 'r) \<Rightarrow> 'r fieldDecoder" where
  "decodeInt upd j r =
     (case j of
        JNull \<Rightarrow> (r, False)
      | JNum n \<Rightarrow> (case Atoi n of Some i \<Rightarrow> (upd i r, False) | None \<Rightarrow> (r, True))
      | _ \<Rightarrow> (r, True))"

definition decodeBytes :: "(bytes option \<Rightarrow> 'r \<Rightarrow> 'r) \<Rightarrow> 'r fieldDecoder" where
  "decodeBytes upd j r =
     (case j of
        JNull \<Rightarrow> (upd None r, False)
      | JStr raw \<Rightarrow>
          (case Option.bind (json_unquote raw) b64decode of
             Some b \<Rightarrow> (upd (Some b) r, False)
           | None \<Rightarrow> (r, True))
      | _ \<Rightarrow> (r, True))"

definition decodePresence :: "(string \<Rightarrow> time option) \<Rightarrow> PresenceAdvisory fieldDecoder" where
  "decodePresence slowParse = decodeStruct
     [(''event'', decodeString (\<lambda>s r. r\<lparr>pa_Event := s\<rparr>)),
      (''orgId'', decodeString (\<lambda>s r. r\<lparr>pa_OrgID := s\<rparr>)),
      (''assetUUID'', decodeString (\<lambda>s r. r\<lparr>pa_AssetUUID := s\<rparr>)),
      (''clientId'', decodeString (\<lambda>s r. r\<lparr>pa_ClientID := s\<rparr>)),
      (''sourceIp'', decodeString (\<lambda>s r. r\<lparr>pa_SourceIP := s\<rparr>)),
      (''timestamp'', decodeTime slowParse (\<lambda>t r. r\<lparr>pa_Timestamp := t\<rparr>)),
      (''reasonCode'', decodeInt (\<lambda>n r. r\<lparr>pa_ReasonCode := n\<rparr>)),
      (''reasonText'', decodeString (\<lambda>s r. r\<lparr>pa_ReasonText := s\<rparr>))]"

definition decodeIngress :: "(string \<Rightarrow> time option) \<Rightarrow> IngressMessage fieldDecoder" where
  "decodeIngress slowParse = decodeStruct
     [(''orgId'', decodeString (\<lambda>s r. r\<lparr>im_OrgID := s\<rparr>)),
      (''assetUUID'', decodeString (\<lambda>s r. r\<lparr>im_AssetUUID := s\<rparr>)),
      (''clientId'', decodeString (\<lambda>s r. r\<lparr>im_ClientID := s\<rparr>)),
      (''topic'', decodeString (\<lambda>s r. r\<lparr>im_Topic := s\<rparr>)),
      (''payload'', decodeBytes (\<lambda>b r. r\<lparr>im_Payload := b\<rparr>)),
      (''qos'', decodeInt (\<lambda>n r. r\<lparr>im_QoS := n\<rparr>)),
      (''retain'', decodeBool (\<lambda>b r. r\<lparr>im_Retain := b\<rparr>)),
      (''timestamp'', decodeTime slowParse (\<lambda>t r. r\<lparr>im_Timestamp := t\<rparr>))]"

definition zero_PresenceAdvisory :: PresenceAdvisory where
  "zero_PresenceAdvisory = \<lparr>pa_Event = '''', pa_OrgID = '''', pa_AssetUUID = '''', pa_ClientID = '''',
     pa_SourceIP = '''', pa_Timestamp = zero_time, pa_ReasonCode = 0, pa_ReasonText = ''''\<rparr>"

definition zero_IngressMessage :: IngressMessage where
  "zero_IngressMessage = \<lparr>im_OrgID = '''', im_AssetUUID = '''', im_ClientID = '''', im_Topic = '''',
     im_Payload = None, im_QoS = 0, im_Retain = False, im_Timestamp = zero_time\<rparr>"

definition presence_valid :: "PresenceAdvisory \<Rightarrow> bool" where
  "presence_valid a \<longleftrightarrow> inInt64 (pa_ReasonCode a) \<and> list_all validUTF8
     [pa_Event a, pa_OrgID a, pa_AssetUUID a, pa_ClientID a, pa_SourceIP a, pa_ReasonText a]"

definition ingress_valid :: "IngressMessage \<Rightarrow> bool" where
  "ingress_valid i \<longleftrightarrow> inInt64 (im_QoS i) \<and> list_all validUTF8
     [im_OrgID i, im_AssetUUID i, im_ClientID i, im_Topic i]"

section \<open>Lemmas\<close>

subsection \<open>base64\<close>

lemma b64val_b64char [simp]: "n < 64 \<Longrightarrow> b64val (b64char n) = Some n"
  by (auto simp: b64val_def b64char_def Let_def)

lemma b64char_byte: "n < 64 \<Longrightarrow> byte (b64char n) \<in> {43, 47} \<union> {48..57} \<union> {65..90} \<union> {97..122}"
  by (auto simp: b64char_def)

lemma b64char_not_pad [simp]: "n < 64 \<Longrightarrow> b64char n \<noteq> CHR ''=''"
  using b64char_byte[of n] by (auto simp: byte_def)

lemma b64_bounds: "byte a div 4 < 64" "byte a mod 4 * 16 + byte b div 16 < 64"
  "byte b mod 16 * 4 + byte c div 64 < 64" "byte c mod 64 < 64" "byte a mod 4 * 16 < 64" "byte b mod 16 * 4 < 64"
  using byte_less[of a] byte_less[of b] byte_less[of c] by (simp_all add: less_mult_imp_div_less)

lemma byte_div:
  "byte b div 16 div 16 = 0" "byte b div 16 mod 16 = byte b div 16"
  "byte b div 64 div 4 = 0" "byte b div 64 mod 4 = byte b div 64"
proof -
  have "byte b div 16 < 16" "byte b div 64 < 4" using byte_less[of b] by (simp_all add: less_mult_imp_div_less)
  then show "byte b div 16 div 16 = 0" "byte b div 16 mod 16 = byte b div 16"
    "byte b div 64 div 4 = 0" "byte b div 64 mod 4 = byte b div 64" by simp_all
qed

theorem b64decode_encode: "b64decode (b64encode s) = Some s"
  by (induction s rule: b64encode.induct) (simp_all add: b64_bounds byte_div)

lemma length_b64encode: "length (b64encode s) = (length s + 2) div 3 * 4"
proof (induction s rule: b64encode.induct)
  case (4 a b c s)
  have "(length s + 2 + 3) div 3 = (length s + 2) div 3 + 1" by simp
  with 4 show ?case by simp
qed simp_all

lemma b64_plain: "n < 64 \<Longrightarrow> plainChar (b64char n) \<and> byte (b64char n) < 0x80"
  using b64char_byte[of n] by (auto simp: plainChar_def byte_def)

lemma b64encode_plainName: "plainName (b64encode s)"
  by (induction s rule: b64encode.induct)
     (simp_all add: plainName_def b64_plain b64_bounds, simp_all add: plainChar_def byte_def)


subsection \<open>Round trips\<close>

lemma payload_names [simp]:
  "plainName ''event''" "plainName ''orgId''" "plainName ''assetUUID''" "plainName ''clientId''"
  "plainName ''sourceIp''" "plainName ''timestamp''" "plainName ''reasonCode''" "plainName ''reasonText''"
  "plainName ''topic''" "plainName ''payload''" "plainName ''qos''" "plainName ''retain''"
  by (simp_all add: plainName_def plainChar_def byte_def)

lemma decodeInt_Itoa: "inInt64 n \<Longrightarrow> decodeInt upd (JNum (Itoa n)) r = (upd n r, False)"
  by (simp add: decodeInt_def Atoi_Itoa)

lemma decodeBytes_b64: "decodeBytes upd (JStr (b64encode b)) r = (upd (Some b) r, False)"
  by (simp add: decodeBytes_def plainName_unquote b64encode_plainName b64decode_encode)

lemma decodeTime_Marshal: "MarshalTime t = Some ts \<Longrightarrow> decodeTime p upd (JStr ts) r = (upd t r, False)"
  by (simp add: decodeTime_def UnmarshalTime_MarshalTime)

lemma wf_presence_json: "rawOk ts \<Longrightarrow> wf_json (Suc 0) (presence_json a ts)"
  by (auto simp: presence_json_def omitempty_def plainName_rawOk wf_jstring)

lemma wf_ingress_json: "rawOk ts \<Longrightarrow> wf_json (Suc 0) (ingress_json i ts)"
  by (auto simp: ingress_json_def omitempty_def plainName_rawOk wf_jstring b64encode_plainName
      split: option.splits)


lemma json_Unmarshal_text:
  assumes "wf_json (Suc 0) j"
  shows "json_Unmarshal dec zero (json_text j) = (case dec j zero of (r, err) \<Rightarrow>
          if err then Inl (ErrText ''json: type error'') else Inr r)"
proof -
  have "wf_json maxNestingDepth j" by (rule wf_json_mono[OF assms]) (simp add: maxNestingDepth_def)
  then show ?thesis by (simp add: json_Unmarshal_def json_finish_def json_scan_text)
qed

text \<open>What decoding makes of the strings: ill-formed UTF-8 becomes U+FFFD, the rest stays.\<close>

definition presence_clean :: "PresenceAdvisory \<Rightarrow> PresenceAdvisory" where
  "presence_clean a = \<lparr>pa_Event = toValidUTF8 (pa_Event a), pa_OrgID = toValidUTF8 (pa_OrgID a),
     pa_AssetUUID = toValidUTF8 (pa_AssetUUID a), pa_ClientID = toValidUTF8 (pa_ClientID a),
     pa_SourceIP = toValidUTF8 (pa_SourceIP a), pa_Timestamp = pa_Timestamp a, pa_ReasonCode = pa_ReasonCode a,
     pa_ReasonText = toValidUTF8 (pa_ReasonText a)\<rparr>"

definition ingress_clean :: "IngressMessage \<Rightarrow> IngressMessage" where
  "ingress_clean i = \<lparr>im_OrgID = toValidUTF8 (im_OrgID i), im_AssetUUID = toValidUTF8 (im_AssetUUID i),
     im_ClientID = toValidUTF8 (im_ClientID i), im_Topic = toValidUTF8 (im_Topic i), im_Payload = im_Payload i,
     im_QoS = im_QoS i, im_Retain = im_Retain i, im_Timestamp = im_Timestamp i\<rparr>"

lemma clean_valid: "presence_valid a \<Longrightarrow> presence_clean a = a" "ingress_valid i \<Longrightarrow> ingress_clean i = i"
  by (simp_all add: presence_clean_def presence_valid_def ingress_clean_def ingress_valid_def validUTF8_def)

lemmas clean_decode_simps =
  decodeStruct_def lookupField_def plainName_unquote decodeString_clean decodeBool_JBool decodeInt_Itoa
  decodeBytes_b64 decodeTime_Marshal omitempty_def

lemma decodePresence_json:
  assumes "inInt64 (pa_ReasonCode a)" "MarshalTime (pa_Timestamp a) = Some ts"
  shows "decodePresence p (presence_json a ts) zero_PresenceAdvisory = (presence_clean a, False)"
  using assms
  by (cases "pa_ClientID a = ''''"; cases "pa_SourceIP a = ''''"; cases "pa_ReasonCode a = 0";
      cases "pa_ReasonText a = ''''")
     (simp_all add: decodePresence_def presence_json_def clean_decode_simps zero_PresenceAdvisory_def presence_clean_def)

lemma decodeIngress_json:
  assumes "inInt64 (im_QoS i)" "MarshalTime (im_Timestamp i) = Some ts"
  shows "decodeIngress p (ingress_json i ts) zero_IngressMessage = (ingress_clean i, False)"
proof -
  have "decodeBytes upd JNull r = (upd None r, False)" for upd and r :: IngressMessage
    by (simp add: decodeBytes_def)
  then show ?thesis
    using assms
    by (cases "im_ClientID i = ''''"; cases "im_Payload i")
     (simp_all add: decodeIngress_def ingress_json_def clean_decode_simps zero_IngressMessage_def ingress_clean_def)
qed

lemma ingress_Unmarshal_clean:
  assumes "inInt64 (im_QoS i)" "marshalIngress i = Inr data"
  shows "json_Unmarshal (decodeIngress p) zero_IngressMessage data = Inr (ingress_clean i)"
proof -
  from assms(2) obtain ts where ts: "MarshalTime (im_Timestamp i) = Some ts" "data = json_text (ingress_json i ts)"
    by (auto simp: marshalIngress_def split: option.splits)
  show ?thesis
    unfolding ts(2) json_Unmarshal_text[OF wf_ingress_json[OF MarshalTime_rawOk[OF ts(1)]]]
    by (simp add: decodeIngress_json[OF assms(1) ts(1)])
qed

lemma ingress_Unmarshal:
  assumes "ingress_valid i" "marshalIngress i = Inr data"
  shows "json_Unmarshal (decodeIngress p) zero_IngressMessage data = Inr i"
  using ingress_Unmarshal_clean[OF _ assms(2)] clean_valid(2)[OF assms(1)] assms(1) by (simp add: ingress_valid_def)

section \<open>Properties\<close>

text \<open>C32: Presence advisories survive the wire: the JSON text of an advisory with a 64-bit reason code,
  read back through the same struct tags, is the advisory, with the omitted zero fields restored,
  provided that its strings are valid UTF-8. In a string that is not, such as an asset identifier
  out of a common name in another encoding, each ill-formed byte comes back as U+FFFD
  (\<open>toValidUTF8\<close>), and nothing else changes.\<close>

theorem presence_round_trip:
  assumes "inInt64 (pa_ReasonCode a)" "marshalPresence a = Inr data"
  shows "json_Unmarshal (decodePresence p) zero_PresenceAdvisory data =
      Inr \<lparr>pa_Event = toValidUTF8 (pa_Event a), pa_OrgID = toValidUTF8 (pa_OrgID a),
           pa_AssetUUID = toValidUTF8 (pa_AssetUUID a), pa_ClientID = toValidUTF8 (pa_ClientID a),
           pa_SourceIP = toValidUTF8 (pa_SourceIP a), pa_Timestamp = pa_Timestamp a,
           pa_ReasonCode = pa_ReasonCode a, pa_ReasonText = toValidUTF8 (pa_ReasonText a)\<rparr> \<and>
    (presence_valid a \<longrightarrow> json_Unmarshal (decodePresence p) zero_PresenceAdvisory data = Inr a)"
proof -
  from assms(2) obtain ts where ts: "MarshalTime (pa_Timestamp a) = Some ts" "data = json_text (presence_json a ts)"
    by (auto simp: marshalPresence_def split: option.splits)
  have "json_Unmarshal (decodePresence p) zero_PresenceAdvisory data = Inr (presence_clean a)"
    unfolding ts(2) json_Unmarshal_text[OF wf_presence_json[OF MarshalTime_rawOk[OF ts(1)]]]
    by (simp add: decodePresence_json[OF assms(1) ts(1)])
  moreover from this have "presence_valid a \<Longrightarrow> json_Unmarshal (decodePresence p) zero_PresenceAdvisory data = Inr a"
    by (simp only: clean_valid)
  ultimately show ?thesis by (simp add: presence_clean_def)
qed

theorem presence_round_trip_witness:
  "\<exists>data. json_Unmarshal (decodePresence (\<lambda>_. None)) zero_PresenceAdvisory data =
     Inr (zero_PresenceAdvisory\<lparr>pa_Event := EventDisconnect, pa_OrgID := ''o'', pa_AssetUUID := ''a'',
       pa_Timestamp := 0, pa_ReasonCode := 4, pa_ReasonText := MapDisconnectReason 4\<rparr>)"
proof -
  let ?a = "zero_PresenceAdvisory\<lparr>pa_Event := EventDisconnect, pa_OrgID := ''o'', pa_AssetUUID := ''a'',
       pa_Timestamp := 0, pa_ReasonCode := 4, pa_ReasonText := MapDisconnectReason 4\<rparr>"
  have valid: "presence_valid ?a"
    by (simp add: presence_valid_def zero_PresenceAdvisory_def EventDisconnect_def MapDisconnectReason_def
        validUTF8_ascii byte_def int64_defs)
  obtain data where data: "marshalPresence ?a = Inr data"
    using MarshalTime_epoch by (auto simp: marshalPresence_def)
  have "inInt64 (pa_ReasonCode ?a)" by (simp add: int64_defs)
  from presence_round_trip[OF this data] valid
  have "json_Unmarshal (decodePresence (\<lambda>_. None)) zero_PresenceAdvisory data = Inr ?a" by blast
  then show ?thesis by blast
qed

text \<open>C33: Ingress messages survive the wire: the JSON text of a message with any payload bytes, read
  back through the same struct tags, is the message, provided that organisation, asset, client
  identifier and topic are valid UTF-8. The payload always comes back byte for byte; in the four
  strings each ill-formed byte becomes U+FFFD (\<open>toValidUTF8\<close>).\<close>

theorem ingress_round_trip:
  assumes "inInt64 (im_QoS i)" "marshalIngress i = Inr data"
  shows "json_Unmarshal (decodeIngress p) zero_IngressMessage data =
      Inr \<lparr>im_OrgID = toValidUTF8 (im_OrgID i), im_AssetUUID = toValidUTF8 (im_AssetUUID i),
           im_ClientID = toValidUTF8 (im_ClientID i), im_Topic = toValidUTF8 (im_Topic i), im_Payload = im_Payload i,
           im_QoS = im_QoS i, im_Retain = im_Retain i, im_Timestamp = im_Timestamp i\<rparr> \<and>
    (ingress_valid i \<longrightarrow> json_Unmarshal (decodeIngress p) zero_IngressMessage data = Inr i)"
  using ingress_Unmarshal_clean[OF assms] ingress_Unmarshal[OF _ assms(2)] by (simp add: ingress_clean_def)

theorem ingress_round_trip_witness:
  "\<exists>data. json_Unmarshal (decodeIngress (\<lambda>_. None)) zero_IngressMessage data =
     Inr (zero_IngressMessage\<lparr>im_OrgID := ''o'', im_Topic := ''events/a/t'', im_Payload := Some [CHR 0xFF, CHR 0x00],
       im_QoS := 1, im_Timestamp := 0\<rparr>)"
proof -
  let ?i = "zero_IngressMessage\<lparr>im_OrgID := ''o'', im_Topic := ''events/a/t'', im_Payload := Some [CHR 0xFF, CHR 0x00],
       im_QoS := 1, im_Timestamp := 0\<rparr>"
  have valid: "ingress_valid ?i"
    by (simp add: ingress_valid_def zero_IngressMessage_def validUTF8_ascii byte_def int64_defs)
  obtain data where data: "marshalIngress ?i = Inr data"
    using MarshalTime_epoch by (auto simp: marshalIngress_def)
  have "inInt64 (im_QoS ?i)" by (simp add: int64_defs)
  from ingress_round_trip[OF this data] valid
  have "json_Unmarshal (decodeIngress (\<lambda>_. None)) zero_IngressMessage data = Inr ?i" by blast
  then show ?thesis by blast
qed

text \<open>Disconnect reasons are told apart: two reason codes have the same label only when they are
  equal, so a dashboard bucket stands for one code.\<close>

lemma MapDisconnectReason_inj:
  assumes "inInt64 c" "inInt64 d" "MapDisconnectReason c = MapDisconnectReason d"
  shows "c = d"
  using assms by (auto simp: MapDisconnectReason_def formatUnknown_def Itoa_inj split: if_splits)

theorem MapDisconnectReason_inj_witness:
  "MapDisconnectReason 142 = ''session_taken_over'' \<and> (142 :: int) = 142"
  using MapDisconnectReason_inj[of 142 142] by (simp add: MapDisconnectReason_def int64_defs)

end
