(* ===== verification/PluginConfig.thy ===== *)
theory PluginConfig
  imports GoTime
begin

text \<open>
  \<^verbatim>\<open>src/config.go\<close>: the plugin options. The Go map of options is a partial map; reading a missing
  key gives the empty string. Durations are 64-bit nanosecond counts, and the multiplications
  wrap around as Go's do.
\<close>

section \<open>Definitions\<close>

record Config =
  NatsURL :: string
  SubjectPresence :: string
  SubjectIngressPrefix :: string
  AuthURL :: string
  AuthAPIKey :: string
  AuthTimeout :: duration
  WorkerPoolSize :: int
  BufferSize :: int
  CacheL1Path :: string
  CacheL1TTL :: duration
  CacheL2Endpoint :: string
  CacheL2AccessKey :: string
  CacheL2SecretKey :: string
  CacheL2Bucket :: string
  CacheL2UseSSL :: bool
  FanoutInvalidateSubject :: string

type_synonym options = "string \<rightharpoonup> string"

definition DefaultSubjectPresence :: string where
  "DefaultSubjectPresence = ''dev.mapexos.mqtt.presence.advisory''"
definition DefaultSubjectIngressPrefix :: string where
  "DefaultSubjectIngressPrefix = ''dev.mapexos.mqtt.data''"
definition DefaultWorkerPoolSize :: int where "DefaultWorkerPoolSize = 4"
definition DefaultBufferSize :: int where "DefaultBufferSize = 10000"
definition DefaultAuthTimeout :: duration where "DefaultAuthTimeout = 5 * Second"
definition DefaultCacheL1Path :: string where "DefaultCacheL1Path = ''/var/cache/mqtt''"
definition DefaultCacheL1TTL :: duration where "DefaultCacheL1TTL = 30 * Minute"
definition DefaultCacheL2Bucket :: string where "DefaultCacheL2Bucket = ''mapex-asset-auth''"
definition DefaultFanoutInvalidateSubject :: string where
  "DefaultFanoutInvalidateSubject = ''mapexos.fanout.asset.invalidate''"

text \<open>A map read: the zero value for a missing key.\<close>

definition opt :: "options \<Rightarrow> string \<Rightarrow> string" where
  "opt opts key = (case opts key of None \<Rightarrow> '''' | Some v \<Rightarrow> v)"

definition stringOrDefault :: "options \<Rightarrow> string \<Rightarrow> string \<Rightarrow> string" where
  "stringOrDefault opts key fallback =
     (let v = TrimSpace (opt opts key) in if v \<noteq> '''' then v else fallback)"

definition intOrDefault :: "options \<Rightarrow> string \<Rightarrow> int \<Rightarrow> int" where
  "intOrDefault opts key fallback =
     (let v = TrimSpace (opt opts key) in
      if v = '''' then fallback
      else case Atoi v of
             None \<Rightarrow> fallback
           | Some n \<Rightarrow> if n \<le> 0 then fallback else n)"

definition LoadConfig :: "options \<Rightarrow> Config result" where
  "LoadConfig opts =
     (let natsURL = TrimSpace (opt opts ''nats_url'');
          authURL = TrimSpace (opt opts ''auth_url'');
          authKey = TrimSpace (opt opts ''auth_api_key'')
      in if natsURL = '''' then Inl (ErrText ''plugin_opt_nats_url is required'')
         else if authURL = '''' then Inl (ErrText ''plugin_opt_auth_url is required'')
         else if authKey = '''' then Inl (ErrText ''plugin_opt_auth_api_key is required'')
         else
           let secs = intOrDefault opts ''auth_timeout_seconds'' 0;
               authTimeout = (if secs > 0 then int64 (secs * Second) else DefaultAuthTimeout);
               mins = intOrDefault opts ''cache_l1_ttl_minutes'' 0;
               cacheL1TTL = (if mins > 0 then int64 (mins * Minute) else DefaultCacheL1TTL)
           in Inr
             \<lparr>NatsURL = natsURL,
              SubjectPresence = stringOrDefault opts ''nats_subject_presence'' DefaultSubjectPresence,
              SubjectIngressPrefix = stringOrDefault opts ''nats_subject_ingress_prefix'' DefaultSubjectIngressPrefix,
              AuthURL = authURL,
              AuthAPIKey = authKey,
              AuthTimeout = authTimeout,
              WorkerPoolSize = intOrDefault opts ''worker_pool_size'' DefaultWorkerPoolSize,
              BufferSize = intOrDefault opts ''buffer_size'' DefaultBufferSize,
              CacheL1Path = stringOrDefault opts ''cache_l1_path'' DefaultCacheL1Path,
              CacheL1TTL = cacheL1TTL,
              CacheL2Endpoint = TrimSpace (opt opts ''cache_l2_endpoint''),
              CacheL2AccessKey = TrimSpace (opt opts ''cache_l2_access_key''),
              CacheL2SecretKey = TrimSpace (opt opts ''cache_l2_secret_key''),
              CacheL2Bucket = DefaultCacheL2Bucket,
              CacheL2UseSSL = EqualFold (\<lambda>_ _. False) (TrimSpace (opt opts ''cache_l2_use_ssl'')) ''true'',
              FanoutInvalidateSubject =
                stringOrDefault opts ''fanout_invalidate_subject'' DefaultFanoutInvalidateSubject\<rparr>)"

section \<open>Lemmas\<close>

lemma intOrDefault_pos: "0 < fallback \<Longrightarrow> 0 < intOrDefault opts key fallback"
  by (auto simp: intOrDefault_def Let_def split: option.splits)

lemma intOrDefault_range: "inInt64 fallback \<Longrightarrow> inInt64 (intOrDefault opts key fallback)"
  by (auto simp: intOrDefault_def Let_def Atoi_range split: option.splits)

lemma stringOrDefault_ne: "fallback \<noteq> '''' \<Longrightarrow> stringOrDefault opts key fallback \<noteq> ''''"
  by (simp add: stringOrDefault_def Let_def)

lemma stringOrDefault_trimmed: "trimmed fallback \<Longrightarrow> trimmed (stringOrDefault opts key fallback)"
  by (simp add: stringOrDefault_def Let_def trimmed_TrimSpace)

lemma LoadConfig_ok_iff:
  "is_Inr (LoadConfig opts) \<longleftrightarrow>
     (\<forall>k \<in> {''nats_url'', ''auth_url'', ''auth_api_key''}. TrimSpace (opt opts k) \<noteq> '''')"
  by (auto simp: LoadConfig_def Let_def)


lemma trimmed_defaults:
  "trimmed DefaultSubjectPresence" "trimmed DefaultSubjectIngressPrefix" "trimmed DefaultCacheL1Path"
  "trimmed DefaultFanoutInvalidateSubject"
  by (rule trimmed_edges; simp add: byte_def DefaultSubjectPresence_def DefaultSubjectIngressPrefix_def
      DefaultCacheL1Path_def DefaultFanoutInvalidateSubject_def)+

lemma LoadConfig_Inr:
  assumes "LoadConfig opts = Inr cfg"
  shows "AuthTimeout cfg =
      (let secs = intOrDefault opts ''auth_timeout_seconds'' 0
       in if secs > 0 then int64 (secs * Second) else DefaultAuthTimeout)"
    "CacheL1TTL cfg =
      (let mins = intOrDefault opts ''cache_l1_ttl_minutes'' 0
       in if mins > 0 then int64 (mins * Minute) else DefaultCacheL1TTL)"
    "WorkerPoolSize cfg = intOrDefault opts ''worker_pool_size'' DefaultWorkerPoolSize"
    "BufferSize cfg = intOrDefault opts ''buffer_size'' DefaultBufferSize"
  using assms by (auto simp: LoadConfig_def Let_def split: if_splits)

lemma intOrDefault_Itoa:
  "TrimSpace (opt opts key) = Itoa n \<Longrightarrow> inInt64 n \<Longrightarrow> intOrDefault opts key fb = (if n \<le> 0 then fb else n)"
  by (simp add: intOrDefault_def Let_def Atoi_Itoa) (simp add: Itoa_def)

text \<open>A minimal configuration, for concrete runs.\<close>

definition demo_opts :: options where
  "demo_opts = [''nats_url'' \<mapsto> ''n'', ''auth_url'' \<mapsto> ''u'', ''auth_api_key'' \<mapsto> ''k'']"

lemma demo_opts_ok: "is_Inr (LoadConfig (demo_opts(''auth_timeout_seconds'' \<mapsto> v)))"
proof -
  have "TrimSpace [c] = [c]" if "33 \<le> byte c" "byte c < 128" for c
    using that by (intro TrimSpace_trimmed trimmed_edges) simp_all
  then show ?thesis by (simp add: LoadConfig_ok_iff demo_opts_def opt_def byte_def)
qed

lemma demo_opts_load: obtains cfg where "LoadConfig (demo_opts(''auth_timeout_seconds'' \<mapsto> v)) = Inr cfg"
  using demo_opts_ok[of v] by (cases "LoadConfig (demo_opts(''auth_timeout_seconds'' \<mapsto> v))") auto

section \<open>Properties\<close>

text \<open>C31: What a loaded configuration guarantees. \<open>LoadConfig\<close> succeeds exactly when the three
  required options hold more than white space; then the pool and the buffer have a positive
  size, all subjects and the cache path are non-empty, every text option is trimmed, and the
  L2 bucket is the fixed one, whatever the options say.\<close>

theorem LoadConfig_guarantees:
  "(is_Inr (LoadConfig opts) \<longleftrightarrow>
     (\<forall>k. k = ''nats_url'' \<or> k = ''auth_url'' \<or> k = ''auth_api_key'' \<longrightarrow> TrimSpace (opt opts k) \<noteq> '''')) \<and>
   (\<forall>cfg. LoadConfig opts = Inr cfg \<longrightarrow>
      0 < WorkerPoolSize cfg \<and> 0 < BufferSize cfg \<and> inInt64 (WorkerPoolSize cfg) \<and> inInt64 (BufferSize cfg) \<and>
      CacheL2Bucket cfg = ''mapex-asset-auth'' \<and>
      list_all (\<lambda>v. v \<noteq> '''' \<and> trimmed v)
        [NatsURL cfg, AuthURL cfg, AuthAPIKey cfg, SubjectPresence cfg, SubjectIngressPrefix cfg,
         CacheL1Path cfg, FanoutInvalidateSubject cfg] \<and>
      list_all trimmed [CacheL2Endpoint cfg, CacheL2AccessKey cfg, CacheL2SecretKey cfg])"
proof
  show "is_Inr (LoadConfig opts) \<longleftrightarrow>
     (\<forall>k. k = ''nats_url'' \<or> k = ''auth_url'' \<or> k = ''auth_api_key'' \<longrightarrow> TrimSpace (opt opts k) \<noteq> '''')"
    unfolding LoadConfig_ok_iff by blast
  have ne: "DefaultSubjectPresence \<noteq> ''''" "DefaultSubjectIngressPrefix \<noteq> ''''" "DefaultCacheL1Path \<noteq> ''''"
    "DefaultFanoutInvalidateSubject \<noteq> ''''"
    by (simp_all add: DefaultSubjectPresence_def DefaultSubjectIngressPrefix_def
      DefaultCacheL1Path_def DefaultFanoutInvalidateSubject_def)
  have "inInt64 DefaultWorkerPoolSize" "inInt64 DefaultBufferSize" "0 < DefaultWorkerPoolSize" "0 < DefaultBufferSize"
    by (simp_all add: DefaultWorkerPoolSize_def DefaultBufferSize_def int64_defs)
  then show "\<forall>cfg. LoadConfig opts = Inr cfg \<longrightarrow>
      0 < WorkerPoolSize cfg \<and> 0 < BufferSize cfg \<and> inInt64 (WorkerPoolSize cfg) \<and> inInt64 (BufferSize cfg) \<and>
      CacheL2Bucket cfg = ''mapex-asset-auth'' \<and>
      list_all (\<lambda>v. v \<noteq> '''' \<and> trimmed v)
        [NatsURL cfg, AuthURL cfg, AuthAPIKey cfg, SubjectPresence cfg, SubjectIngressPrefix cfg,
         CacheL1Path cfg, FanoutInvalidateSubject cfg] \<and>
      list_all trimmed [CacheL2Endpoint cfg, CacheL2AccessKey cfg, CacheL2SecretKey cfg]"
    using ne
    by (auto simp: LoadConfig_def Let_def trimmed_TrimSpace stringOrDefault_ne stringOrDefault_trimmed
        trimmed_defaults intOrDefault_pos intOrDefault_range DefaultCacheL2Bucket_def split: if_splits)
qed

theorem LoadConfig_guarantees_witness:
  "\<exists>cfg. LoadConfig (demo_opts(''auth_timeout_seconds'' \<mapsto> ''x'')) = Inr cfg \<and> 0 < BufferSize cfg"
proof -
  obtain cfg where "LoadConfig (demo_opts(''auth_timeout_seconds'' \<mapsto> ''x'')) = Inr cfg" by (rule demo_opts_load)
  with LoadConfig_guarantees[of "demo_opts(''auth_timeout_seconds'' \<mapsto> ''x'')"] show ?thesis by blast
qed

text \<open>The time options are honoured while they fit: a positive number of seconds, up to the
  292 years that 64-bit nanoseconds hold, is the auth timeout, and a non-positive number means
  the default.\<close>

lemma AuthTimeout_exact:
  assumes "LoadConfig opts = Inr cfg" "opts ''auth_timeout_seconds'' = Some (Itoa secs)"
    and "inInt64 secs" "secs \<le> 9223372036"
  shows "AuthTimeout cfg = (if secs \<le> 0 then 5 * Second else secs * Second) \<and> 0 < AuthTimeout cfg"
proof -
  have "intOrDefault opts ''auth_timeout_seconds'' 0 = (if secs \<le> 0 then 0 else secs)"
    using assms(2,3) by (intro intOrDefault_Itoa) (simp_all add: opt_def TrimSpace_Itoa)
  moreover have "0 < secs \<Longrightarrow> int64 (secs * Second) = secs * Second"
    using assms(4) by (intro int64_id) (simp_all add: Second_def int64_defs)
  ultimately show ?thesis
    using LoadConfig_Inr(1)[OF assms(1)] by (simp add: Let_def DefaultAuthTimeout_def Second_def)
qed

theorem AuthTimeout_exact_witness:
  "\<exists>cfg. LoadConfig (demo_opts(''auth_timeout_seconds'' \<mapsto> Itoa 7)) = Inr cfg \<and> AuthTimeout cfg = 7 * Second"
proof -
  obtain cfg where cfg: "LoadConfig (demo_opts(''auth_timeout_seconds'' \<mapsto> Itoa 7)) = Inr cfg"
    by (rule demo_opts_load)
  from AuthTimeout_exact[OF this, of 7] cfg show ?thesis
    by (simp add: int64_defs)
qed

text \<open>Beyond that the multiplication wraps around: with 18446744074 seconds configured, the auth
  timeout is 290448384 nanoseconds, about 0.29 seconds.\<close>

lemma AuthTimeout_wraps:
  "map_sum id AuthTimeout (LoadConfig (demo_opts(''auth_timeout_seconds'' \<mapsto> Itoa 18446744074))) = Inr 290448384"
proof -
  let ?opts = "demo_opts(''auth_timeout_seconds'' \<mapsto> Itoa 18446744074)"
  have i: "intOrDefault ?opts ''auth_timeout_seconds'' 0 = 18446744074"
    by (subst intOrDefault_Itoa[of _ _ 18446744074])
       (simp_all add: opt_def TrimSpace_Itoa int64_defs)
  obtain cfg where cfg: "LoadConfig ?opts = Inr cfg" by (rule demo_opts_load)
  from LoadConfig_Inr(1)[OF this] i have "AuthTimeout cfg = 290448384"
    by (simp add: Second_def int64_def)
  then show ?thesis by (simp add: cfg)
qed

end
