(* ===== verification/Plugin.thy ===== *)
theory Plugin
  imports Fanout Acl Payloads PluginConfig NatsPublisher
begin

text \<open>
  \<^verbatim>\<open>src/plugin.go\<close>: the runtime that the broker callbacks work on. Its fields are the
  configuration, the asynchronous publisher, whether an auth client is set, the auth store, the
  fanout consumer and the session map (a \<^verbatim>\<open>sync.Map\<close>, here a partial map). \<open>get\<close> is the store's
  \<open>Get\<close>, with the outside world of the call in it; \<open>bcrypt\<close> and \<open>sf\<close> are the parameters of the
  credential checks.
\<close>

section \<open>Definitions\<close>

definition MaxIngressPayloadBytes :: nat where "MaxIngressPayloadBytes = 900 * 1024"

record SessionInfo =
  si_OrgID :: string
  si_AssetUUID :: string

record 's PluginRuntime =
  rt_Config :: Config
  rt_Async :: AsyncPublisher
  rt_Auth :: bool
  rt_Store :: "'s option"
  rt_Fanout :: "FanoutConsumer option"
  sessions :: "string \<rightharpoonup> SessionInfo"

subsection \<open>Sessions\<close>

definition rememberSession :: "string \<Rightarrow> string \<Rightarrow> string \<Rightarrow> 's PluginRuntime \<Rightarrow> 's PluginRuntime" where
  "rememberSession clientID orgID assetUUID r =
     (if clientID = '''' then r
      else r\<lparr>sessions := (sessions r)(clientID \<mapsto> \<lparr>si_OrgID = orgID, si_AssetUUID = assetUUID\<rparr>)\<rparr>)"

definition LookupSession :: "string \<Rightarrow> 's PluginRuntime \<Rightarrow> SessionInfo option" where
  "LookupSession clientID r = (if clientID = '''' then None else sessions r clientID)"

definition ForgetSession :: "string \<Rightarrow> 's PluginRuntime \<Rightarrow> 's PluginRuntime" where
  "ForgetSession clientID r =
     (if clientID = '''' then r else r\<lparr>sessions := (sessions r)(clientID := None)\<rparr>)"

subsection \<open>Publishing\<close>

definition count_dropped :: "'s PluginRuntime \<Rightarrow> 's PluginRuntime" where
  "count_dropped r = r\<lparr>rt_Async := (rt_Async r)\<lparr>dropped := dropped (rt_Async r) + 1\<rparr>\<rparr>"

text \<open>\<open>data\<close> is the result of \<^verbatim>\<open>json.Marshal\<close> on the payload.\<close>

definition publish :: "string \<Rightarrow> bytes result \<Rightarrow> 's PluginRuntime \<Rightarrow> go_panic + 's PluginRuntime \<times> bool" where
  "publish subject data r =
     (case data of
        Inl err \<Rightarrow> Inr (count_dropped r, False)
      | Inr d \<Rightarrow>
          (case Enqueue subject d (rt_Async r) of
             Inl e \<Rightarrow> Inl e
           | Inr (p, acc) \<Rightarrow> Inr (r\<lparr>rt_Async := p\<rparr>, acc)))"

declare count_dropped_def [queue_defs] publish_def [queue_defs]

definition PublishConnect ::
    "string \<Rightarrow> string \<Rightarrow> string \<Rightarrow> string \<Rightarrow> time \<Rightarrow> 's PluginRuntime \<Rightarrow> go_panic + 's PluginRuntime \<times> bool" where
  "PublishConnect orgID assetUUID clientID sourceIP ts r =
     publish (SubjectPresence (rt_Config r))
       (marshalPresence
          \<lparr>pa_Event = EventConnect, pa_OrgID = orgID, pa_AssetUUID = assetUUID, pa_ClientID = clientID,
           pa_SourceIP = sourceIP, pa_Timestamp = ts, pa_ReasonCode = 0, pa_ReasonText = ''''\<rparr>) r"

definition PublishDisconnect ::
    "string \<Rightarrow> string \<Rightarrow> string \<Rightarrow> string \<Rightarrow> int \<Rightarrow> time \<Rightarrow> 's PluginRuntime \<Rightarrow>
     go_panic + 's PluginRuntime \<times> bool" where
  "PublishDisconnect orgID assetUUID clientID sourceIP reasonCode ts r =
     publish (SubjectPresence (rt_Config r))
       (marshalPresence
          \<lparr>pa_Event = EventDisconnect, pa_OrgID = orgID, pa_AssetUUID = assetUUID, pa_ClientID = clientID,
           pa_SourceIP = sourceIP, pa_Timestamp = ts, pa_ReasonCode = reasonCode,
           pa_ReasonText = MapDisconnectReason reasonCode\<rparr>) r"

text \<open>The loop over the code points stops at the first illegal one.\<close>

definition illegalRune :: "rune \<Rightarrow> bool" where
  "illegalRune c \<longleftrightarrow>
     c \<in> set (map byte [CHR ''.'', CHR ''*'', CHR ''>'', CHR '' '', CHR 0x09, CHR 0x0A, CHR 0x0D])"

definition validSubjectToken :: "string \<Rightarrow> bool" where
  "validSubjectToken s \<longleftrightarrow> s \<noteq> '''' \<and> list_all (\<lambda>c. \<not> illegalRune c) (runes s)"

definition ingressSubject :: "Config \<Rightarrow> string \<Rightarrow> string \<Rightarrow> string" where
  "ingressSubject cfg orgID assetUUID = SubjectIngressPrefix cfg @ ''.'' @ orgID @ ''.'' @ assetUUID"

definition PublishIngress ::
    "string \<Rightarrow> string \<Rightarrow> string \<Rightarrow> string \<Rightarrow> bytes option \<Rightarrow> int \<Rightarrow> bool \<Rightarrow> time \<Rightarrow> 's PluginRuntime \<Rightarrow>
     go_panic + 's PluginRuntime \<times> bool" where
  "PublishIngress orgID assetUUID clientID topic payload qos retain ts r =
     (if \<not> validSubjectToken orgID \<or> \<not> validSubjectToken assetUUID then Inr (count_dropped r, False)
      else if MaxIngressPayloadBytes < (case payload of None \<Rightarrow> 0 | Some b \<Rightarrow> length b)
      then Inr (count_dropped r, False)
      else publish (ingressSubject (rt_Config r) orgID assetUUID)
             (marshalIngress
                \<lparr>im_OrgID = orgID, im_AssetUUID = assetUUID, im_ClientID = clientID, im_Topic = topic,
                 im_Payload = payload, im_QoS = qos, im_Retain = retain, im_Timestamp = ts\<rparr>) r)"

subsection \<open>Authentication\<close>

definition ResolveUsername :: "string \<Rightarrow> string option" where
  "ResolveUsername username = parseUsername username"

text \<open>\<open>errIs\<close> compares the error itself and does not follow wrapped errors.\<close>

definition errIs :: "go_error \<Rightarrow> go_error \<Rightarrow> bool" where
  "errIs err target \<longleftrightarrow> err = target"

definition Authenticate ::
    "('s \<Rightarrow> string \<Rightarrow> 's \<times> AuthEntry option result) \<Rightarrow> (string \<Rightarrow> string \<Rightarrow> bool) \<Rightarrow> (rune \<Rightarrow> rune \<Rightarrow> bool) \<Rightarrow>
     string \<Rightarrow> string \<Rightarrow> string \<Rightarrow> string \<Rightarrow> 's PluginRuntime \<Rightarrow> go_panic + 's PluginRuntime \<times> AuthResult" where
  "Authenticate get bcrypt sf username password clientID certSerial r =
     (case ResolveUsername username of
        None \<Rightarrow> Inr (r, AuthDeny)
      | Some assetUUID \<Rightarrow>
          (case rt_Store r of
             None \<Rightarrow> Inr (r, AuthError)
           | Some store \<Rightarrow>
               (case get store assetUUID of
                  (store', Inl err) \<Rightarrow>
                    Inr (r\<lparr>rt_Store := Some store'\<rparr>,
                         if errIs err ErrAuthEntryNotFound then AuthDeny else AuthError)
                | (store', Inr None) \<Rightarrow> Inl NilDereference
                | (store', Inr (Some entry)) \<Rightarrow>
                    let r = r\<lparr>rt_Store := Some store'\<rparr> in
                    if \<not> Enabled entry then Inr (r, AuthDeny)
                    else if AuthType entry = AuthTypeCert then
                      (if certSerial = '''' then Inr (r, AuthDeny)
                       else if AuthorizesCertSerial sf (Some entry) certSerial
                       then Inr (rememberSession clientID (OrgId entry) assetUUID r, AuthAllow)
                       else Inr (r, AuthDeny))
                    else if AuthType entry = AuthTypePassword then
                      (if certSerial \<noteq> '''' then Inr (r, AuthDeny)
                       else if \<not> AuthorizesPassword (Some entry) then Inr (r, AuthDeny)
                       else if \<not> rt_Auth r then Inr (r, AuthError)
                       else if CompareLocal bcrypt (PasswordHash entry) password
                       then Inr (rememberSession clientID (OrgId entry) assetUUID r, AuthAllow)
                       else Inr (r, AuthDeny))
                    else Inr (r, AuthDeny))))"

section \<open>Lemmas\<close>

text \<open>Whether an entry admits the presented credential.\<close>

definition credential_ok ::
    "(string \<Rightarrow> string \<Rightarrow> bool) \<Rightarrow> (rune \<Rightarrow> rune \<Rightarrow> bool) \<Rightarrow> bool \<Rightarrow> string \<Rightarrow> string \<Rightarrow> AuthEntry \<Rightarrow> bool" where
  "credential_ok bcrypt sf auth password certSerial e \<longleftrightarrow>
     Enabled e \<and>
     (if certSerial \<noteq> '''' then AuthType e = ''cert'' \<and> CurrentCertSerial e \<noteq> '''' \<and> EqualFold sf (CurrentCertSerial e) certSerial
      else AuthType e = ''password'' \<and> auth \<and> PasswordHash e \<noteq> '''' \<and> password \<noteq> '''' \<and> bcrypt (PasswordHash e) password)"

lemma auth_types: "AuthTypeCert = ''cert''" "AuthTypePassword = ''password''" "''cert'' \<noteq> ''password''"
  by (simp_all add: AuthTypeCert_def AuthTypePassword_def)

lemma rememberSession_frame [simp]:
  "rt_Async (rememberSession c o' a r) = rt_Async r" "rt_Config (rememberSession c o' a r) = rt_Config r"
  "rt_Store (rememberSession c o' a r) = rt_Store r" "rt_Auth (rememberSession c o' a r) = rt_Auth r"
  "rt_Fanout (rememberSession c o' a r) = rt_Fanout r"
  by (simp_all add: rememberSession_def)

lemma ForgetSession_frame [simp]:
  "rt_Async (ForgetSession c r) = rt_Async r" "rt_Config (ForgetSession c r) = rt_Config r"
  "rt_Store (ForgetSession c r) = rt_Store r" "rt_Fanout (ForgetSession c r) = rt_Fanout r"
  by (simp_all add: ForgetSession_def)

lemma count_dropped_frame [simp]:
  "sessions (count_dropped r) = sessions r" "rt_Config (count_dropped r) = rt_Config r"
  "rt_Store (count_dropped r) = rt_Store r"
  by (simp_all add: count_dropped_def)

text \<open>What a call does once the store has answered with an entry.\<close>

lemma Authenticate_found:
  assumes "ResolveUsername username = Some k" "rt_Store r = Some s" "get s k = (s', Inr (Some e))"
  shows "Authenticate get bcrypt sf username password clientID certSerial r =
    (let r' = r\<lparr>rt_Store := Some s'\<rparr> in
     if credential_ok bcrypt sf (rt_Auth r) password certSerial e
     then Inr (rememberSession clientID (OrgId e) k r', AuthAllow)
     else if Enabled e \<and> AuthType e = ''password'' \<and> certSerial = '''' \<and> PasswordHash e \<noteq> '''' \<and> \<not> rt_Auth r
     then Inr (r', AuthError)
     else Inr (r', AuthDeny))"
  using assms
  by (cases "certSerial = ''''"; cases "AuthType e = ''cert''"; cases "AuthType e = ''password''")
     (simp_all add: Authenticate_def credential_ok_def auth_types CompareLocal_def Let_def)

lemma Authenticate_error:
  assumes "ResolveUsername username = Some k" "rt_Store r = Some s" "get s k = (s', Inl err)"
  shows "Authenticate get bcrypt sf username password clientID certSerial r =
    Inr (r\<lparr>rt_Store := Some s'\<rparr>, if err = ErrAuthEntryNotFound then AuthDeny else AuthError)"
  using assms by (simp add: Authenticate_def errIs_def)


subsection \<open>Clients of the store interface\<close>

context auth_store
begin

text \<open>With a store that keeps its contract, authentication neither panics nor guesses.\<close>

lemma Authenticate_cases:
  assumes "Authenticate (get env) bcrypt sf username password clientID certSerial r = Inr (r', res)"
  obtains (allow) s s' e where "parseUsername username = Some username" "rt_Store r = Some s"
      "get env s username = (s', Inr (Some e))" "credential_ok bcrypt sf (rt_Auth r) password certSerial e"
      "r' = rememberSession clientID (OrgId e) username (r\<lparr>rt_Store := Some s'\<rparr>)" "res = AuthAllow"
  | (refuse) "res \<noteq> AuthAllow" "\<exists>st. r' = r\<lparr>rt_Store := st\<rparr>"
      "\<forall>s s' e. rt_Store r = Some s \<longrightarrow> parseUsername username = Some username \<longrightarrow>
         get env s username = (s', Inr (Some e)) \<longrightarrow>
         \<not> credential_ok bcrypt sf (rt_Auth r) password certSerial e"
proof (cases "parseUsername username = Some username \<and> rt_Store r \<noteq> None")
  case False
  have self: "\<exists>st. r = r\<lparr>rt_Store := st\<rparr>" by (rule exI[of _ "rt_Store r"]) simp
  have "parseUsername username = None \<or> parseUsername username = Some username"
    by (auto simp: parseUsername_def)
  with False have "r' = r" "res \<noteq> AuthAllow"
    using assms by (auto simp: Authenticate_def ResolveUsername_def)
  with False self show thesis by (intro refuse) auto
next
  case True
  then obtain s where s: "rt_Store r = Some s" and u: "ResolveUsername username = Some username"
    by (auto simp: ResolveUsername_def)
  show thesis
  proof (cases rule: get_cases[of env s username])
    case (found s' e)
    show thesis
    proof (cases "credential_ok bcrypt sf (rt_Auth r) password certSerial e")
      case True
      with assms Authenticate_found[where get = "get env", OF u s found(1), of bcrypt sf password clientID certSerial] s u found(1)
      show thesis by (intro allow) (auto simp: ResolveUsername_def Let_def)
    next
      case False
      with assms Authenticate_found[where get = "get env", OF u s found(1), of bcrypt sf password clientID certSerial] s found(1)
      show thesis by (intro refuse) (auto simp: Let_def split: if_splits)
    qed
  next
    case (not_found s')
    with assms Authenticate_error[where get = "get env", OF u s not_found, of bcrypt sf password clientID certSerial] s
    show thesis by (intro refuse) auto
  next
    case (unavailable s')
    with assms Authenticate_error[where get = "get env", OF u s unavailable, of bcrypt sf password clientID certSerial] s
    show thesis by (intro refuse) auto
  qed
qed

lemma Authenticate_total: "\<exists>r' res. Authenticate (get env) bcrypt sf username password clientID certSerial r = Inr (r', res)"
proof (cases "ResolveUsername username")
  case None
  then show ?thesis by (simp add: Authenticate_def)
next
  case (Some k)
  show ?thesis
  proof (cases "rt_Store r")
    case None
    with Some show ?thesis by (simp add: Authenticate_def)
  next
    case store: (Some s)
    show ?thesis
      by (cases rule: get_cases[of env s k])
         (use Some store in \<open>simp_all add: Authenticate_found Authenticate_error Let_def\<close>)
  qed
qed

lemma Authenticate_unavailable:
  assumes "ResolveUsername username = Some k" "rt_Store r = Some s"
    and "snd (get env s k) = Inl ErrAuthStoreUnavailable"
  shows "map_sum id snd (Authenticate (get env) bcrypt sf username password clientID certSerial r) = Inr AuthError"
proof -
  obtain s' where "get env s k = (s', Inl ErrAuthStoreUnavailable)" using assms(3) by (metis prod.collapse)
  with assms(1,2) show ?thesis by (simp add: Authenticate_error)
qed

end


subsection \<open>Subject tokens\<close>

lemma validSubjectToken_iff:
  "validSubjectToken s \<longleftrightarrow> s \<noteq> '''' \<and> set s \<inter> set [CHR ''.'', CHR ''*'', CHR ''>'', CHR '' '', CHR 0x09, CHR 0x0A, CHR 0x0D] = {}"
proof -
  let ?bad = "[CHR ''.'', CHR ''*'', CHR ''>'', CHR '' '', CHR 0x09, CHR 0x0A, CHR 0x0D]"
  have "byte c \<in> set (runes s) \<longleftrightarrow> c \<in> set s" if "c \<in> set ?bad" for c
    using that ContainsRune_ascii[of c s] by (auto simp: ContainsRune_def byte_def)
  then have "(\<exists>x \<in> set (runes s). illegalRune x) \<longleftrightarrow> (\<exists>c \<in> set ?bad. c \<in> set s)"
    unfolding illegalRune_def set_map by blast
  then show ?thesis unfolding validSubjectToken_def list_all_iff by blast
qed

lemma ingressSubject_inj:
  assumes "ingressSubject cfg o1 a1 = ingressSubject cfg o2 a2"
    and "validSubjectToken o1" "validSubjectToken o2"
  shows "o1 = o2 \<and> a1 = a2"
proof -
  have "o1 @ CHR ''.'' # a1 = o2 @ CHR ''.'' # a2" using assms(1) by (simp add: ingressSubject_def)
  moreover have "CHR ''.'' \<notin> set o1" "CHR ''.'' \<notin> set o2" using assms(2,3) by (auto simp: validSubjectToken_iff)
  moreover have "takeWhile (\<lambda>c. c \<noteq> CHR ''.'') (xs @ CHR ''.'' # ys) = xs" if "CHR ''.'' \<notin> set xs" for xs ys
    using that by (subst takeWhile_append2) auto
  ultimately have "o1 = o2" by metis
  with \<open>o1 @ CHR ''.'' # a1 = o2 @ CHR ''.'' # a2\<close> show ?thesis by simp
qed

text \<open>A publishing call only touches the publisher and leaves it in good state, with its pool as it was:
  it does not panic.\<close>

definition only_publishes :: "'s PluginRuntime \<Rightarrow> go_panic + 's PluginRuntime \<times> bool \<Rightarrow> bool" where
  "only_publishes r out \<longleftrightarrow>
     (\<exists>p acc. out = Inr (r\<lparr>rt_Async := p\<rparr>, acc) \<and> publisher_ok p \<and> started p = started (rt_Async r) \<and>
        closed p = closed (rt_Async r) \<and> wg p = wg (rt_Async r))"

lemma count_dropped_publishes:
  "publisher_ok (rt_Async r) \<Longrightarrow> only_publishes r (Inr (count_dropped r, False))"
  using async.drop_ok[of "rt_Async r"] by (auto simp: only_publishes_def count_dropped_def)

lemma publish_publishes:
  assumes "publisher_ok (rt_Async r)"
  shows "only_publishes r (publish subject data r)"
proof (cases data)
  case (Inl err)
  then show ?thesis using count_dropped_publishes[OF assms] by (simp add: publish_def)
next
  case (Inr d)
  obtain p acc where p: "Enqueue subject d (rt_Async r) = Inr (p, acc)" "publisher_ok p"
    using async.send_total[OF assms] by blast
  with Inr Enqueue_pool[OF p(1)] show ?thesis by (auto simp: publish_def only_publishes_def)
qed

lemma Publish_publishes:
  assumes "publisher_ok (rt_Async r)"
  shows "only_publishes r (PublishConnect orgID assetUUID clientID sourceIP ts r)"
    "only_publishes r (PublishDisconnect orgID assetUUID clientID sourceIP reasonCode ts r)"
    "only_publishes r (PublishIngress orgID assetUUID clientID topic payload qos retain ts r)"
  using publish_publishes[OF assms] count_dropped_publishes[OF assms]
  by (simp_all add: PublishConnect_def PublishDisconnect_def PublishIngress_def)

lemma PublishIngress_accepted:
  assumes "publisher_ok (rt_Async r)"
    and "PublishIngress orgID assetUUID clientID topic payload qos retain ts r = Inr (r', True)"
  obtains data where "validSubjectToken orgID" "validSubjectToken assetUUID"
    "(case payload of None \<Rightarrow> 0 | Some b \<Rightarrow> length b) \<le> MaxIngressPayloadBytes"
    "marshalIngress \<lparr>im_OrgID = orgID, im_AssetUUID = assetUUID, im_ClientID = clientID, im_Topic = topic,
       im_Payload = payload, im_QoS = qos, im_Retain = retain, im_Timestamp = ts\<rparr> = Inr data"
    "queue (rt_Async r') = queue (rt_Async r) @
       [\<lparr>job_subject = ingressSubject (rt_Config r) orgID assetUUID, job_data = data\<rparr>]"
proof -
  let ?m = "marshalIngress \<lparr>im_OrgID = orgID, im_AssetUUID = assetUUID, im_ClientID = clientID, im_Topic = topic,
       im_Payload = payload, im_QoS = qos, im_Retain = retain, im_Timestamp = ts\<rparr>"
  have tok: "validSubjectToken orgID" "validSubjectToken assetUUID"
    "(case payload of None \<Rightarrow> 0 | Some b \<Rightarrow> length b) \<le> MaxIngressPayloadBytes"
    and pub: "publish (ingressSubject (rt_Config r) orgID assetUUID) ?m r = Inr (r', True)"
    using assms(2) by (auto simp: PublishIngress_def not_less split: if_splits)
  from pub obtain data where data: "?m = Inr data" by (auto simp: publish_def split: sum.splits)
  with pub have "queue (rt_Async r') = queue (rt_Async r) @
       [\<lparr>job_subject = ingressSubject (rt_Config r) orgID assetUUID, job_data = data\<rparr>]"
    by (auto simp: queue_defs split: sum.splits if_splits option.splits)
  with tok data that show thesis by blast
qed

lemma length_commaSep: "x \<in> set xs \<Longrightarrow> length x \<le> length (commaSep xs)"
  by (induction xs rule: commaSep.induct) auto

lemma marshalIngress_length:
  assumes "marshalIngress i = Inr data" "im_Payload i = Some b"
  shows "(length b + 2) div 3 * 4 < length data"
proof -
  from assms(1) obtain ts where data: "data = json_text (ingress_json i ts)"
    by (auto simp: marshalIngress_def split: option.splits)
  obtain kvs where kvs: "ingress_json i ts = JObj kvs" "(''payload'', JStr (b64encode b)) \<in> set kvs"
    using assms(2) by (auto simp: ingress_json_def)
  have "length (member_text (''payload'', JStr (b64encode b))) \<le> length (commaSep (map member_text kvs))"
    using kvs(2) by (intro length_commaSep) auto
  then show ?thesis unfolding data kvs(1) json_text_JObj by (simp add: member_text_def length_b64encode)
qed

subsection \<open>A concrete runtime\<close>

definition demo_config :: Config where
  "demo_config = \<lparr>NatsURL = ''n'', SubjectPresence = ''p'', SubjectIngressPrefix = ''d'', AuthURL = ''u'',
     AuthAPIKey = ''k'', AuthTimeout = 5 * Second, WorkerPoolSize = 1, BufferSize = 2, CacheL1Path = ''/l1'',
     CacheL1TTL = 30 * Minute, CacheL2Endpoint = ''e'', CacheL2AccessKey = '''', CacheL2SecretKey = '''',
     CacheL2Bucket = ''b'', CacheL2UseSSL = False, FanoutInvalidateSubject = ''f''\<rparr>"

definition demo_rt :: "mem_db TieredAuthStore PluginRuntime" where
  "demo_rt = \<lparr>rt_Config = demo_config, rt_Async = demo_publisher, rt_Auth = True, rt_Store = Some demo_store,
     rt_Fanout = None, sessions = Map.empty\<rparr>"

definition demo_bcrypt :: "string \<Rightarrow> string \<Rightarrow> bool" where
  "demo_bcrypt hash pw \<longleftrightarrow> hash = ''h'' \<and> pw = ''pw''"

lemma demo_login:
  obtains r' where "Authenticate (store_Get (demo_env 0)) demo_bcrypt (\<lambda>_ _. False) ''a1'' ''pw'' ''c1'' '''' demo_rt
      = Inr (r', AuthAllow)" "sessions r' = [''c1'' \<mapsto> \<lparr>si_OrgID = ''o1'', si_AssetUUID = ''a1''\<rparr>]"
proof -
  have "ContainsRune ''a1'' (byte (CHR '':'')) \<longleftrightarrow> False" by (subst ContainsRune_ascii) (simp_all add: byte_def)
  then have u: "ResolveUsername ''a1'' = Some ''a1''" by (simp add: ResolveUsername_def parseUsername_def byte_def)
  have s: "rt_Store demo_rt = Some demo_store" by (simp add: demo_rt_def)
  have ok: "credential_ok demo_bcrypt (\<lambda>_ _. False) True ''pw'' '''' demo_entry"
    by (simp add: credential_ok_def demo_entry_def demo_bcrypt_def)
  from Authenticate_found[of "''a1''" "''a1''" demo_rt demo_store "store_Get (demo_env 0)", OF u s demo_Get] ok that
  show thesis by (simp add: demo_rt_def rememberSession_def demo_entry_def)
qed

lemma demo_ingress:
  assumes "length payload \<le> 921600"
  obtains r' where "PublishIngress ''o1'' ''a1'' ''c1'' ''events/a1/t'' (Some payload) 1 False 0 demo_rt = Inr (r', True)"
proof -
  have tok: "validSubjectToken ''o1''" "validSubjectToken ''a1''" by (simp_all add: validSubjectToken_iff)
  obtain data where "marshalIngress \<lparr>im_OrgID = ''o1'', im_AssetUUID = ''a1'', im_ClientID = ''c1'',
      im_Topic = ''events/a1/t'', im_Payload = Some payload, im_QoS = 1, im_Retain = False, im_Timestamp = 0\<rparr> = Inr data"
    using MarshalTime_epoch by (auto simp: marshalIngress_def)
  with tok assms that show thesis
    by (auto simp: PublishIngress_def MaxIngressPayloadBytes_def queue_defs demo_rt_def
        demo_publisher_def)
qed

lemma demo_rt_ok: "publisher_ok (rt_Async demo_rt)"
  using demo_publisher_ok by (simp add: demo_rt_def)

section \<open>Properties\<close>

text \<open>C2: Who is let in. With the tiered store, \<open>Authenticate\<close> allows a CONNECT exactly when the
  username is well formed, the store has an enabled entry for it, and the credential matches the
  entry's one mode: a certificate for a cert-mode entry whose current serial it carries, or, with
  no certificate, a password that bcrypt accepts against the stored hash of a password-mode
  entry. On success the session of the client is the entry's organisation with the username.\<close>

theorem Authenticate_allows_exactly:
  assumes "Authenticate (store_Get env) bcrypt sf username password clientID certSerial r = Inr (r', res)"
  shows "(res = AuthAllow \<longleftrightarrow>
      (\<exists>s s' e. parseUsername username = Some username \<and> rt_Store r = Some s \<and>
         store_Get env s username = (s', Inr (Some e)) \<and>
         credential_ok bcrypt sf (rt_Auth r) password certSerial e)) \<and>
    (res = AuthAllow \<and> clientID \<noteq> '''' \<longrightarrow>
      (\<exists>s s' e. rt_Store r = Some s \<and> store_Get env s username = (s', Inr (Some e)) \<and>
         LookupSession clientID r' = Some \<lparr>si_OrgID = OrgId e, si_AssetUUID = username\<rparr>))"
  using assms
proof (cases rule: tiered.Authenticate_cases)
  case (allow s s' e)
  then show ?thesis by (auto simp: LookupSession_def rememberSession_def)
next
  case refuse
  then show ?thesis by auto
qed

theorem Authenticate_allows_exactly_witness:
  "\<exists>r'. Authenticate (store_Get (demo_env 0)) demo_bcrypt (\<lambda>_ _. False) ''a1'' ''pw'' ''c1'' '''' demo_rt
      = Inr (r', AuthAllow) \<and> LookupSession ''c1'' r' \<noteq> None"
proof -
  obtain r' where "Authenticate (store_Get (demo_env 0)) demo_bcrypt (\<lambda>_ _. False) ''a1'' ''pw'' ''c1'' '''' demo_rt
      = Inr (r', AuthAllow)" by (rule demo_login)
  with Authenticate_allows_exactly[OF this] show ?thesis by fastforce
qed

text \<open>C10: Fail closed, and no crash: whatever the store's environment does, \<open>Authenticate\<close> returns;
  when the store is unavailable, or there is none, the answer to a well-formed username is an error
  and not an allow. A malformed username is denied before the store is asked.\<close>

theorem Authenticate_fails_closed:
  "(\<exists>r' res. Authenticate (store_Get env) bcrypt sf username password clientID certSerial r = Inr (r', res)) \<and>
   (parseUsername username = Some username \<and>
      (case rt_Store r of None \<Rightarrow> True | Some s \<Rightarrow> snd (store_Get env s username) = Inl ErrAuthStoreUnavailable) \<longrightarrow>
    map_sum id snd (Authenticate (store_Get env) bcrypt sf username password clientID certSerial r) = Inr AuthError)"
proof -
  have "Authenticate (store_Get env) bcrypt sf username password clientID certSerial r = Inr (r, AuthError)"
    if "rt_Store r = None" "parseUsername username = Some username"
    using that by (simp add: Authenticate_def ResolveUsername_def)
  then show ?thesis
    using tiered.Authenticate_total tiered.Authenticate_unavailable[of username username r]
    by (auto simp: ResolveUsername_def split: option.splits)
qed

theorem Authenticate_fails_closed_witness:
  "map_sum id snd (Authenticate (store_Get (demo_env 0)) demo_bcrypt (\<lambda>_ _. False) ''a1'' ''pw'' ''c1'' ''''
     (demo_rt\<lparr>rt_Store := None\<rparr>)) = Inr AuthError"
proof -
  have "ContainsRune ''a1'' (byte (CHR '':'')) \<longleftrightarrow> False" by (subst ContainsRune_ascii) (simp_all add: byte_def)
  then have "parseUsername ''a1'' = Some ''a1''" by (simp add: parseUsername_def byte_def)
  with Authenticate_fails_closed[of "demo_env 0" demo_bcrypt "\<lambda>_ _. False" "''a1''" "''pw''" "''c1''" "''''"
      "demo_rt\<lparr>rt_Store := None\<rparr>"]
  show ?thesis by simp
qed

text \<open>Sessions change on success only: a call that does not allow leaves the session map as it
  was, and one that allows changes no other client's session.\<close>

lemma Authenticate_sessions:
  assumes "Authenticate (store_Get env) bcrypt sf username password clientID certSerial r = Inr (r', res)"
  shows "(res \<noteq> AuthAllow \<longrightarrow> sessions r' = sessions r) \<and>
    (\<forall>c. c \<noteq> clientID \<longrightarrow> sessions r' c = sessions r c) \<and> rt_Async r' = rt_Async r \<and> rt_Config r' = rt_Config r"
  using assms
proof (cases rule: tiered.Authenticate_cases)
  case (allow s s' e)
  then show ?thesis by (auto simp: rememberSession_def)
next
  case refuse
  then show ?thesis by auto
qed

theorem Authenticate_sessions_witness:
  "\<exists>r'. Authenticate (store_Get (demo_env 0)) demo_bcrypt (\<lambda>_ _. False) ''a1'' ''pw'' ''c1'' '''' demo_rt
      = Inr (r', AuthAllow) \<and> sessions r' ''other'' = None"
proof -
  obtain r' where r': "Authenticate (store_Get (demo_env 0)) demo_bcrypt (\<lambda>_ _. False) ''a1'' ''pw'' ''c1'' '''' demo_rt
      = Inr (r', AuthAllow)" by (rule demo_login)
  from Authenticate_sessions[OF this] have "sessions r' ''other'' = sessions demo_rt ''other''" by simp
  with r' show ?thesis by (simp add: demo_rt_def)
qed

text \<open>What an accepted device message becomes: one job at the end of the queue, under a subject
  that names exactly one organisation and asset, with text from which the consumer reads the
  message back; two accepted messages share a subject only when they are of the same device.\<close>

theorem PublishIngress_routes:
  assumes "publisher_ok (rt_Async r)"
    and "PublishIngress o1 a1 clientID topic payload qos retain ts r = Inr (r', True)"
    and "ingress_valid \<lparr>im_OrgID = o1, im_AssetUUID = a1, im_ClientID = clientID, im_Topic = topic,
       im_Payload = payload, im_QoS = qos, im_Retain = retain, im_Timestamp = ts\<rparr>"
  shows "\<exists>data. queue (rt_Async r') = queue (rt_Async r) @
       [\<lparr>job_subject = ingressSubject (rt_Config r) o1 a1, job_data = data\<rparr>] \<and>
     json_Unmarshal (decodeIngress p) zero_IngressMessage data =
       Inr \<lparr>im_OrgID = o1, im_AssetUUID = a1, im_ClientID = clientID, im_Topic = topic,
            im_Payload = payload, im_QoS = qos, im_Retain = retain, im_Timestamp = ts\<rparr> \<and>
     (\<forall>o2 a2. validSubjectToken o2 \<longrightarrow> ingressSubject (rt_Config r) o2 a2 = ingressSubject (rt_Config r) o1 a1 \<longrightarrow>
        o2 = o1 \<and> a2 = a1)"
proof -
  from assms(1,2) obtain data where d: "validSubjectToken o1"
    "marshalIngress \<lparr>im_OrgID = o1, im_AssetUUID = a1, im_ClientID = clientID, im_Topic = topic,
       im_Payload = payload, im_QoS = qos, im_Retain = retain, im_Timestamp = ts\<rparr> = Inr data"
    "queue (rt_Async r') = queue (rt_Async r) @
       [\<lparr>job_subject = ingressSubject (rt_Config r) o1 a1, job_data = data\<rparr>]"
    by (rule PublishIngress_accepted)
  from ingress_Unmarshal[OF assms(3) d(2)] d(3) ingressSubject_inj[OF _ _ d(1)] show ?thesis by blast
qed

theorem PublishIngress_routes_witness:
  "\<exists>r' data. PublishIngress ''o1'' ''a1'' ''c1'' ''events/a1/t'' (Some ''hi'') 1 False 0 demo_rt = Inr (r', True) \<and>
     queue (rt_Async r') = [\<lparr>job_subject = ''d.o1.a1'', job_data = data\<rparr>]"
proof -
  obtain r' where r': "PublishIngress ''o1'' ''a1'' ''c1'' ''events/a1/t'' (Some ''hi'') 1 False 0 demo_rt = Inr (r', True)"
    by (rule demo_ingress[of "''hi''"]) simp_all
  have "ingress_valid \<lparr>im_OrgID = ''o1'', im_AssetUUID = ''a1'', im_ClientID = ''c1'',
      im_Topic = ''events/a1/t'', im_Payload = Some ''hi'', im_QoS = 1, im_Retain = False, im_Timestamp = 0\<rparr>"
    by (simp add: ingress_valid_def validUTF8_ascii byte_def int64_defs)
  from PublishIngress_routes[OF demo_rt_ok r' this, of "\<lambda>_. None"] obtain data where
    "queue (rt_Async r') = queue (rt_Async demo_rt) @
       [\<lparr>job_subject = ingressSubject (rt_Config demo_rt) ''o1'' ''a1'', job_data = data\<rparr>]"
    by blast
  then have "queue (rt_Async r') = [\<lparr>job_subject = ''d.o1.a1'', job_data = data\<rparr>]"
    by (simp add: demo_rt_def demo_publisher_def ingressSubject_def demo_config_def)
  with r' show ?thesis by blast
qed

text \<open>What is refused: a message of a device whose organisation or asset would break the subject,
  or with a payload above the limit, is counted as dropped and changes nothing else.\<close>

lemma PublishIngress_refuses:
  assumes "set orgID \<inter> {CHR ''.'', CHR ''*'', CHR ''>'', CHR '' ''} \<noteq> {} \<or>
           set assetUUID \<inter> {CHR ''.'', CHR ''*'', CHR ''>'', CHR '' ''} \<noteq> {} \<or>
           orgID = '''' \<or> assetUUID = '''' \<or> 921600 < length payload"
  shows "PublishIngress orgID assetUUID clientID topic (Some payload) qos retain ts r =
    Inr (r\<lparr>rt_Async := (rt_Async r)\<lparr>dropped := dropped (rt_Async r) + 1\<rparr>\<rparr>, False)"
proof -
  have "\<not> validSubjectToken orgID \<or> \<not> validSubjectToken assetUUID \<or> MaxIngressPayloadBytes < length payload"
    using assms by (auto simp: validSubjectToken_iff MaxIngressPayloadBytes_def)
  then show ?thesis by (auto simp: PublishIngress_def count_dropped_def)
qed

theorem PublishIngress_refuses_witness:
  "PublishIngress ''a.b'' ''a1'' ''c1'' ''t'' (Some ''hi'') 1 False 0 demo_rt =
    Inr (demo_rt\<lparr>rt_Async := (rt_Async demo_rt)\<lparr>dropped := dropped (rt_Async demo_rt) + 1\<rparr>\<rparr>, False)"
  by (rule PublishIngress_refuses) simp

text \<open>C40: The limit on the payload does not leave room for base64: every accepted payload of 768 KiB
  or more, up to the limit of 900 KiB, makes a message longer than 1 MiB, the default
  \<^verbatim>\<open>max_payload\<close> of a NATS server.\<close>

theorem ingress_limit_exceeds_max_payload:
  assumes "publisher_ok (rt_Async r)" "768 * 1024 \<le> length payload"
    and "PublishIngress orgID assetUUID clientID topic (Some payload) qos retain ts r = Inr (r', True)"
  shows "length payload \<le> 900 * 1024 \<and> 1024 * 1024 < length (job_data (last (queue (rt_Async r'))))"
  using assms(1,3)
proof (cases rule: PublishIngress_accepted)
  case (1 data)
  have "(768 * 1024 + 2) div 3 * 4 \<le> (length payload + 2) div 3 * 4"
    using assms(2) by (intro mult_le_mono1 div_le_mono) simp
  with 1 marshalIngress_length[OF 1(4)] show ?thesis by (simp add: MaxIngressPayloadBytes_def)
qed


theorem ingress_limit_exceeds_max_payload_witness:
  "\<exists>payload r'. length payload = 900 * 1024 \<and>
     PublishIngress ''o1'' ''a1'' ''c1'' ''events/a1/t'' (Some payload) 1 False 0 demo_rt = Inr (r', True) \<and>
     1024 * 1024 < length (job_data (last (queue (rt_Async r'))))"
proof -
  obtain payload :: bytes where len: "length payload = 900 * 1024" using Ex_list_of_length by blast
  then obtain r' where r': "PublishIngress ''o1'' ''a1'' ''c1'' ''events/a1/t'' (Some payload) 1 False 0 demo_rt = Inr (r', True)"
    using demo_ingress[of payload] by auto
  have "768 * 1024 \<le> length payload" using len by simp
  from ingress_limit_exceeds_max_payload[OF demo_rt_ok this r'] len r' show ?thesis by blast
qed

end
