(* ===== verification/RuntimeInit.thy ===== *)
theory RuntimeInit
  imports Plugin
begin

text \<open>
  \<^verbatim>\<open>src/runtime_init.go\<close>: building the runtime out of its parts, in the order of the code. The
  outside world is the store's environment, whether \<open>Subscribe\<close> reports an error, and what the
  NATS client and the timer do while a failed build drains the publisher.
\<close>

section \<open>Definitions\<close>

record RuntimeOptions =
  ro_Config :: Config
  ro_Publisher :: bool
  ro_NatsConn :: bool

definition ShutdownTimeout :: duration where "ShutdownTimeout = 5 * Second"

text \<open>A failed build returns an error; the publisher it had started is drained and given back here.\<close>

type_synonym 'db build_result = "(go_error \<times> AsyncPublisher option) + 'db TieredAuthStore PluginRuntime"

definition drainOnFailure ::
    "(publishJob \<Rightarrow> pub_outcome) \<Rightarrow> bool \<Rightarrow> AsyncPublisher \<Rightarrow> go_error \<Rightarrow> go_panic + 'db build_result" where
  "drainOnFailure pub in_time async err =
     (case Drain pub in_time async of
        Inl e \<Rightarrow> Inl e
      | Inr (async, _) \<Rightarrow> Inr (Inl (err, Some async)))"

text \<open>The best-effort fanout consumer: absent when it cannot be made or started.\<close>

definition startFanout :: "go_error option \<Rightarrow> string \<Rightarrow> FanoutConsumer option" where
  "startFanout subscribeErr subject =
     (case NewFanoutConsumer False False subject of
        Inl _ \<Rightarrow> None
      | Inr fc \<Rightarrow> (case fanout_Start subscribeErr fc of (fc, None) \<Rightarrow> Some fc | (fc, Some _) \<Rightarrow> None))"

definition BuildRuntime ::
    "'db store_env \<Rightarrow> go_error option \<Rightarrow> (publishJob \<Rightarrow> pub_outcome) \<Rightarrow> bool \<Rightarrow> RuntimeOptions \<Rightarrow>
     go_panic + 'db build_result" where
  "BuildRuntime env subscribeErr pub in_time opts =
     (let cfg = ro_Config opts in
      if \<not> ro_Publisher opts then Inr (Inl (ErrText ''publisher is required'', None))
      else case NewAsyncPublisher False (BufferSize cfg) (WorkerPoolSize cfg) of
        Inl e \<Rightarrow> Inl e
      | Inr (Inl err) \<Rightarrow> Inr (Inl (err, None))
      | Inr (Inr async) \<Rightarrow>
         (case Start async of
            Inl e \<Rightarrow> Inl e
          | Inr async \<Rightarrow>
             (case NewAuthClient \<lparr>URL = AuthURL cfg, APIKey = AuthAPIKey cfg, Timeout = AuthTimeout cfg,
                                  MaxIdleConns = 0, IdleConnTimeout = 0\<rparr> of
                Inl err \<Rightarrow> drainOnFailure pub in_time async err
              | Inr authClient \<Rightarrow>
                 (case NewTieredAuthStore env
                         \<lparr>L1Path = CacheL1Path cfg, L2Endpoint = CacheL2Endpoint cfg,
                          L2AccessKey = CacheL2AccessKey cfg, L2SecretKey = CacheL2SecretKey cfg,
                          L2Bucket = CacheL2Bucket cfg, L2UseSSL = CacheL2UseSSL cfg,
                          L3Client = Some authClient, L1TTL = CacheL1TTL cfg\<rparr> of
                    Inl err \<Rightarrow> drainOnFailure pub in_time async err
                  | Inr store \<Rightarrow>
                      Inr (Inr \<lparr>rt_Config = cfg, rt_Async = async, rt_Auth = True, rt_Store = Some store,
                                rt_Fanout = (if ro_NatsConn opts
                                             then startFanout subscribeErr (FanoutInvalidateSubject cfg)
                                             else None),
                                sessions = Map.empty\<rparr>)))))"

section \<open>Lemmas\<close>

text \<open>What a runtime has when it is ready for callbacks.\<close>

definition runtime_ready :: "'db TieredAuthStore PluginRuntime \<Rightarrow> bool" where
  "runtime_ready r \<longleftrightarrow>
     publisher_ok (rt_Async r) \<and> started (rt_Async r) \<and> \<not> closed (rt_Async r) \<and> 0 < wg (rt_Async r) \<and>
     rt_Auth r \<and> (\<exists>s. rt_Store r = Some s \<and> L3Client (ts_cfg s) \<noteq> None \<and> 0 < L1TTL (ts_cfg s)) \<and>
     (\<forall>fc. rt_Fanout r = Some fc \<longrightarrow> fc_sub fc \<and> \<not> fc_closed fc)"

lemma NewAuthClient_configured:
  assumes "LoadConfig opts = Inr cfg"
  shows "\<exists>c. NewAuthClient \<lparr>URL = AuthURL cfg, APIKey = AuthAPIKey cfg, Timeout = AuthTimeout cfg,
      MaxIdleConns = 0, IdleConnTimeout = 0\<rparr> = Inr c"
  using assms by (auto simp: NewAuthClient_def LoadConfig_def Let_def split: if_splits)

text \<open>The sizes of a configuration for which Go can make the channel and the wait group can count the
  workers.\<close>

definition pool_fits :: "Config \<Rightarrow> bool" where
  "pool_fits cfg \<longleftrightarrow> makechan_fits (BufferSize cfg) \<and> WorkerPoolSize cfg < 2 ^ 31"

text \<open>What \<^verbatim>\<open>minio.New\<close> answers for a configuration.\<close>

definition minio_answer :: "'db store_env \<Rightarrow> Config \<Rightarrow> string option" where
  "minio_answer env cfg = se_minioNew env (CacheL2Endpoint cfg)
     \<lparr>mo_accessKey = CacheL2AccessKey cfg, mo_secretKey = CacheL2SecretKey cfg, mo_secure = CacheL2UseSSL cfg\<rparr>"

text \<open>Pebble opens the L1 path, and the MinIO client, when an endpoint is configured, can be made.\<close>

definition layers_open :: "'db store_env \<Rightarrow> Config \<Rightarrow> bool" where
  "layers_open env cfg \<longleftrightarrow>
     is_Inr (pb_Open (se_pebble env) (CacheL1Path cfg)) \<and>
     (CacheL2Endpoint cfg = '''' \<or> minio_answer env cfg = None)"

text \<open>The publisher of a loaded configuration: a panic when the sizes do not fit, otherwise a pool of
  the configured size, running.\<close>

lemma Start_configured:
  assumes "LoadConfig opts = Inr cfg"
  obtains (oversized) e where "\<not> pool_fits cfg"
      "NewAsyncPublisher False (BufferSize cfg) (WorkerPoolSize cfg) = Inl e \<or>
       (\<exists>p0. NewAsyncPublisher False (BufferSize cfg) (WorkerPoolSize cfg) = Inr (Inr p0) \<and> Start p0 = Inl e)"
  | (running) p0 p where "pool_fits cfg"
      "NewAsyncPublisher False (BufferSize cfg) (WorkerPoolSize cfg) = Inr (Inr p0)" "Start p0 = Inr p"
      "publisher_ok p" "started p" "\<not> closed p" "wg p = nat (WorkerPoolSize cfg)" "0 < wg p"
      "queue p = []" "in_work p = []" "queue_cap p = nat (BufferSize cfg)"
proof -
  have pos: "0 < BufferSize cfg" "0 < WorkerPoolSize cfg"
    using LoadConfig_Inr(3,4)[OF assms] intOrDefault_pos
    by (simp_all add: DefaultBufferSize_def DefaultWorkerPoolSize_def)
  show thesis
  proof (cases "makechan_fits (BufferSize cfg)")
    case False
    with pos show thesis
      by (intro oversized[of "PanicText ''makechan: size out of range''"]) (auto simp: pool_fits_def NewAsyncPublisher_def)
  next
    case fits: True
    let ?p0 = "\<lparr>queue = [], queue_cap = nat (BufferSize cfg), chan_closed = False, in_work = [],
        ap_workers = nat (WorkerPoolSize cfg), wg = 0, closed = False, enqueued = 0, published = 0,
        publishErr = 0, dropped = 0, droppedNoStart = 0, panics = 0, started = False\<rparr>"
    have p0: "NewAsyncPublisher False (BufferSize cfg) (WorkerPoolSize cfg) = Inr (Inr ?p0)"
      using pos fits by (simp add: NewAsyncPublisher_def)
    show thesis
    proof (cases "WorkerPoolSize cfg < 2 ^ 31")
      case True
      with pos have "nat (WorkerPoolSize cfg) < 2 ^ 31" by (simp add: nat_less_iff)
      with pos fits True p0 show thesis
        by (intro running[of ?p0 "?p0\<lparr>started := True, wg := nat (WorkerPoolSize cfg)\<rparr>"])
           (simp_all add: pool_fits_def Start_eq publisher_ok_def)
    next
      case False
      with pos have "\<not> nat (WorkerPoolSize cfg) < 2 ^ 31" by (simp add: nat_less_iff)
      with False p0 show thesis
        by (intro oversized[of "PanicText ''sync: negative WaitGroup counter''"]) (auto simp: pool_fits_def Start_eq)
    qed
  qed
qed

lemma drainOnFailure_total:
  assumes "publisher_ok p" "\<not> closed p" "0 < wg p"
  shows "\<exists>q. drainOnFailure pub in_time p err = Inr (Inl (err, Some q)) \<and> closed q"
  by (rule Drain_open[OF assms, of pub in_time]) (simp add: drainOnFailure_def)

text \<open>The configuration that \<open>BuildRuntime\<close> gives to the store.\<close>

definition store_config :: "Config \<Rightarrow> AuthClient \<Rightarrow> TieredAuthStoreConfig" where
  "store_config cfg c = \<lparr>L1Path = CacheL1Path cfg, L2Endpoint = CacheL2Endpoint cfg, L2AccessKey = CacheL2AccessKey cfg,
     L2SecretKey = CacheL2SecretKey cfg, L2Bucket = CacheL2Bucket cfg, L2UseSSL = CacheL2UseSSL cfg,
     L3Client = Some c, L1TTL = CacheL1TTL cfg\<rparr>"

lemma NewTieredAuthStore_result:
  assumes "CacheL1Path cfg \<noteq> ''''"
  shows "(\<exists>err. NewTieredAuthStore env (store_config cfg c) = Inl err) \<longleftrightarrow> \<not> layers_open env cfg"
  using assms by (auto simp: NewTieredAuthStore_def layers_open_def minio_answer_def store_config_def Let_def is_Inr_def
      split: sum.splits option.splits)

lemma NewTieredAuthStore_store:
  "NewTieredAuthStore env cfg = Inr s \<Longrightarrow> L3Client (ts_cfg s) = L3Client cfg \<and> L3Client cfg \<noteq> None \<and> 0 < L1TTL (ts_cfg s) \<and>
     (L1Path cfg \<noteq> '''' \<longrightarrow> pebbleDB s \<noteq> None)"
  by (auto simp: NewTieredAuthStore_def fresh_store_def Let_def Minute_def Second_def
      split: if_splits option.splits sum.splits)

lemma L1Path_configured: "LoadConfig opts = Inr cfg \<Longrightarrow> CacheL1Path cfg \<noteq> ''''"
  by (auto simp: LoadConfig_def Let_def stringOrDefault_ne DefaultCacheL1Path_def split: if_splits)

lemma startFanout_iff:
  "startFanout subscribeErr subj = None \<longleftrightarrow> subscribeErr \<noteq> None"
  "startFanout subscribeErr subj = Some fc \<Longrightarrow> fc_sub fc \<and> \<not> fc_closed fc"
  by (auto simp: startFanout_def NewFanoutConsumer_def fanout_Start_def split: option.splits if_splits)

lemma BuildRuntime_cases:
  assumes "LoadConfig opts = Inr cfg"
  obtains (panic) e where
      "BuildRuntime env subscribeErr pub in_time \<lparr>ro_Config = cfg, ro_Publisher = True, ro_NatsConn = conn\<rparr> = Inl e"
      "\<not> pool_fits cfg"
  | (failed) err p where
      "BuildRuntime env subscribeErr pub in_time \<lparr>ro_Config = cfg, ro_Publisher = True, ro_NatsConn = conn\<rparr> =
         Inr (Inl (err, Some p))" "closed p" "pool_fits cfg" "\<not> layers_open env cfg"
  | (built) r s where
      "BuildRuntime env subscribeErr pub in_time \<lparr>ro_Config = cfg, ro_Publisher = True, ro_NatsConn = conn\<rparr> =
         Inr (Inr r)" "runtime_ready r" "wg (rt_Async r) = nat (WorkerPoolSize cfg)"
      "queue_cap (rt_Async r) = nat (BufferSize cfg)" "sessions r = Map.empty" "rt_Config r = cfg"
      "rt_Fanout r = (if conn then startFanout subscribeErr (FanoutInvalidateSubject cfg) else None)"
      "rt_Store r = Some s" "pebbleDB s \<noteq> None" "pool_fits cfg" "layers_open env cfg"
      "queue (rt_Async r) = []" "in_work (rt_Async r) = []"
proof -
  let ?build = "BuildRuntime env subscribeErr pub in_time \<lparr>ro_Config = cfg, ro_Publisher = True, ro_NatsConn = conn\<rparr>"
  show thesis
    using assms
  proof (cases rule: Start_configured)
    case (oversized e)
    then have "?build = Inl e" by (auto simp: BuildRuntime_def)
    with oversized(1) show thesis by (rule panic[rotated])
  next
    case p: (running p0 p)
    from NewAuthClient_configured[OF assms] obtain c where c: "NewAuthClient \<lparr>URL = AuthURL cfg, APIKey = AuthAPIKey cfg,
        Timeout = AuthTimeout cfg, MaxIdleConns = 0, IdleConnTimeout = 0\<rparr> = Inr c" by blast
    show thesis
    proof (cases "NewTieredAuthStore env (store_config cfg c)")
      case (Inl err)
      then have "?build = drainOnFailure pub in_time p err" by (simp add: BuildRuntime_def p(2,3) c store_config_def)
      then obtain q where "?build = Inr (Inl (err, Some q))" "closed q"
        using drainOnFailure_total[OF p(4,6,8)] by metis
      moreover have "\<not> layers_open env cfg"
        using NewTieredAuthStore_result[OF L1Path_configured[OF assms]] Inl by blast
      ultimately show thesis using p(1) failed by blast
    next
      case (Inr store)
      have "L3Client (ts_cfg store) \<noteq> None" "0 < L1TTL (ts_cfg store)" "pebbleDB store \<noteq> None"
        using NewTieredAuthStore_store[OF Inr] L1Path_configured[OF assms] by (simp_all add: store_config_def)
      moreover have "layers_open env cfg"
        using NewTieredAuthStore_result[OF L1Path_configured[OF assms], of env c] Inr by auto
      moreover define r where "r = \<lparr>rt_Config = cfg, rt_Async = p, rt_Auth = True, rt_Store = Some store,
          rt_Fanout = (if conn then startFanout subscribeErr (FanoutInvalidateSubject cfg) else None),
          sessions = Map.empty\<rparr>"
      moreover have "?build = Inr (Inr r)"
        by (simp add: BuildRuntime_def p(2,3) c Inr[unfolded store_config_def] r_def)
      ultimately show thesis using p
        by (intro built[of r store]) (auto simp: runtime_ready_def startFanout_iff split: if_splits)
    qed
  qed
qed

text \<open>A configuration and a world in which the build succeeds.\<close>

lemma demo_opts_fit:
  assumes "LoadConfig (demo_opts(''auth_timeout_seconds'' \<mapsto> v)) = Inr cfg"
  shows "pool_fits cfg"
proof -
  have "intOrDefault (demo_opts(''auth_timeout_seconds'' \<mapsto> v)) ''worker_pool_size'' d = d"
    "intOrDefault (demo_opts(''auth_timeout_seconds'' \<mapsto> v)) ''buffer_size'' d = d" for d
    by (simp_all add: intOrDefault_def opt_def demo_opts_def Let_def)
  then show ?thesis using LoadConfig_Inr(3,4)[OF assms]
    by (simp add: pool_fits_def makechan_fits_def DefaultBufferSize_def DefaultWorkerPoolSize_def)
qed

lemma demo_build:
  obtains cfg r where "LoadConfig (demo_opts(''auth_timeout_seconds'' \<mapsto> ''x'')) = Inr cfg"
    "BuildRuntime (demo_env 0) None (\<lambda>_. PubOk) True \<lparr>ro_Config = cfg, ro_Publisher = True, ro_NatsConn = True\<rparr> = Inr (Inr r)"
proof -
  obtain cfg where cfg: "LoadConfig (demo_opts(''auth_timeout_seconds'' \<mapsto> ''x'')) = Inr cfg" by (rule demo_opts_load)
  have sizes: "pool_fits cfg" using demo_opts_fit[OF cfg] .
  have layers: "layers_open (demo_env 0) cfg" by (simp add: layers_open_def minio_answer_def demo_env_def mem_api_def)
  from cfg show thesis
    by (cases rule: BuildRuntime_cases[where env = "demo_env 0" and subscribeErr = None and pub = "\<lambda>_. PubOk" and
          in_time = True and conn = True]) (use sizes layers that[OF cfg] in auto)
qed

section \<open>Properties\<close>

text \<open>C30: What a loaded configuration builds. With a publisher and a configuration that \<open>LoadConfig\<close>
  produced, \<open>BuildRuntime\<close> panics exactly when the buffer is too large for a Go channel or the
  pool for a wait group, which \<open>LoadConfig\<close> does not check. Otherwise it fails exactly when Pebble cannot
  open the L1 path or the MinIO client cannot be made, and then the publisher it started is
  drained; and when it succeeds the runtime is ready: pool running with the configured size, store
  with an L3 client and a positive TTL, no sessions, no jobs, and a fanout consumer exactly when
  the subscription worked.\<close>

theorem BuildRuntime_ready:
  assumes "LoadConfig opts = Inr cfg"
  shows "(case BuildRuntime env subscribeErr pub in_time \<lparr>ro_Config = cfg, ro_Publisher = True, ro_NatsConn = conn\<rparr> of
      Inl panic \<Rightarrow> \<not> pool_fits cfg
    | Inr (Inl (err, async)) \<Rightarrow> pool_fits cfg \<and> \<not> layers_open env cfg \<and> (\<exists>p. async = Some p \<and> closed p)
    | Inr (Inr r) \<Rightarrow>
        pool_fits cfg \<and> layers_open env cfg \<and>
        runtime_ready r \<and> wg (rt_Async r) = nat (WorkerPoolSize cfg) \<and>
        queue_cap (rt_Async r) = nat (BufferSize cfg) \<and> sessions r = Map.empty \<and> rt_Config r = cfg \<and>
        queue (rt_Async r) = [] \<and> in_work (rt_Async r) = [] \<and>
        (rt_Fanout r \<noteq> None \<longleftrightarrow> conn \<and> subscribeErr = None))"
  by (rule BuildRuntime_cases[OF assms, of env subscribeErr pub in_time conn])
     (simp_all add: startFanout_iff split: if_splits, simp flip: not_None_eq add: startFanout_iff)

theorem BuildRuntime_ready_witness:
  "\<exists>cfg r. BuildRuntime (demo_env 0) None (\<lambda>_. PubOk) True
     \<lparr>ro_Config = cfg, ro_Publisher = True, ro_NatsConn = True\<rparr> = Inr (Inr r) \<and> runtime_ready r"
proof -
  obtain cfg r where b: "LoadConfig (demo_opts(''auth_timeout_seconds'' \<mapsto> ''x'')) = Inr cfg"
    "BuildRuntime (demo_env 0) None (\<lambda>_. PubOk) True \<lparr>ro_Config = cfg, ro_Publisher = True, ro_NatsConn = True\<rparr> = Inr (Inr r)"
    by (rule demo_build)
  from BuildRuntime_ready[OF b(1), where env = "demo_env 0" and subscribeErr = None and pub = "\<lambda>_. PubOk" and in_time = True and conn = True] b(2) have "runtime_ready r" by simp
  with b(2) show ?thesis by blast
qed

end
