(* ===== verification/Connect.thy ===== *)
theory Connect
  imports Logging GoTime
begin

text \<open>
  \<^verbatim>\<open>src/connect.go\<close>: the NATS connection with the plugin's resilience options. The NATS client is
  outside this repository: \<open>dial\<close> is what \<^verbatim>\<open>nats.Connect\<close> answers for a URL and options, an error
  or a connection \<open>'c\<close>. The life-cycle hooks only log; a hook is the level and the text of its
  line, and an error value is its text.
\<close>

section \<open>Definitions\<close>

definition natsMaxReconnects :: int where "natsMaxReconnects = -1"
definition natsReconnectWait :: duration where "natsReconnectWait = 1 * Second"
definition natsReconnectBufSize :: int where "natsReconnectBufSize = 16 * 1024 * 1024"
definition natsFlusherTimeout :: duration where "natsFlusherTimeout = 50 * 1000000"
definition natsPingInterval :: duration where "natsPingInterval = 2 * Minute"

record nats_options =
  no_Name :: string
  no_MaxReconnects :: int
  no_ReconnectWait :: duration
  no_ReconnectBufSize :: int
  no_NoEcho :: bool
  no_FlusherTimeout :: duration
  no_PingInterval :: duration

definition nats_opts :: nats_options where
  "nats_opts =
     \<lparr>no_Name = ''mapex-broker-plugin'', no_MaxReconnects = natsMaxReconnects,
      no_ReconnectWait = natsReconnectWait, no_ReconnectBufSize = natsReconnectBufSize, no_NoEcho = True,
      no_FlusherTimeout = natsFlusherTimeout, no_PingInterval = natsPingInterval\<rparr>"

definition ConnectNATS :: "(string \<Rightarrow> nats_options \<Rightarrow> go_error + 'c) \<Rightarrow> string \<Rightarrow> go_error + 'c" where
  "ConnectNATS dial url =
     (if url = '''' then Inl (ErrText ''nats url is required'')
      else dial url nats_opts)"

subsection \<open>Life-cycle hooks\<close>

definition onDisconnect :: "string option \<Rightarrow> LogLevel \<times> string" where
  "onDisconnect err =
     (case err of
        Some e \<Rightarrow> (LogWarn, ''NATS disconnected: err='' @ e)
      | None \<Rightarrow> (LogWarn, ''NATS disconnected (no error reported)''))"

definition onReconnect :: "string \<Rightarrow> LogLevel \<times> string" where
  "onReconnect url = (LogInfo, ''NATS reconnected url='' @ url)"

definition onClosed :: "LogLevel \<times> string" where
  "onClosed = (LogInfo, ''NATS connection closed'')"

definition onAsyncError :: "string \<Rightarrow> LogLevel \<times> string" where
  "onAsyncError err = (LogWarn, ''NATS async error: '' @ err)"

end
