(* ===== verification/PluginMain.thy ===== *)
theory PluginMain
  imports RuntimeInit Connect
begin

text \<open>
  \<^verbatim>\<open>src/plugin/main.go\<close>: the entry points that Mosquitto calls. The process-wide variables are the
  fields of a record; Mosquitto's table of registered callbacks stands beside them. A C string
  that may be NULL is an option; it is the bytes its pointer leads to, and it ends at the first
  zero byte. What the broker hands to a callback is a record of the fields
  that the callback reads; a NULL event is \<^const>\<open>None\<close>.
\<close>

section \<open>Definitions\<close>

datatype mosq_rc =
    MOSQ_ERR_SUCCESS
  | MOSQ_ERR_AUTH
  | MOSQ_ERR_ACL_DENIED
  | MOSQ_ERR_UNKNOWN
  | MOSQ_ERR_PLUGIN_DEFER
  | MOSQ_ERR_CODE int

datatype mosq_evt = MOSQ_EVT_BASIC_AUTH | MOSQ_EVT_ACL_CHECK | MOSQ_EVT_DISCONNECT | MOSQ_EVT_MESSAGE

record nats_conn =
  nc_url :: string
  nc_closed :: bool

record 'db plugin_process =
  runtime :: "'db TieredAuthStore PluginRuntime option"
  natsConn :: "nats_conn option"
  pluginID :: bool
  registered :: "mosq_evt list"

text \<open>\<^verbatim>\<open>C.GoString\<close> copies the bytes up to the first zero byte and takes NULL for the empty string.\<close>

fun GoString :: "string option \<Rightarrow> string" where
  "GoString None = ''''"
| "GoString (Some s) = takeWhile (\<lambda>c. c \<noteq> CHR 0x00) s"

text \<open>A context is its deadline: none when the timeout is not positive.\<close>

definition contextWithTimeout :: "duration \<Rightarrow> duration option" where
  "contextWithTimeout timeout = (if timeout \<le> 0 then None else Some timeout)"

subsection \<open>Initialisation and clean-up\<close>

text \<open>
  What the outside does during \<open>mosquitto_plugin_init\<close> and \<open>mosquitto_plugin_cleanup\<close>. \<open>ie_deleting\<close>
  tells whether the goroutine of the fanout subscription stands in \<open>Invalidate\<close>, between its test
  of the \<open>pebbleDB\<close> pointer and the delete through it, while clean-up closes the store: \<open>Stop\<close> only
  starts the drain of the subscription and does not wait for a running handler.
\<close>

record 'db init_env =
  ie_store :: "'db store_env"
  ie_dial :: "string \<Rightarrow> nats_options \<Rightarrow> go_error + unit"
  ie_subscribeErr :: "go_error option"
  ie_pub :: "publishJob \<Rightarrow> pub_outcome"
  ie_in_time :: bool
  ie_register :: "mosq_evt \<Rightarrow> mosq_rc"
  ie_unregister :: "mosq_evt \<Rightarrow> mosq_rc"
  ie_fanoutDrainErr :: "go_error option"
  ie_deleting :: bool

fun readOpts :: "(string option \<times> string option) list option \<Rightarrow> options" where
  "readOpts None = Map.empty"
| "readOpts (Some raw) = fold (\<lambda>(k, v) opts. opts(GoString k \<mapsto> GoString v)) raw Map.empty"

text \<open>The callbacks in the order of the code, and the loop over them: the callbacks registered so far
  and the first status that is not success.\<close>

definition callback_pairs :: "mosq_evt list" where
  "callback_pairs = [MOSQ_EVT_BASIC_AUTH, MOSQ_EVT_ACL_CHECK, MOSQ_EVT_DISCONNECT, MOSQ_EVT_MESSAGE]"

fun registerLoop :: "(mosq_evt \<Rightarrow> mosq_rc) \<Rightarrow> mosq_evt list \<Rightarrow> mosq_evt list \<Rightarrow> mosq_evt list \<times> mosq_rc" where
  "registerLoop reg [] acc = (acc, MOSQ_ERR_SUCCESS)"
| "registerLoop reg (e # es) acc =
     (if reg e \<noteq> MOSQ_ERR_SUCCESS then (acc, reg e) else registerLoop reg es (acc @ [e]))"

definition registerCallbacks :: "(mosq_evt \<Rightarrow> mosq_rc) \<Rightarrow> mosq_evt list \<Rightarrow> mosq_evt list \<times> mosq_rc" where
  "registerCallbacks reg acc = registerLoop reg callback_pairs acc"

text \<open>
  The entry points also give back, last, a runtime and a connection that they have torn down and
  that the process forgets.
\<close>

type_synonym 'db torn = "('db TieredAuthStore PluginRuntime \<times> nats_conn option) option"

definition mosquitto_plugin_init ::
    "'db init_env \<Rightarrow> (string option \<times> string option) list option \<Rightarrow> 'db plugin_process \<Rightarrow>
     go_panic + 'db plugin_process \<times> mosq_rc \<times> 'db torn" where
  "mosquitto_plugin_init env rawOpts p =
     (case LoadConfig (readOpts rawOpts) of
        Inl err \<Rightarrow> Inr (p, MOSQ_ERR_UNKNOWN, None)
      | Inr cfg \<Rightarrow>
        (case ConnectNATS (ie_dial env) (NatsURL cfg) of
           Inl err \<Rightarrow> Inr (p, MOSQ_ERR_UNKNOWN, None)
         | Inr _ \<Rightarrow>
            let nc = \<lparr>nc_url = NatsURL cfg, nc_closed = False\<rparr>;
                p = p\<lparr>natsConn := Some nc\<rparr>
            in
            (case BuildRuntime (ie_store env) (ie_subscribeErr env) (ie_pub env) (ie_in_time env)
                    \<lparr>ro_Config = cfg, ro_Publisher = True, ro_NatsConn = True\<rparr> of
               Inl e \<Rightarrow> Inl e
             | Inr (Inl (err, _)) \<Rightarrow>
                 Inr (p\<lparr>natsConn := Some (nc\<lparr>nc_closed := True\<rparr>)\<rparr>, MOSQ_ERR_UNKNOWN, None)
             | Inr (Inr rt) \<Rightarrow>
                 let p = p\<lparr>runtime := Some rt, natsConn := Some nc, pluginID := True\<rparr>;
                     (regs, rc) = registerCallbacks (ie_register env) (registered p);
                     p = p\<lparr>registered := regs\<rparr>
                 in if rc \<noteq> MOSQ_ERR_SUCCESS
                    then (case Drain (ie_pub env) (ie_in_time env) (rt_Async rt) of
                            Inl e \<Rightarrow> Inl e
                          | Inr (async, _) \<Rightarrow>
                              Inr (p\<lparr>runtime := None, natsConn := None\<rparr>, rc,
                                   Some (rt\<lparr>rt_Async := async\<rparr>, Some (nc\<lparr>nc_closed := True\<rparr>))))
                    else Inr (p, MOSQ_ERR_SUCCESS, None))))"

text \<open>A handler that is caught by the closing of the store goes through a nil pointer and panics.\<close>

definition handler_caught :: "'db init_env \<Rightarrow> 'db TieredAuthStore PluginRuntime \<Rightarrow> bool" where
  "handler_caught env rt \<longleftrightarrow>
     (case (rt_Fanout rt, rt_Store rt) of
        (Some fc, Some s) \<Rightarrow> ie_deleting env \<and> fc_sub fc \<and> pebbleDB s \<noteq> None
      | _ \<Rightarrow> False)"

text \<open>The results of the unregister calls are ignored; a callback stays registered when its call fails.\<close>

definition unregisterCallbacks :: "(mosq_evt \<Rightarrow> mosq_rc) \<Rightarrow> mosq_evt list \<Rightarrow> mosq_evt list" where
  "unregisterCallbacks unreg regs =
     filter (\<lambda>e. e \<notin> set callback_pairs \<or> unreg e \<noteq> MOSQ_ERR_SUCCESS) regs"

definition mosquitto_plugin_cleanup ::
    "'db init_env \<Rightarrow> 'db plugin_process \<Rightarrow>
     go_panic + 'db plugin_process \<times> mosq_rc \<times> 'db torn" where
  "mosquitto_plugin_cleanup env p =
     (case runtime p of
        None \<Rightarrow> Inr (p, MOSQ_ERR_SUCCESS, None)
      | Some rt \<Rightarrow>
          let p = (if pluginID p
                   then p\<lparr>registered := unregisterCallbacks (ie_unregister env) (registered p)\<rparr> else p);
              caught = handler_caught env rt;
              rt = rt\<lparr>rt_Fanout := map_option (\<lambda>f. fst (fanout_Stop (ie_fanoutDrainErr env) f)) (rt_Fanout rt)\<rparr>;
              rt = rt\<lparr>rt_Store := map_option (\<lambda>s. fst (store_Close (ie_store env) s)) (rt_Store rt)\<rparr>
          in if caught then Inl NilDereference
             else (case Drain (ie_pub env) (ie_in_time env) (rt_Async rt) of
                Inl e \<Rightarrow> Inl e
              | Inr (async, _) \<Rightarrow>
                  let rt = rt\<lparr>rt_Async := async\<rparr>;
                      nc = map_option (\<lambda>c. c\<lparr>nc_closed := True\<rparr>) (natsConn p)
                  in Inr (p\<lparr>runtime := None, natsConn := None\<rparr>, MOSQ_ERR_SUCCESS, Some (rt, nc))))"

subsection \<open>Callbacks\<close>

text \<open>A callback's event holds what Mosquitto's accessors answer for its client; \<open>ae_client\<close> tells
  whether the client pointer is set, and the two certificate fields are what the OpenSSL helpers
  find.\<close>

record auth_event =
  ae_client :: bool
  ae_username :: "string option"
  ae_password :: "string option"
  ae_clientID :: "string option"
  ae_address :: "string option"
  ae_certSerial :: "string option"
  ae_certCN :: "string option"

record acl_event =
  xe_username :: "string option"
  xe_topic :: "string option"
  xe_access :: int

record disconnect_event =
  de_clientID :: "string option"
  de_address :: "string option"
  de_reason :: int

record message_event =
  me_clientID :: "string option"
  me_topic :: "string option"
  me_payload :: bytes
  me_qos :: int
  me_retain :: bool

text \<open>The world during one callback; the store sees the deadline of the context.\<close>

record 'db call_env =
  ce_store :: "duration option \<Rightarrow> 'db store_env"
  ce_bcrypt :: "string \<Rightarrow> string \<Rightarrow> bool"
  ce_sf :: "rune \<Rightarrow> rune \<Rightarrow> bool"
  ce_now :: time

definition getClientCertSerial :: "auth_event \<Rightarrow> string" where
  "getClientCertSerial ed = (if \<not> ae_client ed then '''' else GoString (ae_certSerial ed))"

definition getClientCertCN :: "auth_event \<Rightarrow> string" where
  "getClientCertCN ed = (if \<not> ae_client ed then '''' else GoString (ae_certCN ed))"

text \<open>The username that authentication works on: the CN when there is a certificate and no username.\<close>

definition auth_username :: "auth_event \<Rightarrow> string" where
  "auth_username ed =
     (if GoString (ae_username ed) = '''' \<and> getClientCertSerial ed \<noteq> '''' then getClientCertCN ed
      else GoString (ae_username ed))"

definition goOnBasicAuth ::
    "'db call_env \<Rightarrow> auth_event option \<Rightarrow> 'db plugin_process \<Rightarrow> go_panic + 'db plugin_process \<times> mosq_rc" where
  "goOnBasicAuth env eventData p =
     (case (runtime p, eventData) of
        (Some rt, Some ed) \<Rightarrow>
          let password = GoString (ae_password ed);
              clientID = GoString (ae_clientID ed);
              sourceIP = GoString (ae_address ed);
              certSerial = getClientCertSerial ed;
              username = auth_username ed;
              ctx = contextWithTimeout (AuthTimeout (rt_Config rt))
          in (case Authenticate (store_Get (ce_store env ctx)) (ce_bcrypt env) (ce_sf env)
                     username password clientID certSerial rt of
                Inl e \<Rightarrow> Inl e
              | Inr (rt, AuthAllow) \<Rightarrow>
                  (case LookupSession clientID rt of
                     Some info \<Rightarrow>
                       (case PublishConnect (si_OrgID info) (si_AssetUUID info) clientID sourceIP (ce_now env) rt of
                          Inl e \<Rightarrow> Inl e
                        | Inr (rt, _) \<Rightarrow> Inr (p\<lparr>runtime := Some rt\<rparr>, MOSQ_ERR_SUCCESS))
                   | None \<Rightarrow> Inr (p\<lparr>runtime := Some rt\<rparr>, MOSQ_ERR_SUCCESS))
              | Inr (rt, AuthDeny) \<Rightarrow> Inr (p\<lparr>runtime := Some rt\<rparr>, MOSQ_ERR_AUTH)
              | Inr (rt, AuthError) \<Rightarrow> Inr (p\<lparr>runtime := Some rt\<rparr>, MOSQ_ERR_UNKNOWN))
      | _ \<Rightarrow> Inr (p, MOSQ_ERR_PLUGIN_DEFER))"

definition goOnAclCheck :: "acl_event option \<Rightarrow> 'db plugin_process \<Rightarrow> mosq_rc" where
  "goOnAclCheck eventData p =
     (case (runtime p, eventData) of
        (Some rt, Some ed) \<Rightarrow>
          if CheckACL (GoString (xe_username ed)) (GoString (xe_topic ed)) (xe_access ed)
          then MOSQ_ERR_SUCCESS else MOSQ_ERR_ACL_DENIED
      | _ \<Rightarrow> MOSQ_ERR_PLUGIN_DEFER)"

definition goOnDisconnect ::
    "'db call_env \<Rightarrow> disconnect_event option \<Rightarrow> 'db plugin_process \<Rightarrow> go_panic + 'db plugin_process \<times> mosq_rc" where
  "goOnDisconnect env eventData p =
     (case (runtime p, eventData) of
        (Some rt, Some ed) \<Rightarrow>
          let clientID = GoString (de_clientID ed); sourceIP = GoString (de_address ed) in
          (case LookupSession clientID rt of
             None \<Rightarrow> Inr (p, MOSQ_ERR_SUCCESS)
           | Some info \<Rightarrow>
               (case PublishDisconnect (si_OrgID info) (si_AssetUUID info) clientID sourceIP (de_reason ed)
                       (ce_now env) rt of
                  Inl e \<Rightarrow> Inl e
                | Inr (rt, _) \<Rightarrow> Inr (p\<lparr>runtime := Some (ForgetSession clientID rt)\<rparr>, MOSQ_ERR_SUCCESS)))
      | _ \<Rightarrow> Inr (p, MOSQ_ERR_SUCCESS))"

definition goOnMessage ::
    "'db call_env \<Rightarrow> message_event option \<Rightarrow> 'db plugin_process \<Rightarrow> go_panic + 'db plugin_process \<times> mosq_rc" where
  "goOnMessage env eventData p =
     (case (runtime p, eventData) of
        (Some rt, Some ed) \<Rightarrow>
          let clientID = GoString (me_clientID ed); topic = GoString (me_topic ed) in
          (case LookupSession clientID rt of
             None \<Rightarrow> Inr (p, MOSQ_ERR_SUCCESS)
           | Some info \<Rightarrow>
               (case PublishIngress (si_OrgID info) (si_AssetUUID info) clientID topic (Some (me_payload ed))
                       (me_qos ed) (me_retain ed) (ce_now env) rt of
                  Inl e \<Rightarrow> Inl e
                | Inr (rt, _) \<Rightarrow> Inr (p\<lparr>runtime := Some rt\<rparr>, MOSQ_ERR_SUCCESS)))
      | _ \<Rightarrow> Inr (p, MOSQ_ERR_SUCCESS))"

section \<open>Lemmas\<close>

text \<open>The world in which a CONNECT event is answered with a session: the store has an entry for the
  username that admits the credential.\<close>

definition admitted :: "'db call_env \<Rightarrow> auth_event \<Rightarrow> 'db TieredAuthStore PluginRuntime \<Rightarrow> SessionInfo \<Rightarrow> bool" where
  "admitted env ed rt info \<longleftrightarrow>
     (\<exists>s s' e. parseUsername (auth_username ed) = Some (auth_username ed) \<and> rt_Store rt = Some s \<and>
        store_Get (ce_store env (contextWithTimeout (AuthTimeout (rt_Config rt)))) s (auth_username ed) =
          (s', Inr (Some e)) \<and>
        credential_ok (ce_bcrypt env) (ce_sf env) (rt_Auth rt) (GoString (ae_password ed))
          (getClientCertSerial ed) e \<and>
        info = \<lparr>si_OrgID = OrgId e, si_AssetUUID = auth_username ed\<rparr>)"

lemmas store_frames = store_Get_def getFromL3_def readL3_def writeL1_frame

lemma store_Get_ready:
  assumes "store_Get env s k = (s', res)"
  shows "(L3Client (ts_cfg s') = None \<longleftrightarrow> L3Client (ts_cfg s) = None) \<and> L1TTL (ts_cfg s') = L1TTL (ts_cfg s)"
  using assms by (auto simp: store_frames Let_def split: if_splits option.splits sum.splits prod.splits)

lemma runtime_ready_store:
  assumes "runtime_ready rt" "rt_Store rt = Some s" "L3Client (ts_cfg s') = None \<longleftrightarrow> L3Client (ts_cfg s) = None"
    "L1TTL (ts_cfg s') = L1TTL (ts_cfg s)"
  shows "runtime_ready (rt\<lparr>rt_Store := Some s'\<rparr>)"
  using assms by (simp add: runtime_ready_def del: not_None_eq)

lemma runtime_ready_sessions [simp]:
  "runtime_ready (rt\<lparr>sessions := f\<rparr>) = runtime_ready rt"
  "runtime_ready (rememberSession c o' a rt) = runtime_ready rt"
  "runtime_ready (ForgetSession c rt) = runtime_ready rt"
  by (simp_all add: runtime_ready_def rememberSession_def ForgetSession_def)

text \<open>A publishing call from a ready runtime.\<close>

lemma only_publishes_ready:
  assumes "only_publishes rt out" "runtime_ready rt"
  obtains p acc where "out = Inr (rt\<lparr>rt_Async := p\<rparr>, acc)" "runtime_ready (rt\<lparr>rt_Async := p\<rparr>)"
  using assms by (auto simp: only_publishes_def runtime_ready_def)

lemma ready_Publish:
  assumes "runtime_ready rt"
  shows "only_publishes rt (PublishConnect orgID assetUUID clientID sourceIP ts rt)"
    "only_publishes rt (PublishDisconnect orgID assetUUID clientID sourceIP reasonCode ts rt)"
    "only_publishes rt (PublishIngress orgID assetUUID clientID topic payload qos retain ts rt)"
  using Publish_publishes assms by (auto simp: runtime_ready_def)

lemma Authenticate_ready:
  assumes "Authenticate (store_Get env) bcrypt sf username password clientID certSerial rt = Inr (rt', res)"
    and "runtime_ready rt"
  shows "runtime_ready rt' \<and> rt_Config rt' = rt_Config rt \<and> rt_Async rt' = rt_Async rt"
proof (cases "ResolveUsername username")
  case None
  with assms show ?thesis by (simp add: Authenticate_def)
next
  case (Some k)
  from assms(2) obtain s where s: "rt_Store rt = Some s" by (auto simp: runtime_ready_def)
  have keep: "runtime_ready (rt\<lparr>rt_Store := Some s'\<rparr>)" if "store_Get env s k = (s', out)" for s' out
    by (rule runtime_ready_store[OF assms(2) s store_Get_ready[OF that, THEN conjunct1]
          store_Get_ready[OF that, THEN conjunct2]])
  show ?thesis
  proof (cases rule: tiered.get_cases[of env s k])
    case (found s' e)
    from assms(1) keep[OF found(1)] show ?thesis
      unfolding Authenticate_found[where get = "store_Get env", OF Some s found(1)]
      by (auto simp: Let_def split: if_splits)
  next
    case (not_found s')
    from assms(1) keep[OF not_found] show ?thesis
      unfolding Authenticate_error[where get = "store_Get env", OF Some s not_found] by auto
  next
    case (unavailable s')
    from assms(1) keep[OF unavailable] show ?thesis
      unfolding Authenticate_error[where get = "store_Get env", OF Some s unavailable] by auto
  qed
qed

lemma goOnBasicAuth_cases:
  assumes "runtime p = Some rt" "runtime_ready rt"
  obtains (admit) info rt' where "admitted env ed rt info"
      "goOnBasicAuth env (Some ed) p = Inr (p\<lparr>runtime := Some rt'\<rparr>, MOSQ_ERR_SUCCESS)" "runtime_ready rt'"
      "rt_Config rt' = rt_Config rt"
      "sessions rt' = (if GoString (ae_clientID ed) = '''' then sessions rt
                       else (sessions rt)(GoString (ae_clientID ed) \<mapsto> info))"
      "\<exists>rt1. rt_Async rt1 = rt_Async rt \<and> rt_Config rt1 = rt_Config rt \<and>
        (if GoString (ae_clientID ed) = '''' then rt' = rt1
         else \<exists>acc. PublishConnect (si_OrgID info) (si_AssetUUID info) (GoString (ae_clientID ed))
                (GoString (ae_address ed)) (ce_now env) rt1 = Inr (rt', acc))"
  | (refuse) rc rt' where "\<forall>info. \<not> admitted env ed rt info"
      "goOnBasicAuth env (Some ed) p = Inr (p\<lparr>runtime := Some rt'\<rparr>, rc)" "rc = MOSQ_ERR_AUTH \<or> rc = MOSQ_ERR_UNKNOWN"
      "runtime_ready rt'" "rt_Config rt' = rt_Config rt" "sessions rt' = sessions rt" "rt_Async rt' = rt_Async rt"
proof -
  let ?senv = "ce_store env (contextWithTimeout (AuthTimeout (rt_Config rt)))"
  let ?c = "GoString (ae_clientID ed)"
  let ?auth = "Authenticate (store_Get ?senv) (ce_bcrypt env) (ce_sf env) (auth_username ed)
      (GoString (ae_password ed)) ?c (getClientCertSerial ed) rt"
  obtain rt1 res where auth: "?auth = Inr (rt1, res)" using tiered.Authenticate_total by blast
  note ready = Authenticate_ready[OF auth assms(2)]
  from auth show thesis
  proof (cases rule: tiered.Authenticate_cases)
    case (allow s s' e)
    let ?info = "\<lparr>si_OrgID = OrgId e, si_AssetUUID = auth_username ed\<rparr>"
    have adm: "admitted env ed rt ?info" using allow by (auto simp: admitted_def)
    have ses: "sessions rt1 = (if ?c = '''' then sessions rt else (sessions rt)(?c \<mapsto> ?info))"
      using allow(5) by (simp add: rememberSession_def)
    show thesis
    proof (cases "?c = ''''")
      case True
      then have "goOnBasicAuth env (Some ed) p = Inr (p\<lparr>runtime := Some rt1\<rparr>, MOSQ_ERR_SUCCESS)"
        using auth allow(6) assms(1) by (simp add: goOnBasicAuth_def Let_def LookupSession_def)
      with adm ready ses True show thesis by (intro admit[of ?info rt1]) auto
    next
      case False
      let ?pub = "PublishConnect (OrgId e) (auth_username ed) ?c (GoString (ae_address ed)) (ce_now env) rt1"
      obtain pb acc where pub: "?pub = Inr (rt1\<lparr>rt_Async := pb\<rparr>, acc)" "runtime_ready (rt1\<lparr>rt_Async := pb\<rparr>)"
        using ready ready_Publish(1) by (metis only_publishes_ready)
      then have "goOnBasicAuth env (Some ed) p = Inr (p\<lparr>runtime := Some (rt1\<lparr>rt_Async := pb\<rparr>)\<rparr>, MOSQ_ERR_SUCCESS)"
        using auth allow(6) assms(1) ses False by (simp add: goOnBasicAuth_def Let_def LookupSession_def)
      with adm ready ses False pub show thesis by (intro admit[of ?info "rt1\<lparr>rt_Async := pb\<rparr>"]) auto
    qed
  next
    case r: refuse
    then have "\<forall>info. \<not> admitted env ed rt info" by (auto simp: admitted_def)
    moreover have "goOnBasicAuth env (Some ed) p = Inr (p\<lparr>runtime := Some rt1\<rparr>,
        if res = AuthDeny then MOSQ_ERR_AUTH else MOSQ_ERR_UNKNOWN)"
      using auth r(1) assms(1) by (cases res) (simp_all add: goOnBasicAuth_def Let_def)
    moreover have "sessions rt1 = sessions rt" using r(2) by auto
    ultimately show thesis using ready by (intro refuse[of rt1 "if res = AuthDeny then MOSQ_ERR_AUTH else MOSQ_ERR_UNKNOWN"]) simp_all
  qed
qed

lemma goOnDisconnect_ready:
  assumes "runtime p = Some rt" "runtime_ready rt" "sessions rt '''' = None"
  obtains rt' where "goOnDisconnect env (Some ed) p = Inr (p\<lparr>runtime := Some rt'\<rparr>, MOSQ_ERR_SUCCESS)"
    "runtime_ready rt'" "rt_Config rt' = rt_Config rt" "sessions rt' = (sessions rt)(GoString (de_clientID ed) := None)"
proof (cases "LookupSession (GoString (de_clientID ed)) rt")
  case None
  then have "sessions rt = (sessions rt)(GoString (de_clientID ed) := None)"
    using assms(3) by (auto simp: LookupSession_def split: if_splits)
  moreover have "goOnDisconnect env (Some ed) p = Inr (p\<lparr>runtime := Some rt\<rparr>, MOSQ_ERR_SUCCESS)"
    using None assms(1) by (simp add: goOnDisconnect_def Let_def)
  ultimately show thesis using assms(2) that by metis
next
  case (Some info)
  obtain pb acc where "PublishDisconnect (si_OrgID info) (si_AssetUUID info) (GoString (de_clientID ed))
      (GoString (de_address ed)) (de_reason ed) (ce_now env) rt = Inr (rt\<lparr>rt_Async := pb\<rparr>, acc)"
    "runtime_ready (rt\<lparr>rt_Async := pb\<rparr>)"
    using assms(2) ready_Publish(2) by (metis only_publishes_ready)
  with Some assms(1) show thesis
    by (intro that[of "ForgetSession (GoString (de_clientID ed)) (rt\<lparr>rt_Async := pb\<rparr>)"])
       (auto simp: goOnDisconnect_def Let_def ForgetSession_def LookupSession_def split: if_splits)
qed

lemma goOnMessage_ready:
  assumes "runtime p = Some rt" "runtime_ready rt"
  obtains rt' where "goOnMessage env (Some ed) p = Inr (p\<lparr>runtime := Some rt'\<rparr>, MOSQ_ERR_SUCCESS)"
    "runtime_ready rt'" "rt_Config rt' = rt_Config rt" "sessions rt' = sessions rt"
proof (cases "LookupSession (GoString (me_clientID ed)) rt")
  case None
  then have "goOnMessage env (Some ed) p = Inr (p\<lparr>runtime := Some rt\<rparr>, MOSQ_ERR_SUCCESS)"
    using assms(1) by (simp add: goOnMessage_def Let_def)
  with assms(2) that show thesis by metis
next
  case (Some info)
  obtain pb acc where "PublishIngress (si_OrgID info) (si_AssetUUID info) (GoString (me_clientID ed))
      (GoString (me_topic ed)) (Some (me_payload ed)) (me_qos ed) (me_retain ed) (ce_now env) rt =
      Inr (rt\<lparr>rt_Async := pb\<rparr>, acc)" "runtime_ready (rt\<lparr>rt_Async := pb\<rparr>)"
    using assms(2) ready_Publish(3) by (metis only_publishes_ready)
  with Some assms(1) show thesis
    by (intro that[of "rt\<lparr>rt_Async := pb\<rparr>"]) (auto simp: goOnMessage_def Let_def)
qed

subsection \<open>Initialisation and clean-up\<close>

text \<open>The process when the library has just been loaded.\<close>

definition fresh_process :: "'db plugin_process" where
  "fresh_process = \<lparr>runtime = None, natsConn = None, pluginID = False, registered = []\<rparr>"

lemma registerLoop_eq:
  "registerLoop reg es acc =
     (acc @ takeWhile (\<lambda>e. reg e = MOSQ_ERR_SUCCESS) es,
      case dropWhile (\<lambda>e. reg e = MOSQ_ERR_SUCCESS) es of [] \<Rightarrow> MOSQ_ERR_SUCCESS | e # _ \<Rightarrow> reg e)"
  by (induction es arbitrary: acc) auto

lemma registerCallbacks_result:
  assumes "registerCallbacks reg acc = (regs, rc)"
  shows "rc = MOSQ_ERR_SUCCESS \<longleftrightarrow> (\<forall>e \<in> set callback_pairs. reg e = MOSQ_ERR_SUCCESS)"
    "regs = acc @ takeWhile (\<lambda>e. reg e = MOSQ_ERR_SUCCESS) callback_pairs"
proof -
  let ?ok = "\<lambda>e. reg e = MOSQ_ERR_SUCCESS"
  show "regs = acc @ takeWhile ?ok callback_pairs"
    using assms by (simp add: registerCallbacks_def registerLoop_eq)
  have "rc = (case dropWhile ?ok callback_pairs of [] \<Rightarrow> MOSQ_ERR_SUCCESS | e # _ \<Rightarrow> reg e)"
    using assms by (simp add: registerCallbacks_def registerLoop_eq)
  moreover have "\<not> reg e = MOSQ_ERR_SUCCESS" if "dropWhile ?ok callback_pairs = e # es" for e es
    using that hd_dropWhile[of ?ok callback_pairs] by simp
  moreover have "dropWhile ?ok callback_pairs = [] \<longleftrightarrow> (\<forall>e \<in> set callback_pairs. ?ok e)"
    by (rule dropWhile_eq_Nil_conv)
  ultimately show "rc = MOSQ_ERR_SUCCESS \<longleftrightarrow> (\<forall>e \<in> set callback_pairs. ?ok e)"
    by (cases "dropWhile ?ok callback_pairs") simp_all
qed

lemma Drain_ready:
  assumes "runtime_ready rt"
  obtains a b where "Drain pub in_time (rt_Async rt) = Inr (a, b)" "closed a"
    "in_time \<longrightarrow> queue a = [] \<and> in_work a = [] \<and> wg a = 0 \<and> enqueued a = published a + publishErr a"
  using assms by (auto simp: runtime_ready_def elim: Drain_open[of "rt_Async rt" pub in_time])

text \<open>The ways in which an initialisation ends; after \<open>built\<close> it is up to the registration.\<close>

lemma mosquitto_plugin_init_cases:
  fixes env :: "'db init_env"
  obtains (panic) e cfg where
      "mosquitto_plugin_init env raw fresh_process = Inl e" "LoadConfig (readOpts raw) = Inr cfg"
      "is_Inr (ConnectNATS (ie_dial env) (NatsURL cfg))" "\<not> pool_fits cfg"
  | (refused) nc where
      "mosquitto_plugin_init env raw fresh_process =
         Inr (fresh_process\<lparr>natsConn := nc\<rparr>, MOSQ_ERR_UNKNOWN, None)" "\<forall>c. nc = Some c \<longrightarrow> nc_closed c"
      "\<forall>cfg. LoadConfig (readOpts raw) = Inr cfg \<longrightarrow> is_Inr (ConnectNATS (ie_dial env) (NatsURL cfg)) \<longrightarrow>
         pool_fits cfg \<and> \<not> layers_open (ie_store env) cfg"
  | (built) cfg rt s where "LoadConfig (readOpts raw) = Inr cfg" "is_Inr (ConnectNATS (ie_dial env) (NatsURL cfg))"
      "pool_fits cfg" "layers_open (ie_store env) cfg"
      "runtime_ready rt" "sessions rt = Map.empty" "rt_Config rt = cfg" "rt_Store rt = Some s" "pebbleDB s \<noteq> None"
      "mosquitto_plugin_init env raw fresh_process =
        (let p = fresh_process\<lparr>runtime := Some rt, natsConn := Some \<lparr>nc_url = NatsURL cfg, nc_closed = False\<rparr>, pluginID := True\<rparr>;
             (regs, rc) = registerCallbacks (ie_register env) [];
             p = p\<lparr>registered := regs\<rparr>
         in if rc \<noteq> MOSQ_ERR_SUCCESS
            then (case Drain (ie_pub env) (ie_in_time env) (rt_Async rt) of
                    Inl e \<Rightarrow> Inl e
                  | Inr (async, _) \<Rightarrow>
                      Inr (p\<lparr>runtime := None, natsConn := None\<rparr>, rc,
                           Some (rt\<lparr>rt_Async := async\<rparr>, Some \<lparr>nc_url = NatsURL cfg, nc_closed = True\<rparr>)))
            else Inr (p, MOSQ_ERR_SUCCESS, None))"
      "queue (rt_Async rt) = []" "in_work (rt_Async rt) = []"
proof (cases "LoadConfig (readOpts raw)")
  case (Inl err)
  then show thesis by (intro refused[of None]) (simp_all add: mosquitto_plugin_init_def fresh_process_def)
next
  case cfg: (Inr cfg)
  show thesis
  proof (cases "ConnectNATS (ie_dial env) (NatsURL cfg)")
    case (Inl err)
    with cfg show thesis by (intro refused[of None]) (simp_all add: mosquitto_plugin_init_def fresh_process_def)
  next
    case conn: (Inr u)
    from cfg show thesis
    proof (cases rule: BuildRuntime_cases[where env = "ie_store env" and subscribeErr = "ie_subscribeErr env" and
          pub = "ie_pub env" and in_time = "ie_in_time env" and conn = True])
      case (panic e)
      with cfg conn show thesis by (intro that(1)[of e cfg]) (simp_all add: mosquitto_plugin_init_def Let_def)
    next
      case (failed err p)
      with cfg conn show thesis
        by (intro refused[of "Some \<lparr>nc_url = NatsURL cfg, nc_closed = True\<rparr>"])
           (auto simp: mosquitto_plugin_init_def fresh_process_def)
    next
      case b: (built rt s)
      from cfg conn b show thesis
        by (intro built[of cfg rt s])
           (simp_all add: mosquitto_plugin_init_def fresh_process_def Let_def split: prod.splits sum.splits)
    qed
  qed
qed

text \<open>Clean-up of a ready runtime: the process, and what is left of the runtime.\<close>

lemma mosquitto_plugin_cleanup_ready:
  fixes env :: "'db init_env"
  assumes "runtime p = Some rt" "runtime_ready rt" "\<not> handler_caught env rt"
  obtains a b q rt' where
    "mosquitto_plugin_cleanup env p =
      Inr (q, MOSQ_ERR_SUCCESS, Some (rt', map_option (\<lambda>c. c\<lparr>nc_closed := True\<rparr>) (natsConn p)))"
    "Drain (ie_pub env) (ie_in_time env) (rt_Async rt) = Inr (a, b)" "closed a"
    "ie_in_time env \<longrightarrow> queue a = [] \<and> in_work a = [] \<and> wg a = 0 \<and> enqueued a = published a + publishErr a"
    "q = p\<lparr>registered := if pluginID p then unregisterCallbacks (ie_unregister env) (registered p)
      else registered p, runtime := None, natsConn := None\<rparr>"
    "rt' = rt\<lparr>rt_Fanout := map_option (\<lambda>f. fst (fanout_Stop (ie_fanoutDrainErr env) f)) (rt_Fanout rt),
      rt_Store := map_option (\<lambda>s. fst (store_Close (ie_store env) s)) (rt_Store rt), rt_Async := a\<rparr>"
proof -
  obtain a b where d: "Drain (ie_pub env) (ie_in_time env) (rt_Async rt) = Inr (a, b)" "closed a"
    "ie_in_time env \<longrightarrow> queue a = [] \<and> in_work a = [] \<and> wg a = 0 \<and> enqueued a = published a + publishErr a"
    by (rule Drain_ready[OF assms(2)])
  show thesis
    by (rule that[OF _ d refl refl]) (use assms(1,3) d(1) in \<open>simp add: mosquitto_plugin_cleanup_def Let_def\<close>)
qed

text \<open>A handler that is caught takes the process down.\<close>

lemma cleanup_panics:
  "runtime p = Some rt \<Longrightarrow> handler_caught env rt \<Longrightarrow> mosquitto_plugin_cleanup env p = Inl NilDereference"
  by (simp add: mosquitto_plugin_cleanup_def)

lemma PublishConnect_enqueues:
  assumes "PublishConnect orgID assetUUID clientID sourceIP ts rt = Inr (rt', acc)" "publisher_ok (rt_Async rt)"
    and "started (rt_Async rt)" "\<not> closed (rt_Async rt)" "length (queue (rt_Async rt)) < queue_cap (rt_Async rt)"
    and "marshalPresence \<lparr>pa_Event = EventConnect, pa_OrgID = orgID, pa_AssetUUID = assetUUID, pa_ClientID = clientID,
       pa_SourceIP = sourceIP, pa_Timestamp = ts, pa_ReasonCode = 0, pa_ReasonText = ''''\<rparr> = Inr data"
  shows "queue (rt_Async rt') = queue (rt_Async rt) @
    [\<lparr>job_subject = SubjectPresence (rt_Config rt), job_data = data\<rparr>]"
  using assms by (auto simp: PublishConnect_def queue_defs publisher_ok_def)

lemma goOnBasicAuth_success:
  assumes "runtime p = Some rt" "runtime_ready rt" "admitted env ed rt info"
  shows "\<exists>p'. goOnBasicAuth env (Some ed) p = Inr (p', MOSQ_ERR_SUCCESS)"
  using assms(1,2) by (cases rule: goOnBasicAuth_cases[where env = env and ed = ed]) (use assms(3) in blast)+

subsection \<open>A concrete process\<close>

text \<open>A world as in the store's example, and one whose store knows the same device in cert mode.\<close>

definition demo_call :: "mem_db store_env \<Rightarrow> mem_db call_env" where
  "demo_call senv = \<lparr>ce_store = (\<lambda>_. senv), ce_bcrypt = demo_bcrypt, ce_sf = (\<lambda>_ _. False), ce_now = 0\<rparr>"

definition demo_process :: "mem_db plugin_process" where
  "demo_process = fresh_process\<lparr>runtime := Some demo_rt\<rparr>"

definition cert_projection :: AuthProjection where
  "cert_projection = zero_AuthProjection\<lparr>p_AssetUUID := ''a1'', p_OrgId := ''o1'', p_Enabled := True,
     p_AuthType := ''cert'', p_CurrentCertSerial := ''0A''\<rparr>"

definition cert_env :: "mem_db store_env" where
  "cert_env = (demo_env 0)\<lparr>se_minio := (\<lambda>b k. Object 99 (json_text (projection_json cert_projection)))\<rparr>"

definition demo_password_event :: auth_event where
  "demo_password_event = \<lparr>ae_client = True, ae_username = Some ''a1'', ae_password = Some ''pw'',
     ae_clientID = Some ''c1'', ae_address = Some ''ip'', ae_certSerial = None, ae_certCN = None\<rparr>"

definition demo_cert_event :: auth_event where
  "demo_cert_event = \<lparr>ae_client = True, ae_username = None, ae_password = None,
     ae_clientID = Some ''c1'', ae_address = Some ''ip'', ae_certSerial = Some ''0A'', ae_certCN = Some ''a1''\<rparr>"

lemma demo_ready: "runtime_ready demo_rt"
  by (simp add: runtime_ready_def demo_rt_def demo_publisher_ok)
     (simp add: demo_publisher_def demo_store_defs Minute_def Second_def)

lemma demo_process_runtime [simp]: "runtime demo_process = Some demo_rt"
  by (simp add: demo_process_def)

lemma demo_admitted: "admitted (demo_call (demo_env t)) demo_password_event demo_rt \<lparr>si_OrgID = ''o1'', si_AssetUUID = ''a1''\<rparr>"
proof -
  have "credential_ok demo_bcrypt (\<lambda>_ _. False) True ''pw'' '''' demo_entry"
    by (simp add: credential_ok_def demo_entry_def demo_bcrypt_def)
  with demo_Get[of t] show ?thesis
    by (auto simp: admitted_def demo_call_def demo_password_event_def auth_username_def getClientCertSerial_def
        demo_rt_def parseUsername_Some_iff demo_entry_def)
qed

lemma cert_Get: "\<exists>s'. store_Get cert_env demo_store ''a1'' = (s', Inr (Some (ToAuthEntry cert_projection)))"
proof -
  have "projection_valid cert_projection"
    by (simp add: projection_valid_def cert_projection_def zero_AuthProjection_def validUTF8_ascii byte_def)
  then have "readL2 cert_env demo_store ''a1'' = Inr (Some (ToAuthEntry cert_projection))"
    using DecodeReadModel_text(1)[of cert_projection]
    by (simp add: readL2_def cert_env_def demo_store_def Let_def)
  moreover have "readL1 cert_env demo_store ''a1'' = None"
    by (simp add: readL1_def cert_env_def demo_env_def demo_store_def mem_api_def)
  ultimately show ?thesis by (simp add: store_Get_def)
qed

lemma cert_admitted: "admitted (demo_call cert_env) demo_cert_event demo_rt \<lparr>si_OrgID = ''o1'', si_AssetUUID = ''a1''\<rparr>"
proof -
  have "credential_ok demo_bcrypt (\<lambda>_ _. False) True '''' ''0A'' (ToAuthEntry cert_projection)"
    by (simp add: credential_ok_def ToAuthEntry_def cert_projection_def zero_AuthProjection_def)
  with cert_Get show ?thesis
    by (auto simp: admitted_def demo_call_def demo_cert_event_def auth_username_def getClientCertSerial_def
        getClientCertCN_def demo_rt_def parseUsername_Some_iff ToAuthEntry_def cert_projection_def zero_AuthProjection_def)
qed

definition demo_raw :: "(string option \<times> string option) list" where
  "demo_raw = [(Some ''nats_url'', Some ''n''), (Some ''auth_url'', Some ''u''), (Some ''auth_api_key'', Some ''k''),
     (Some ''auth_timeout_seconds'', Some ''x'')]"

definition demo_init_env :: "(mosq_evt \<Rightarrow> mosq_rc) \<Rightarrow> mem_db init_env" where
  "demo_init_env reg = \<lparr>ie_store = demo_env 0, ie_dial = (\<lambda>_ _. Inr ()), ie_subscribeErr = None, ie_pub = (\<lambda>_. PubOk),
     ie_in_time = True, ie_register = reg, ie_unregister = (\<lambda>_. MOSQ_ERR_SUCCESS), ie_fanoutDrainErr = None,
     ie_deleting = False\<rparr>"

lemma demo_init_ok:
  "\<exists>cfg. LoadConfig (readOpts (Some demo_raw)) = Inr cfg \<and>
     is_Inr (ConnectNATS (ie_dial (demo_init_env reg)) (NatsURL cfg)) \<and>
     pool_fits cfg \<and> layers_open (ie_store (demo_init_env reg)) cfg"
proof -
  have opts: "readOpts (Some demo_raw) = demo_opts(''auth_timeout_seconds'' \<mapsto> ''x'')"
    by (simp add: demo_raw_def demo_opts_def)
  obtain cfg where cfg: "LoadConfig (readOpts (Some demo_raw)) = Inr cfg" unfolding opts by (rule demo_opts_load)
  then have "NatsURL cfg \<noteq> ''''" by (auto simp: LoadConfig_def Let_def split: if_splits)
  moreover have "pool_fits cfg" using cfg unfolding opts by (rule demo_opts_fit)
  ultimately show ?thesis using cfg
    by (simp add: demo_init_env_def demo_env_def mem_api_def ConnectNATS_def layers_open_def minio_answer_def)
qed

section \<open>Properties\<close>

text \<open>C3: What a CONNECT comes to. On a ready runtime the basic-auth callback returns, and with success
  exactly when the store admits the client; a refusal is the authentication error or the unknown
  error. A client that is admitted under a non-empty identifier has its session, and its connect
  advisory is the last job in the queue when there was room; a refused one leaves sessions and
  queue as they were.\<close>

theorem goOnBasicAuth_admits_exactly:
  assumes "runtime p = Some rt" "runtime_ready rt"
  shows "\<exists>rt' rc. goOnBasicAuth env (Some ed) p = Inr (p\<lparr>runtime := Some rt'\<rparr>, rc) \<and>
    (rc = MOSQ_ERR_SUCCESS \<longleftrightarrow> (\<exists>info. admitted env ed rt info)) \<and>
    (rc \<noteq> MOSQ_ERR_SUCCESS \<longrightarrow> (rc = MOSQ_ERR_AUTH \<or> rc = MOSQ_ERR_UNKNOWN) \<and>
       sessions rt' = sessions rt \<and> queue (rt_Async rt') = queue (rt_Async rt)) \<and>
    (rc = MOSQ_ERR_SUCCESS \<and> GoString (ae_clientID ed) \<noteq> '''' \<longrightarrow>
       (\<exists>info. admitted env ed rt info \<and> LookupSession (GoString (ae_clientID ed)) rt' = Some info \<and>
         (\<forall>data. length (queue (rt_Async rt)) < queue_cap (rt_Async rt) \<and>
            marshalPresence \<lparr>pa_Event = ''connect'', pa_OrgID = si_OrgID info, pa_AssetUUID = si_AssetUUID info,
              pa_ClientID = GoString (ae_clientID ed), pa_SourceIP = GoString (ae_address ed),
              pa_Timestamp = ce_now env, pa_ReasonCode = 0, pa_ReasonText = ''''\<rparr> = Inr data \<longrightarrow>
            queue (rt_Async rt') = queue (rt_Async rt) @
              [\<lparr>job_subject = SubjectPresence (rt_Config rt), job_data = data\<rparr>])))"
  using assms
proof (cases rule: goOnBasicAuth_cases[where env = env and ed = ed])
  case (admit info rt')
  have "LookupSession (GoString (ae_clientID ed)) rt' = Some info" if "GoString (ae_clientID ed) \<noteq> ''''"
    using that admit(5) by (simp add: LookupSession_def)
  moreover have "publisher_ok (rt_Async rt)" "started (rt_Async rt)" "\<not> closed (rt_Async rt)"
    using assms(2) by (simp_all add: runtime_ready_def)
  ultimately show ?thesis using admit(1,2,6) PublishConnect_enqueues
    by (intro exI[of _ rt'] exI[of _ MOSQ_ERR_SUCCESS]) (fastforce simp: EventConnect_def)
next
  case (refuse rc rt')
  then show ?thesis by (intro exI[of _ rt'] exI[of _ rc]) auto
qed

theorem goOnBasicAuth_admits_exactly_witness:
  "\<exists>rt'. goOnBasicAuth (demo_call (demo_env 0)) (Some demo_password_event) demo_process =
      Inr (demo_process\<lparr>runtime := Some rt'\<rparr>, MOSQ_ERR_SUCCESS) \<and>
     LookupSession ''c1'' rt' \<noteq> None"
proof -
  have "GoString (ae_clientID demo_password_event) = ''c1''" by (simp add: demo_password_event_def)
  with goOnBasicAuth_admits_exactly[OF demo_process_runtime demo_ready, of "demo_call (demo_env 0)" demo_password_event]
    demo_admitted[of 0]
  show ?thesis by fastforce
qed

text \<open>C39: A device that authenticates with its certificate alone, as the CN fallback provides, has no
  access: the callback admits it under the CN, but the access check works on the username of the
  CONNECT, which is empty, and denies every topic and access.\<close>

theorem cn_fallback_denied:
  assumes "runtime p = Some rt" "runtime_ready rt" "GoString (ae_username ed) = ''''"
    and "goOnBasicAuth env (Some ed) p = Inr (p', MOSQ_ERR_SUCCESS)"
  shows "getClientCertSerial ed \<noteq> '''' \<and> getClientCertCN ed \<noteq> '''' \<and>
    goOnAclCheck (Some \<lparr>xe_username = ae_username ed, xe_topic = topic, xe_access = acc\<rparr>) p' = MOSQ_ERR_ACL_DENIED"
  using assms(1,2)
proof (cases rule: goOnBasicAuth_cases[where env = env and ed = ed])
  case (admit info rt')
  have "\<not> CheckACL '''' t a" for t a by (simp add: CheckACL_def parseUsername_def)
  moreover have "auth_username ed \<noteq> ''''" using admit(1) by (auto simp: admitted_def parseUsername_Some_iff)
  ultimately show ?thesis using admit(2) assms(3,4) by (auto simp: goOnAclCheck_def auth_username_def split: if_splits)
next
  case (refuse rc rt')
  with assms(4) show ?thesis by auto
qed

theorem cn_fallback_denied_witness:
  "\<exists>p'. goOnBasicAuth (demo_call cert_env) (Some demo_cert_event) demo_process = Inr (p', MOSQ_ERR_SUCCESS) \<and>
     goOnAclCheck (Some \<lparr>xe_username = ae_username demo_cert_event, xe_topic = Some ''events/a1/t'', xe_access = AccessWrite\<rparr>) p'
       = MOSQ_ERR_ACL_DENIED"
proof -
  obtain p' where p': "goOnBasicAuth (demo_call cert_env) (Some demo_cert_event) demo_process = Inr (p', MOSQ_ERR_SUCCESS)"
    using goOnBasicAuth_success[OF demo_process_runtime demo_ready cert_admitted] by blast
  have "GoString (ae_username demo_cert_event) = ''''" by (simp add: demo_cert_event_def)
  from cn_fallback_denied[OF demo_process_runtime demo_ready this p'] p' show ?thesis by blast
qed

text \<open>C23: How initialisation ends. On a freshly loaded library it panics exactly when the configuration
  loads, NATS answers, and the configured buffer is too large for a Go channel or the pool for a
  wait group: nothing checks these sizes. Otherwise it returns. It succeeds exactly when moreover
  Pebble opens, the MinIO client (if configured) can be made and the broker takes all four
  callbacks; then the runtime is ready, without sessions and jobs, the callbacks are registered in order and
  the connection is open. Otherwise there is no runtime, and a connection still referred to is
  closed.\<close>

theorem plugin_init_outcome:
  fixes env :: "'db init_env"
  shows "case mosquitto_plugin_init env raw fresh_process of
      Inl panic \<Rightarrow>
        (\<exists>cfg. LoadConfig (readOpts raw) = Inr cfg \<and> is_Inr (ConnectNATS (ie_dial env) (NatsURL cfg)) \<and> \<not> pool_fits cfg)
    | Inr (p, rc, torn) \<Rightarrow>
        (\<forall>cfg. LoadConfig (readOpts raw) = Inr cfg \<and> is_Inr (ConnectNATS (ie_dial env) (NatsURL cfg)) \<longrightarrow> pool_fits cfg) \<and>
        (rc = MOSQ_ERR_SUCCESS \<longleftrightarrow>
           (\<exists>cfg. LoadConfig (readOpts raw) = Inr cfg \<and> is_Inr (ConnectNATS (ie_dial env) (NatsURL cfg)) \<and>
              layers_open (ie_store env) cfg) \<and>
           (\<forall>e \<in> set callback_pairs. ie_register env e = MOSQ_ERR_SUCCESS)) \<and>
        (if rc = MOSQ_ERR_SUCCESS
         then (\<exists>rt nc. runtime p = Some rt \<and> runtime_ready rt \<and> sessions rt = Map.empty \<and>
                 queue (rt_Async rt) = [] \<and> in_work (rt_Async rt) = [] \<and>
                 registered p = [MOSQ_EVT_BASIC_AUTH, MOSQ_EVT_ACL_CHECK, MOSQ_EVT_DISCONNECT, MOSQ_EVT_MESSAGE] \<and>
                 natsConn p = Some nc \<and> \<not> nc_closed nc)
         else runtime p = None \<and> (\<forall>nc. natsConn p = Some nc \<longrightarrow> nc_closed nc))"
proof (cases rule: mosquitto_plugin_init_cases[of env raw])
  case (panic e cfg)
  then show ?thesis by simp
next
  case (refused nc)
  then show ?thesis by (fastforce simp: fresh_process_def)
next
  case (built cfg rt s)
  obtain regs rc where r: "registerCallbacks (ie_register env) [] = (regs, rc)" by fastforce
  note reg = registerCallbacks_result[OF r]
  show ?thesis
  proof (cases "rc = MOSQ_ERR_SUCCESS")
    case True
    then have "regs = callback_pairs" using reg by (simp add: takeWhile_eq_all_conv)
    with True reg(1) r built show ?thesis by (auto simp: fresh_process_def callback_pairs_def)
  next
    case False
    obtain a b where "Drain (ie_pub env) (ie_in_time env) (rt_Async rt) = Inr (a, b)"
      by (rule Drain_ready[OF built(5)])
    with False reg(1) r built(1,3,10) show ?thesis by (auto simp: fresh_process_def)
  qed
qed

theorem plugin_init_outcome_witness:
  "\<exists>p rt. mosquitto_plugin_init (demo_init_env (\<lambda>_. MOSQ_ERR_SUCCESS)) (Some demo_raw) fresh_process =
      Inr (p, MOSQ_ERR_SUCCESS, None) \<and> runtime p = Some rt \<and> runtime_ready rt"
proof -
  let ?env = "demo_init_env (\<lambda>_. MOSQ_ERR_SUCCESS)"
  have reg: "ie_register ?env = (\<lambda>_. MOSQ_ERR_SUCCESS)" by (simp add: demo_init_env_def)
  obtain p rc torn where p: "mosquitto_plugin_init ?env (Some demo_raw) fresh_process = Inr (p, rc, torn)"
    "rc = MOSQ_ERR_SUCCESS" "\<exists>rt. runtime p = Some rt \<and> runtime_ready rt"
    using plugin_init_outcome[where env = ?env and raw = "Some demo_raw"] demo_init_ok[of "\<lambda>_. MOSQ_ERR_SUCCESS"]
    by (auto simp: reg split: sum.splits prod.splits)
  moreover have "torn = None"
    using p(1,2) by (cases rule: mosquitto_plugin_init_cases[of ?env "Some demo_raw"])
      (auto simp: Let_def split: prod.splits if_splits sum.splits)
  ultimately show ?thesis by auto
qed

text \<open>What a failed registration leaves behind. The status is the broker's, the publisher is
  drained and the connection closed; but the callbacks taken before the failure stay registered,
  Pebble stays open and the fanout consumer is not stopped.\<close>

theorem failed_registration_leaks:
  fixes env :: "'db init_env"
  assumes "mosquitto_plugin_init env raw fresh_process = Inr (p, rc, Some (rt, nc))"
  shows "rc \<noteq> MOSQ_ERR_SUCCESS \<and> runtime p = None \<and> closed (rt_Async rt) \<and> (\<exists>c. nc = Some c \<and> nc_closed c) \<and>
    registered p = takeWhile (\<lambda>e. ie_register env e = MOSQ_ERR_SUCCESS) callback_pairs \<and>
    (\<exists>s. rt_Store rt = Some s \<and> pebbleDB s \<noteq> None) \<and>
    (\<forall>fc. rt_Fanout rt = Some fc \<longrightarrow> fc_sub fc \<and> \<not> fc_closed fc)"
proof (cases rule: mosquitto_plugin_init_cases[of env raw])
  case (panic e cfg)
  with assms show ?thesis by simp
next
  case (refused nc)
  with assms show ?thesis by simp
next
  case (built cfg rt0 s)
  obtain regs rc0 where r: "registerCallbacks (ie_register env) [] = (regs, rc0)" by fastforce
  obtain a b where d: "Drain (ie_pub env) (ie_in_time env) (rt_Async rt0) = Inr (a, b)" "closed a"
    by (rule Drain_ready[OF built(5)])
  from built(10) assms r d(1) have
    "rc0 \<noteq> MOSQ_ERR_SUCCESS" "rc = rc0" "rt = rt0\<lparr>rt_Async := a\<rparr>" "nc = Some \<lparr>nc_url = NatsURL cfg, nc_closed = True\<rparr>"
    "registered p = regs" "runtime p = None"
    by (auto simp: Let_def split: if_splits)
  with built(5,8,9) d(2) registerCallbacks_result[OF r] show ?thesis by (simp add: runtime_ready_def)
qed

theorem failed_registration_leaks_witness:
  "\<exists>p rt nc. mosquitto_plugin_init
       (demo_init_env (\<lambda>e. if e = MOSQ_EVT_MESSAGE then MOSQ_ERR_CODE 14 else MOSQ_ERR_SUCCESS)) (Some demo_raw) fresh_process =
       Inr (p, MOSQ_ERR_CODE 14, Some (rt, nc)) \<and> length (registered p) = 3"
proof -
  let ?reg = "\<lambda>e. if e = MOSQ_EVT_MESSAGE then MOSQ_ERR_CODE 14 else MOSQ_ERR_SUCCESS"
  have reg: "ie_register (demo_init_env ?reg) = ?reg" by (simp add: demo_init_env_def)
  have r: "registerCallbacks (ie_register (demo_init_env ?reg)) [] =
      ([MOSQ_EVT_BASIC_AUTH, MOSQ_EVT_ACL_CHECK, MOSQ_EVT_DISCONNECT], MOSQ_ERR_CODE 14)"
    by (simp add: reg registerCallbacks_def callback_pairs_def)
  obtain p rt nc where p: "mosquitto_plugin_init (demo_init_env ?reg) (Some demo_raw) fresh_process =
      Inr (p, MOSQ_ERR_CODE 14, Some (rt, nc))"
  proof (cases rule: mosquitto_plugin_init_cases[of "demo_init_env ?reg" "Some demo_raw"])
    case (panic e cfg)
    with demo_init_ok[of ?reg] show thesis by auto
  next
    case (refused nc)
    with demo_init_ok[of ?reg] show thesis by auto
  next
    case (built cfg rt s)
    obtain a b where "Drain (ie_pub (demo_init_env ?reg)) (ie_in_time (demo_init_env ?reg)) (rt_Async rt) = Inr (a, b)"
      by (rule Drain_ready[OF built(5)])
    with built(10) r that show thesis by simp
  qed
  from failed_registration_leaks[OF p] p show ?thesis by (simp add: reg callback_pairs_def)
qed

text \<open>Clean-up tears everything down, and without a panic unless a fanout handler is caught between
  its test of the pointer and its delete: the fanout consumer is stopped, Pebble closed, the
  publisher drained (and every accepted job accounted for when the workers finish in time), the
  connection closed, the callbacks unregistered where the broker agrees, and the runtime forgotten, so
  that a second clean-up does nothing.\<close>

theorem plugin_cleanup_tears_down:
  fixes env :: "'db init_env"
  assumes "runtime p = Some rt" "runtime_ready rt" "\<not> handler_caught env rt"
  shows "\<exists>p' rt' nc. mosquitto_plugin_cleanup env p = Inr (p', MOSQ_ERR_SUCCESS, Some (rt', nc)) \<and>
    runtime p' = None \<and> natsConn p' = None \<and>
    (pluginID p \<longrightarrow> (\<forall>e \<in> set (registered p') \<inter> set callback_pairs. ie_unregister env e \<noteq> MOSQ_ERR_SUCCESS)) \<and>
    (\<forall>fc. rt_Fanout rt' = Some fc \<longrightarrow> fc_closed fc \<and> \<not> fc_sub fc) \<and>
    (\<forall>s. rt_Store rt' = Some s \<longrightarrow> pebbleDB s = None) \<and> closed (rt_Async rt') \<and>
    (ie_in_time env \<longrightarrow> queue (rt_Async rt') = [] \<and> in_work (rt_Async rt') = [] \<and> wg (rt_Async rt') = 0 \<and>
       enqueued (rt_Async rt') = published (rt_Async rt') + publishErr (rt_Async rt')) \<and>
    nc = map_option (\<lambda>c. c\<lparr>nc_closed := True\<rparr>) (natsConn p) \<and>
    mosquitto_plugin_cleanup env' p' = Inr (p', MOSQ_ERR_SUCCESS, None)"
proof (rule mosquitto_plugin_cleanup_ready[OF assms])
  fix a b q rt'
  assume c: "mosquitto_plugin_cleanup env p =
      Inr (q, MOSQ_ERR_SUCCESS, Some (rt', map_option (\<lambda>c. c\<lparr>nc_closed := True\<rparr>) (natsConn p)))"
    and d: "Drain (ie_pub env) (ie_in_time env) (rt_Async rt) = Inr (a, b)" "closed a"
    "ie_in_time env \<longrightarrow> queue a = [] \<and> in_work a = [] \<and> wg a = 0 \<and> enqueued a = published a + publishErr a"
    and q: "q = p\<lparr>registered := if pluginID p then unregisterCallbacks (ie_unregister env) (registered p)
      else registered p, runtime := None, natsConn := None\<rparr>"
    and rt': "rt' = rt\<lparr>rt_Fanout := map_option (\<lambda>f. fst (fanout_Stop (ie_fanoutDrainErr env) f)) (rt_Fanout rt),
      rt_Store := map_option (\<lambda>s. fst (store_Close (ie_store env) s)) (rt_Store rt), rt_Async := a\<rparr>"
  from assms(2) have "\<forall>fc. rt_Fanout rt = Some fc \<longrightarrow> fc_sub fc \<and> \<not> fc_closed fc" by (simp add: runtime_ready_def)
  then have "\<forall>fc. rt_Fanout rt' = Some fc \<longrightarrow> fc_closed fc \<and> \<not> fc_sub fc"
    by (cases "rt_Fanout rt") (simp_all add: rt' fanout_Stop_def Let_def)
  moreover have "\<forall>s. rt_Store rt' = Some s \<longrightarrow> pebbleDB s = None"
    by (cases "rt_Store rt") (simp_all add: rt' store_Close_def split: option.splits)
  moreover have "runtime q = None" "natsConn q = None"
    "pluginID p \<longrightarrow> (\<forall>e \<in> set (registered q) \<inter> set callback_pairs. ie_unregister env e \<noteq> MOSQ_ERR_SUCCESS)"
    "mosquitto_plugin_cleanup env' q = Inr (q, MOSQ_ERR_SUCCESS, None)" "rt_Async rt' = a"
    by (auto simp: q rt' mosquitto_plugin_cleanup_def unregisterCallbacks_def)
  ultimately show ?thesis using c d(2,3) by (intro exI[of _ q] exI[of _ rt'] exI conjI) simp_all
qed

theorem plugin_cleanup_tears_down_witness:
  "\<exists>p' rt' nc. mosquitto_plugin_cleanup (demo_init_env (\<lambda>_. MOSQ_ERR_SUCCESS)) demo_process =
     Inr (p', MOSQ_ERR_SUCCESS, Some (rt', nc)) \<and> runtime p' = None \<and> closed (rt_Async rt')"
proof -
  have "\<not> handler_caught (demo_init_env (\<lambda>_. MOSQ_ERR_SUCCESS)) demo_rt"
    by (simp add: handler_caught_def demo_rt_def)
  from plugin_cleanup_tears_down[OF demo_process_runtime demo_ready this] show ?thesis by blast
qed

end
