(* ===== verification/BrokerRuns.thy ===== *)
theory BrokerRuns
  imports PluginMain
begin

text \<open>
  The plugin as the broker drives it: any sequence of callbacks, fanout deliveries and worker
  actions on one process. The invariant of a ready process, where sessions come from, and what
  becomes of a client's messages.
\<close>

section \<open>Definitions\<close>

text \<open>
  What can happen to a running process: the four callbacks, a delivery to the fanout consumer, a
  free worker that receives the next job, and a busy worker that publishes the job it holds.
  Between its two actions a worker can be overtaken by any other event, in particular by the
  other workers. A callback and a fanout delivery are one event each.
\<close>

datatype broker_event =
    EvBasicAuth auth_event
  | EvAclCheck acl_event
  | EvDisconnect disconnect_event
  | EvMessage message_event
  | EvFanout bytes
  | EvTake
  | EvPublish nat pub_outcome

definition onFanout :: "'db call_env \<Rightarrow> bytes \<Rightarrow> 'db plugin_process \<Rightarrow> 'db plugin_process" where
  "onFanout env data p =
     (case runtime p of
        None \<Rightarrow> p
      | Some rt \<Rightarrow>
          (case (rt_Fanout rt, rt_Store rt) of
             (Some fc, Some s) \<Rightarrow>
               if \<not> fc_sub fc then p
               else (case fanout_handle (store_Invalidate (ce_store env None)) data (fc, s) of
                       (fc', s') \<Rightarrow> p\<lparr>runtime := Some (rt\<lparr>rt_Fanout := Some fc', rt_Store := Some s'\<rparr>)\<rparr>)
           | _ \<Rightarrow> p))"

definition onTake :: "'db plugin_process \<Rightarrow> 'db plugin_process" where
  "onTake p =
     (case runtime p of
        None \<Rightarrow> p
      | Some rt \<Rightarrow>
          (case receive (rt_Async rt) of
             None \<Rightarrow> p
           | Some async \<Rightarrow> p\<lparr>runtime := Some (rt\<lparr>rt_Async := async\<rparr>)\<rparr>))"

definition onPublish :: "nat \<Rightarrow> pub_outcome \<Rightarrow> 'db plugin_process \<Rightarrow> 'db plugin_process" where
  "onPublish i out p =
     (case runtime p of
        None \<Rightarrow> p
      | Some rt \<Rightarrow>
          (case publishHeld i out (rt_Async rt) of
             None \<Rightarrow> p
           | Some async \<Rightarrow> p\<lparr>runtime := Some (rt\<lparr>rt_Async := async\<rparr>)\<rparr>))"

fun process_step ::
    "'db call_env \<Rightarrow> broker_event \<Rightarrow> 'db plugin_process \<Rightarrow> go_panic + 'db plugin_process \<times> mosq_rc" where
  "process_step env (EvBasicAuth ed) p = goOnBasicAuth env (Some ed) p"
| "process_step env (EvAclCheck ed) p = Inr (p, goOnAclCheck (Some ed) p)"
| "process_step env (EvDisconnect ed) p = goOnDisconnect env (Some ed) p"
| "process_step env (EvMessage ed) p = goOnMessage env (Some ed) p"
| "process_step env (EvFanout data) p = Inr (onFanout env data p, MOSQ_ERR_SUCCESS)"
| "process_step env EvTake p = Inr (onTake p, MOSQ_ERR_SUCCESS)"
| "process_step env (EvPublish i out) p = Inr (onPublish i out p, MOSQ_ERR_SUCCESS)"

fun process_run ::
    "('db call_env \<times> broker_event) list \<Rightarrow> 'db plugin_process \<Rightarrow> go_panic + 'db plugin_process" where
  "process_run [] p = Inr p"
| "process_run ((env, ev) # evs) p =
     (case process_step env ev p of Inl e \<Rightarrow> Inl e | Inr (p, _) \<Rightarrow> process_run evs p)"

section \<open>Lemmas\<close>

text \<open>What holds between events: a runtime, if there is one, is ready, and no session has the empty
  client identifier.\<close>

definition process_ok :: "'db plugin_process \<Rightarrow> bool" where
  "process_ok p \<longleftrightarrow> (\<forall>rt. runtime p = Some rt \<longrightarrow> runtime_ready rt \<and> sessions rt '''' = None)"

lemma store_Invalidate_cfg: "store_Invalidate env s k = (s', err) \<Longrightarrow> ts_cfg s' = ts_cfg s"
  by (auto simp: store_Invalidate_def Let_def split: if_splits option.splits prod.splits)

lemma fanout_handle_frame:
  "fanout_handle (store_Invalidate env) data (fc, s) = (fc', s') \<Longrightarrow>
   ts_cfg s' = ts_cfg s \<and> fc_sub fc' = fc_sub fc \<and> fc_closed fc' = fc_closed fc"
  by (auto simp: fanout_handle_def dest: store_Invalidate_cfg split: sum.splits if_splits prod.splits option.splits)

lemma onFanout_ready:
  assumes "runtime p = Some rt" "runtime_ready rt"
  obtains rt' where "onFanout env data p = p\<lparr>runtime := Some rt'\<rparr>" "runtime_ready rt'"
    "rt_Config rt' = rt_Config rt" "sessions rt' = sessions rt"
proof (cases "\<exists>fc. rt_Fanout rt = Some fc \<and> fc_sub fc")
  case False
  then have "onFanout env data p = p\<lparr>runtime := Some rt\<rparr>"
    using assms(1) by (auto simp: onFanout_def split: option.splits)
  with assms(2) that show thesis by blast
next
  case True
  then obtain fc where fc: "rt_Fanout rt = Some fc" "fc_sub fc" by blast
  from assms(2) obtain s where s: "rt_Store rt = Some s" by (auto simp: runtime_ready_def)
  obtain fc' s' where h: "fanout_handle (store_Invalidate (ce_store env None)) data (fc, s) = (fc', s')" by fastforce
  have "runtime_ready (rt\<lparr>rt_Fanout := Some fc', rt_Store := Some s'\<rparr>)"
    using assms(2) s fc fanout_handle_frame[OF h] by (simp add: runtime_ready_def)
  with fc s h assms(1) show thesis
    by (intro that[of "rt\<lparr>rt_Fanout := Some fc', rt_Store := Some s'\<rparr>"]) (simp_all add: onFanout_def)
qed

text \<open>A worker's action changes the publisher only and leaves the runtime ready.\<close>

lemma worker_action_ready:
  assumes "runtime p = Some rt" "runtime_ready rt"
    and "act = p \<or> (\<exists>async. act = p\<lparr>runtime := Some (rt\<lparr>rt_Async := async\<rparr>)\<rparr> \<and>
      (receive (rt_Async rt) = Some async \<or> publishHeld i out (rt_Async rt) = Some async))"
  obtains rt' where "act = p\<lparr>runtime := Some rt'\<rparr>" "runtime_ready rt'"
    "rt_Config rt' = rt_Config rt" "sessions rt' = sessions rt"
  using assms(3)
proof
  assume "act = p"
  with assms(1,2) that[of rt] show thesis by simp
next
  assume "\<exists>async. act = p\<lparr>runtime := Some (rt\<lparr>rt_Async := async\<rparr>)\<rparr> \<and>
      (receive (rt_Async rt) = Some async \<or> publishHeld i out (rt_Async rt) = Some async)"
  then obtain async where a: "act = p\<lparr>runtime := Some (rt\<lparr>rt_Async := async\<rparr>)\<rparr>"
    "receive (rt_Async rt) = Some async \<or> publishHeld i out (rt_Async rt) = Some async" by blast
  have "runtime_ready (rt\<lparr>rt_Async := async\<rparr>)"
    using a(2) assms(2) by (auto simp: runtime_ready_def dest: receive_ok publishHeld_ok)
  with a(1) that show thesis by simp
qed

lemma onTake_ready:
  assumes "runtime p = Some rt" "runtime_ready rt"
  obtains rt' where "onTake p = p\<lparr>runtime := Some rt'\<rparr>" "runtime_ready rt'"
    "rt_Config rt' = rt_Config rt" "sessions rt' = sessions rt"
  by (rule worker_action_ready[OF assms, of "onTake p"]) (auto simp: onTake_def assms(1) split: option.splits)

lemma onPublish_ready:
  assumes "runtime p = Some rt" "runtime_ready rt"
  obtains rt' where "onPublish i out p = p\<lparr>runtime := Some rt'\<rparr>" "runtime_ready rt'"
    "rt_Config rt' = rt_Config rt" "sessions rt' = sessions rt"
  by (rule worker_action_ready[OF assms, of "onPublish i out p" i out])
     (auto simp: onPublish_def assms(1) split: option.splits)

text \<open>What one event does to a ready process, sessions in particular.\<close>

fun sessions_after :: "'db call_env \<Rightarrow> broker_event \<Rightarrow> 'db TieredAuthStore PluginRuntime \<Rightarrow>
    (string \<rightharpoonup> SessionInfo) \<Rightarrow> bool" where
  "sessions_after env (EvBasicAuth ed) rt f \<longleftrightarrow>
     f = sessions rt \<or>
     GoString (ae_clientID ed) \<noteq> '''' \<and>
     (\<exists>info. admitted env ed rt info \<and> f = (sessions rt)(GoString (ae_clientID ed) \<mapsto> info))"
| "sessions_after env (EvDisconnect ed) rt f \<longleftrightarrow> f = (sessions rt)(GoString (de_clientID ed) := None)"
| "sessions_after env ev rt f \<longleftrightarrow> f = sessions rt"

lemma process_step_ready:
  assumes "runtime p = Some rt" "runtime_ready rt" "sessions rt '''' = None"
  obtains rt' rc where "process_step env ev p = Inr (p\<lparr>runtime := Some rt'\<rparr>, rc)" "runtime_ready rt'"
    "rt_Config rt' = rt_Config rt" "sessions_after env ev rt (sessions rt')"
proof (cases ev)
  case (EvBasicAuth ed)
  from assms(1,2) show thesis
    by (cases rule: goOnBasicAuth_cases[of p rt env ed]) (use EvBasicAuth that in \<open>auto split: if_splits\<close>)
next
  case (EvAclCheck ed)
  have "p = p\<lparr>runtime := Some rt\<rparr>" using assms(1) by simp
  with EvAclCheck assms(2) that[of rt "goOnAclCheck (Some ed) p"] show thesis by simp
next
  case (EvDisconnect ed)
  obtain rt' where "goOnDisconnect env (Some ed) p = Inr (p\<lparr>runtime := Some rt'\<rparr>, MOSQ_ERR_SUCCESS)" "runtime_ready rt'"
    "rt_Config rt' = rt_Config rt" "sessions rt' = (sessions rt)(GoString (de_clientID ed) := None)" by (rule goOnDisconnect_ready[OF assms])
  with EvDisconnect that[of rt' MOSQ_ERR_SUCCESS] show thesis by simp
next
  case (EvMessage ed)
  obtain rt' where "goOnMessage env (Some ed) p = Inr (p\<lparr>runtime := Some rt'\<rparr>, MOSQ_ERR_SUCCESS)" "runtime_ready rt'"
    "rt_Config rt' = rt_Config rt" "sessions rt' = sessions rt" by (rule goOnMessage_ready[OF assms(1,2)])
  with EvMessage that[of rt' MOSQ_ERR_SUCCESS] show thesis by simp
next
  case (EvFanout data)
  obtain rt' where "onFanout env data p = p\<lparr>runtime := Some rt'\<rparr>" "runtime_ready rt'"
    "rt_Config rt' = rt_Config rt" "sessions rt' = sessions rt" by (rule onFanout_ready[OF assms(1,2)])
  with EvFanout that[of rt' MOSQ_ERR_SUCCESS] show thesis by simp
next
  case EvTake
  obtain rt' where "onTake p = p\<lparr>runtime := Some rt'\<rparr>" "runtime_ready rt'" "rt_Config rt' = rt_Config rt"
    "sessions rt' = sessions rt" by (rule onTake_ready[OF assms(1,2)])
  with EvTake that[of rt' MOSQ_ERR_SUCCESS] show thesis by simp
next
  case (EvPublish i out)
  obtain rt' where "onPublish i out p = p\<lparr>runtime := Some rt'\<rparr>" "runtime_ready rt'" "rt_Config rt' = rt_Config rt"
    "sessions rt' = sessions rt" by (rule onPublish_ready[OF assms(1,2)])
  with EvPublish that[of rt' MOSQ_ERR_SUCCESS] show thesis by simp
qed

lemma sessions_after_empty:
  "sessions_after env ev rt f \<Longrightarrow> sessions rt '''' = None \<Longrightarrow> f '''' = None"
  by (cases ev) auto

lemma process_step_None: "runtime p = None \<Longrightarrow> \<exists>rc. process_step env ev p = Inr (p, rc)"
  by (cases ev) (auto simp: goOnBasicAuth_def goOnDisconnect_def goOnMessage_def onFanout_def onTake_def onPublish_def)

text \<open>What stays the same: the configuration, the connection and the registered callbacks.\<close>

definition same_setting :: "'db plugin_process \<Rightarrow> 'db plugin_process \<Rightarrow> bool" where
  "same_setting p q \<longleftrightarrow>
     map_option rt_Config (runtime q) = map_option rt_Config (runtime p) \<and> natsConn q = natsConn p \<and>
     pluginID q = pluginID p \<and> registered q = registered p"

lemma process_step_ok:
  assumes "process_ok p"
  obtains p' rc where "process_step env ev p = Inr (p', rc)" "process_ok p'" "same_setting p p'"
proof (cases "runtime p")
  case None
  from process_step_None[OF this, of env ev] assms that show thesis by (auto simp: same_setting_def)
next
  case (Some rt)
  with assms have "runtime_ready rt" "sessions rt '''' = None" by (simp_all add: process_ok_def)
  from process_step_ready[OF Some this, of env ev] obtain rt' rc where
    "process_step env ev p = Inr (p\<lparr>runtime := Some rt'\<rparr>, rc)" "runtime_ready rt'" "rt_Config rt' = rt_Config rt"
    "sessions_after env ev rt (sessions rt')" by metis
  with sessions_after_empty[of env ev rt "sessions rt'"] \<open>sessions rt '''' = None\<close> Some that
  show thesis by (auto simp: process_ok_def same_setting_def)
qed

lemma process_run_ok: "process_ok p \<Longrightarrow> \<exists>p'. process_run evs p = Inr p' \<and> process_ok p' \<and> same_setting p p'"
proof (induction evs arbitrary: p)
  case (Cons e evs)
  obtain env ev where e: "e = (env, ev)" by fastforce
  obtain p' rc where p': "process_step env ev p = Inr (p', rc)" "process_ok p'" "same_setting p p'"
    by (rule process_step_ok[OF Cons.prems])
  from Cons.IH[OF p'(2)] obtain p'' where "process_run evs p' = Inr p''" "process_ok p''" "same_setting p' p''" by blast
  with p' e show ?case by (auto simp: same_setting_def)
qed (simp add: same_setting_def)

lemma process_run_append:
  "process_run (es @ fs) p = (case process_run es p of Inl e \<Rightarrow> Inl e | Inr q \<Rightarrow> process_run fs q)"
proof (induction es arbitrary: p)
  case (Cons e es)
  then show ?case by (cases e) (auto split: sum.splits prod.splits)
qed simp

lemma admitted_asset: "admitted env ed rt info \<Longrightarrow> si_AssetUUID info = auth_username ed"
  by (auto simp: admitted_def)

lemma admitted_unique: "admitted env ed rt i \<Longrightarrow> admitted env ed rt j \<Longrightarrow> i = j"
  by (auto simp: admitted_def)

lemma admitted_sessions [simp]: "admitted env ed (rt\<lparr>sessions := f\<rparr>) info = admitted env ed rt info"
  by (simp add: admitted_def)

text \<open>Where a session comes from, by induction from the end of the run.\<close>

definition session_origin ::
    "('db call_env \<times> broker_event) list \<Rightarrow> 'db plugin_process \<Rightarrow> string \<Rightarrow> SessionInfo \<Rightarrow> bool" where
  "session_origin evs p c info \<longleftrightarrow>
     (\<exists>before env ed after q rt. evs = before @ (env, EvBasicAuth ed) # after \<and>
        process_run before p = Inr q \<and> runtime q = Some rt \<and> GoString (ae_clientID ed) = c \<and> admitted env ed rt info \<and>
        (\<forall>env' d. (env', EvDisconnect d) \<in> set after \<longrightarrow> GoString (de_clientID d) \<noteq> c))"

lemma session_origin_snoc:
  assumes "session_origin evs p c info" "\<forall>d. ev = EvDisconnect d \<longrightarrow> GoString (de_clientID d) \<noteq> c"
  shows "session_origin (evs @ [(env, ev)]) p c info"
proof -
  from assms(1) obtain before env0 ed after q rt where o: "evs = before @ (env0, EvBasicAuth ed) # after"
    "process_run before p = Inr q" "runtime q = Some rt" "GoString (ae_clientID ed) = c" "admitted env0 ed rt info"
    "\<forall>env' d. (env', EvDisconnect d) \<in> set after \<longrightarrow> GoString (de_clientID d) \<noteq> c"
    unfolding session_origin_def by blast
  have "evs @ [(env, ev)] = before @ (env0, EvBasicAuth ed) # (after @ [(env, ev)])" using o(1) by simp
  moreover have "\<forall>env' d. (env', EvDisconnect d) \<in> set (after @ [(env, ev)]) \<longrightarrow> GoString (de_clientID d) \<noteq> c"
    using o(6) assms(2) by auto
  ultimately show ?thesis using o(2-5) unfolding session_origin_def by blast
qed

lemma sessions_traced:
  assumes "process_ok p" "runtime p = Some rt0" "sessions rt0 = Map.empty"
  shows "process_run evs p = Inr q \<Longrightarrow>
    \<exists>rt. runtime q = Some rt \<and> (\<forall>c info. sessions rt c = Some info \<longrightarrow> session_origin evs p c info)"
proof (induction evs arbitrary: q rule: rev_induct)
  case Nil
  with assms(2,3) show ?case by auto
next
  case (snoc e evs)
  obtain env ev where e: "e = (env, ev)" by fastforce
  from snoc.prems e obtain q1 rc where run: "process_run evs p = Inr q1" and st: "process_step env ev q1 = Inr (q, rc)"
    by (auto simp: process_run_append split: sum.splits)
  from snoc.IH[OF run] obtain rt1 where rt1: "runtime q1 = Some rt1"
    "\<And>c info. sessions rt1 c = Some info \<Longrightarrow> session_origin evs p c info" by blast
  have "process_ok q1" using process_run_ok[OF assms(1), of evs] run by simp
  with rt1(1) have ok: "runtime_ready rt1" "sessions rt1 '''' = None" by (simp_all add: process_ok_def)
  from process_step_ready[OF rt1(1) ok, of env ev] st obtain rt where rt: "runtime q = Some rt"
    and after: "sessions_after env ev rt1 (sessions rt)" by force
  have "session_origin (evs @ [(env, ev)]) p c info" if c: "sessions rt c = Some info" for c info
  proof (cases "sessions rt1 c = Some info")
    case True
    then have "\<forall>d. ev = EvDisconnect d \<longrightarrow> GoString (de_clientID d) \<noteq> c" using after c by auto
    with rt1(2)[OF True] show ?thesis by (rule session_origin_snoc)
  next
    case False
    then obtain ed where "ev = EvBasicAuth ed" "GoString (ae_clientID ed) = c" "admitted env ed rt1 info"
      using after c by (cases ev) (auto split: if_splits)
    with run rt1(1) show ?thesis unfolding session_origin_def
      by (intro exI[of _ evs] exI[of _ env] exI[of _ ed] exI[of _ "[]"] exI[of _ q1] exI[of _ rt1]) simp
  qed
  with rt e show ?case by blast
qed

lemma demo_process_ok: "process_ok demo_process" "sessions demo_rt = Map.empty"
  using demo_ready by (simp_all add: process_ok_def demo_rt_def)

lemma demo_connect:
  assumes "runtime p = Some (demo_rt\<lparr>sessions := f\<rparr>)"
  obtains rt' where "goOnBasicAuth (demo_call (demo_env 0)) (Some demo_password_event) p =
      Inr (p\<lparr>runtime := Some rt'\<rparr>, MOSQ_ERR_SUCCESS)"
    "sessions rt' = f(''c1'' \<mapsto> \<lparr>si_OrgID = ''o1'', si_AssetUUID = ''a1''\<rparr>)" "runtime_ready rt'"
proof -
  have adm: "admitted (demo_call (demo_env 0)) demo_password_event (demo_rt\<lparr>sessions := f\<rparr>)
      \<lparr>si_OrgID = ''o1'', si_AssetUUID = ''a1''\<rparr>" using demo_admitted[of 0] by simp
  have c1: "GoString (ae_clientID demo_password_event) = ''c1''" by (simp add: demo_password_event_def)
  have "runtime_ready (demo_rt\<lparr>sessions := f\<rparr>)" using demo_ready by simp
  with assms show thesis
  proof (cases rule: goOnBasicAuth_cases[where env = "demo_call (demo_env 0)" and ed = demo_password_event])
    case (admit info rt')
    with admitted_unique[OF adm admit(1)] c1 that show thesis by simp
  next
    case (refuse rc rt')
    with adm show thesis by blast
  qed
qed

section \<open>Properties\<close>

text \<open>C1: The plugin does not take the broker down. From a ready process, whatever callbacks, fanout
  messages and worker actions come in whatever order, and whatever the store, NATS and the
  clients do, no call panics, and the process stays ready with the same configuration,
  connection and registered callbacks.\<close>

theorem callbacks_keep_ready:
  assumes "process_ok p"
  shows "\<exists>q. process_run evs p = Inr q \<and> process_ok q \<and>
    map_option rt_Config (runtime q) = map_option rt_Config (runtime p) \<and> natsConn q = natsConn p \<and>
    registered q = registered p"
  using process_run_ok[OF assms, of evs] by (auto simp: same_setting_def)

theorem callbacks_keep_ready_witness:
  "\<exists>q. process_run [(demo_call (demo_env 0), EvBasicAuth demo_password_event), (demo_call cert_env, EvFanout ''x''),
      (demo_call cert_env, EvTake), (demo_call cert_env, EvPublish 0 (PubPanic ''nil''))] demo_process = Inr q \<and> process_ok q"
  using callbacks_keep_ready[OF demo_process_ok(1)] by blast

text \<open>C5: Where sessions come from. After any run from a process without sessions, a session of a
  client identifier stems from an earlier CONNECT under that identifier which the store admitted
  with an enabled entry and a matching credential, its organisation is the one of that entry, its
  asset the username, and no disconnect of the identifier came after it.\<close>

theorem session_traceback:
  assumes "process_ok p" "runtime p = Some rt0" "sessions rt0 = Map.empty" "process_run evs p = Inr q"
    and "runtime q = Some rt" "sessions rt c = Some info"
  shows "\<exists>before env ed after q1 rt1. evs = before @ (env, EvBasicAuth ed) # after \<and>
     process_run before p = Inr q1 \<and> runtime q1 = Some rt1 \<and> GoString (ae_clientID ed) = c \<and>
     admitted env ed rt1 info \<and> si_AssetUUID info = auth_username ed \<and>
     (\<forall>env' d. (env', EvDisconnect d) \<in> set after \<longrightarrow> GoString (de_clientID d) \<noteq> c)"
proof -
  have "session_origin evs p c info" using sessions_traced[OF assms(1-4)] assms(5,6) by auto
  then show ?thesis unfolding session_origin_def using admitted_asset by blast
qed

theorem session_traceback_witness:
  "\<exists>q rt. process_run [(demo_call (demo_env 0), EvBasicAuth demo_password_event)] demo_process = Inr q \<and>
     runtime q = Some rt \<and> sessions rt ''c1'' = Some \<lparr>si_OrgID = ''o1'', si_AssetUUID = ''a1''\<rparr> \<and>
     auth_username demo_password_event = ''a1''"
proof -
  have "runtime demo_process = Some (demo_rt\<lparr>sessions := Map.empty\<rparr>)" using demo_process_ok(2) by simp
  from demo_connect[OF this] obtain rt' where
    rt': "goOnBasicAuth (demo_call (demo_env 0)) (Some demo_password_event) demo_process =
      Inr (demo_process\<lparr>runtime := Some rt'\<rparr>, MOSQ_ERR_SUCCESS)"
    "sessions rt' ''c1'' = Some \<lparr>si_OrgID = ''o1'', si_AssetUUID = ''a1''\<rparr>" by (metis fun_upd_same)
  let ?evs = "[(demo_call (demo_env 0), EvBasicAuth demo_password_event)]"
  have run: "process_run ?evs demo_process = Inr (demo_process\<lparr>runtime := Some rt'\<rparr>)" using rt'(1) by simp
  from session_traceback[OF demo_process_ok(1) demo_process_runtime demo_process_ok(2) run _ rt'(2)]
  have "auth_username demo_password_event = ''a1''" by (auto simp: Cons_eq_append_conv)
  with run rt'(2) show ?thesis by auto
qed

text \<open>C37: A reconnect can lose its session. When a client identifier is admitted again while an earlier
  connection under it is still there, the disconnect event of that earlier connection removes the
  session of the new one: from then on its messages are neither published nor counted.\<close>

theorem takeover_loses_session:
  assumes "process_ok p" "runtime p \<noteq> None"
    and "process_step env1 (EvBasicAuth ed) p = Inr (p1, MOSQ_ERR_SUCCESS)"
    and "process_step env2 (EvDisconnect d) p1 = Inr (p2, rc)" "GoString (de_clientID d) = GoString (ae_clientID ed)"
    and "GoString (me_clientID m) = GoString (ae_clientID ed)"
  shows "process_step env (EvMessage m) p2 = Inr (p2, MOSQ_ERR_SUCCESS)"
proof -
  obtain p1' rc' where "process_step env1 (EvBasicAuth ed) p = Inr (p1', rc')" "process_ok p1'" "same_setting p p1'"
    by (rule process_step_ok[OF assms(1)])
  with assms(2,3) obtain rt1 where rt1: "runtime p1 = Some rt1" "runtime_ready rt1" "sessions rt1 '''' = None"
    by (cases "runtime p1") (auto simp: process_ok_def same_setting_def)
  obtain rt2 where "goOnDisconnect env2 (Some d) p1 = Inr (p1\<lparr>runtime := Some rt2\<rparr>, MOSQ_ERR_SUCCESS)"
    "sessions rt2 = (sessions rt1)(GoString (de_clientID d) := None)"
    by (rule goOnDisconnect_ready[OF rt1, of env2 d])
  with assms(4-6) show ?thesis by (auto simp: goOnMessage_def LookupSession_def Let_def)
qed

theorem takeover_loses_session_witness:
  "\<exists>p1 p2. let p = demo_process\<lparr>runtime := Some (demo_rt\<lparr>sessions :=
        [''c1'' \<mapsto> \<lparr>si_OrgID = ''o1'', si_AssetUUID = ''a1''\<rparr>]\<rparr>)\<rparr>;
      env = demo_call (demo_env 0) in
     process_step env (EvBasicAuth demo_password_event) p = Inr (p1, MOSQ_ERR_SUCCESS) \<and>
     process_step env (EvDisconnect \<lparr>de_clientID = Some ''c1'', de_address = None, de_reason = 7\<rparr>) p1 =
       Inr (p2, MOSQ_ERR_SUCCESS) \<and>
     process_step env (EvMessage \<lparr>me_clientID = Some ''c1'', me_topic = Some ''events/a1/t'', me_payload = ''hi'',
        me_qos = 0, me_retain = False\<rparr>) p2 = Inr (p2, MOSQ_ERR_SUCCESS)"
proof -
  let ?f = "[''c1'' \<mapsto> \<lparr>si_OrgID = ''o1'', si_AssetUUID = ''a1''\<rparr>]" and ?env = "demo_call (demo_env 0)"
  let ?p = "demo_process\<lparr>runtime := Some (demo_rt\<lparr>sessions := ?f\<rparr>)\<rparr>"
  let ?d = "\<lparr>de_clientID = Some ''c1'', de_address = None, de_reason = 7\<rparr>"
  let ?m = "\<lparr>me_clientID = Some ''c1'', me_topic = Some ''events/a1/t'', me_payload = ''hi'', me_qos = 0, me_retain = False\<rparr>"
  have ok: "process_ok ?p" "runtime ?p \<noteq> None" using demo_ready by (simp_all add: process_ok_def)
  have rt: "runtime ?p = Some (demo_rt\<lparr>sessions := ?f\<rparr>)" by simp
  obtain rt1 where rt1: "goOnBasicAuth ?env (Some demo_password_event) ?p = Inr (?p\<lparr>runtime := Some rt1\<rparr>, MOSQ_ERR_SUCCESS)"
      "sessions rt1 = ?f(''c1'' \<mapsto> \<lparr>si_OrgID = ''o1'', si_AssetUUID = ''a1''\<rparr>)" "runtime_ready rt1"
    by (rule demo_connect[OF rt])
  then have p1: "process_step ?env (EvBasicAuth demo_password_event) ?p = Inr (?p\<lparr>runtime := Some rt1\<rparr>, MOSQ_ERR_SUCCESS)"
    by simp
  have ready: "runtime (?p\<lparr>runtime := Some rt1\<rparr>) = Some rt1" "sessions rt1 '''' = None" using rt1(2) by simp_all
  obtain rt2 where "goOnDisconnect ?env (Some ?d) (?p\<lparr>runtime := Some rt1\<rparr>) =
      Inr (?p\<lparr>runtime := Some rt1\<rparr>\<lparr>runtime := Some rt2\<rparr>, MOSQ_ERR_SUCCESS)"
    by (rule goOnDisconnect_ready[OF ready(1) rt1(3) ready(2), of ?env ?d])
  then have p2: "process_step ?env (EvDisconnect ?d) (?p\<lparr>runtime := Some rt1\<rparr>) =
      Inr (?p\<lparr>runtime := Some rt1\<rparr>\<lparr>runtime := Some rt2\<rparr>, MOSQ_ERR_SUCCESS)" by simp
  have id: "GoString (de_clientID ?d) = GoString (ae_clientID demo_password_event)"
    "GoString (me_clientID ?m) = GoString (ae_clientID demo_password_event)"
    by (simp_all add: demo_password_event_def)
  from takeover_loses_session[OF ok p1 p2 id, of ?env] p1 p2 show ?thesis unfolding Let_def by blast
qed

end
