(* ===== verification/Revocation.thy ===== *)
theory Revocation
  imports StoreConc BrokerRuns
begin

text \<open>
  What becomes of a revocation. The assets service changes or removes the entry of an asset and
  sends a fanout message; the plugin deletes the L1 record. The theory follows L1 from that delete
  on: as long as L2 and L3 answer no lookup with an enabled entry of the asset, L1 never holds one
  again, neither over runs of the whole process nor over interleavings of the store's atomic
  actions. A lookup that had its answer from L2 or L3 before the delete and writes it to L1
  afterwards counts among these lookups: it is the one way in which an invalidation is lost.
\<close>

section \<open>Lemmas\<close>

subsection \<open>The layers below L1\<close>

text \<open>Stores with the same bucket and the same L3 service; counters and L1 may differ.\<close>

definition same_backend :: "'db TieredAuthStore \<Rightarrow> 'db TieredAuthStore \<Rightarrow> bool" where
  "same_backend s t \<longleftrightarrow>
     minioClient t = minioClient s \<and> L2Bucket (ts_cfg t) = L2Bucket (ts_cfg s) \<and>
     map_option ac_cfg (L3Client (ts_cfg t)) = map_option ac_cfg (L3Client (ts_cfg s))"

lemma same_backend_refl [simp]: "same_backend s s"
  by (simp add: same_backend_def)

lemma same_backend_trans: "same_backend s t \<Longrightarrow> same_backend t u \<Longrightarrow> same_backend s u"
  by (simp add: same_backend_def)

lemma readL2_backend: "same_backend s t \<Longrightarrow> readL2 env t k = readL2 env s k"
  by (simp add: readL2_def same_backend_def)

lemma LookupEntry_backend:
  assumes "ac_cfg a = ac_cfg b"
  shows "snd (LookupEntry env a k) = snd (LookupEntry env b k)"
proof -
  have "lookupRequest (a\<lparr>lookups := n\<rparr>) k = lookupRequest b k" "lookupRequest (b\<lparr>lookups := n\<rparr>) k = lookupRequest b k" for n
    using assms by (simp_all add: lookupRequest_def)
  then show ?thesis by (simp add: LookupEntry_def Let_def split: option.split http_reply.split)
qed

lemma LookupEntry_cfg: "LookupEntry env a k = (a', r) \<Longrightarrow> ac_cfg a' = ac_cfg a"
  by (auto elim: LookupEntry_cases)

lemma readL3_backend: "same_backend s t \<Longrightarrow> snd (readL3 env t k) = snd (readL3 env s k)"
proof (cases "L3Client (ts_cfg s)")
  case (Some c)
  assume b: "same_backend s t"
  with Some obtain d where d: "L3Client (ts_cfg t) = Some d" "ac_cfg d = ac_cfg c" by (auto simp: same_backend_def)
  from LookupEntry_backend[OF d(2), of "se_http env" k] d(1) Some show ?thesis
    by (cases "LookupEntry (se_http env) d k"; cases "LookupEntry (se_http env) c k") (simp add: readL3_def)
qed (auto simp: same_backend_def readL3_def)

lemma readL3_same: "readL3 env s k = (t, r) \<Longrightarrow> same_backend s t"
  by (auto simp: readL3_def same_backend_def LookupEntry_cfg split: option.splits prod.splits)

lemma store_Get_same:
  assumes "store_Get env s k = (t, r)"
  shows "same_backend s t"
proof -
  have "same_backend s (missed env s k)"
    by (simp add: same_backend_def missed_def Let_def split: sum.split)
  then have L3: "same_backend s u" if "readL3 env (missed env s k) k = (u, q)" for u q
    using readL3_same[OF that] same_backend_trans by blast
  from assms show ?thesis
    by (cases rule: store_Get_cases) (auto simp: same_backend_def dest!: L3)
qed

lemma store_Invalidate_same: "store_Invalidate env s k = (t, err) \<Longrightarrow> same_backend s t"
  by (auto simp: store_Invalidate_def same_backend_def Let_def split: option.splits if_splits prod.splits)

text \<open>What a store without L1 answers depends on the backend only.\<close>

lemma Get_below_backend:
  assumes "same_backend s t"
  shows "snd (store_Get env (t\<lparr>pebbleDB := None\<rparr>) k) = snd (store_Get env (s\<lparr>pebbleDB := None\<rparr>) k)"
proof -
  have L2: "readL2 env (t\<lparr>pebbleDB := None\<rparr>) k = readL2 env (s\<lparr>pebbleDB := None\<rparr>) k"
    using assms by (intro readL2_backend) (simp add: same_backend_def)
  have L3: "snd (getFromL3 env t' k) = snd (getFromL3 env s' k)" if "same_backend s' t'" for s' t' :: "'a TieredAuthStore"
    using readL3_backend[OF that, of env k]
    by (cases "readL3 env t' k"; cases "readL3 env s' k") (auto simp: getFromL3_def split: sum.split)
  show ?thesis
    using assms by (auto simp: store_Get_def readL1_def L2 Let_def same_backend_def intro!: L3 split: sum.split option.split)
qed

subsection \<open>L1 after a revocation\<close>

text \<open>No record of the asset in L1 decodes to an enabled entry.\<close>

definition text_revoked :: "bytes \<Rightarrow> bool" where
  "text_revoked v \<longleftrightarrow>
     (\<forall>parse pe. json_Unmarshal (decodePebbleEntry parse) zero_pebbleEntry v = Inr pe \<longrightarrow> \<not> Enabled (pe_Entry pe))"

definition L1_revoked :: "('db \<Rightarrow> string \<rightharpoonup> bytes) \<Rightarrow> string \<Rightarrow> 'db TieredAuthStore \<Rightarrow> bool" where
  "L1_revoked contents k s \<longleftrightarrow>
     (\<forall>db v. pebbleDB s = Some db \<longrightarrow> contents db k = Some v \<longrightarrow> text_revoked v)"

text \<open>The flag of a record survives the wire, whatever its strings are.\<close>

lemma decodeEntry_enabled: "\<exists>e'. decodeEntry (entry_json e) zero_AuthEntry = (e', False) \<and> Enabled e' = Enabled e"
  by (cases "CurrentCertSerial e = ''''")
     (simp_all add: decodeEntry_def entry_json_def entryFields_def omitempty_def decodeStruct_def lookupField_def
      plainName_unquote decodeString_clean decodeBool_JBool)

lemma marshal_revoked:
  assumes "marshalPebbleEntry \<lparr>pe_Entry = e, pe_CachedAt = t\<rparr> = Inr v" "\<not> Enabled e"
  shows "text_revoked v"
proof -
  from assms(1) obtain ts where ts: "MarshalTime t = Some ts"
    "v = json_text (JObj [(''entry'', entry_json e), (''cachedAt'', JStr ts)])"
    by (auto simp: marshalPebbleEntry_def split: option.splits)
  have wf: "wf_json (Suc 1) (JObj [(''entry'', entry_json e), (''cachedAt'', JStr ts)])"
    using wf_entry_json MarshalTime_rawOk[OF ts(1)] by (simp add: plainName_rawOk)
  have "json_scan v = Some (JObj [(''entry'', entry_json e), (''cachedAt'', JStr ts)])"
    unfolding ts(2) by (rule json_scan_text, rule wf_json_mono[OF wf]) (simp add: maxNestingDepth_def)
  moreover obtain e' where "decodeEntry (entry_json e) zero_AuthEntry = (e', False)" "Enabled e' = Enabled e"
    using decodeEntry_enabled by blast
  ultimately show ?thesis
    using assms(2) UnmarshalTime_MarshalTime[OF ts(1)]
    by (simp add: text_revoked_def json_Unmarshal_def json_finish_def decodePebbleEntry_def struct_decode_simps
        decodeTime_def zero_pebbleEntry_def)
qed

lemma readL1_revoked:
  assumes "pebble_spec (se_pebble env) contents" "L1_revoked contents k s" "readL1 env s k = Some e"
  shows "\<not> Enabled e"
  using assms(3)
proof (cases rule: readL1_hit)
  case (1 db v pe)
  with pebble_specD(1)[OF assms(1) 1(2)] assms(2) show ?thesis unfolding L1_revoked_def text_revoked_def by blast
qed

lemma L1_revoked_Set:
  assumes "pebble_spec api contents" "pebbleDB s = Some db" "pebbleDB t = Some (fst (pb_Set api db k' v))"
    and "L1_revoked contents k s" "k' = k \<longrightarrow> text_revoked v"
  shows "L1_revoked contents k t"
proof -
  obtain d err where "pb_Set api db k' v = (d, err)" by fastforce
  with pebble_specD(3)[OF assms(1) this] assms(2-5) show ?thesis by (auto simp: L1_revoked_def split: if_splits)
qed

lemma L1_revoked_Delete:
  assumes "pebble_spec api contents" "pebbleDB s = Some db" "pebbleDB t = Some (fst (pb_Delete api db k'))"
    and "L1_revoked contents k s"
  shows "L1_revoked contents k t"
proof -
  obtain d err where "pb_Delete api db k' = (d, err)" by fastforce
  with pebble_specD(4)[OF assms(1) this] assms(2-4) show ?thesis by (auto simp: L1_revoked_def split: if_splits)
qed

lemma Invalidate_revoked:
  assumes "pebble_spec (se_pebble env) contents" "store_Invalidate env s k' = (t, err)" "L1_revoked contents k s"
  shows "L1_revoked contents k t"
proof (cases "pebbleDB s = None \<or> k' = ''''")
  case True
  with assms(2,3) show ?thesis by (auto simp: store_Invalidate_def L1_revoked_def Let_def split: option.splits)
next
  case False
  then obtain db where db: "pebbleDB s = Some db" by (cases "pebbleDB s") auto
  with False assms(2) have "pebbleDB t = Some (fst (pb_Delete (se_pebble env) db k'))"
    by (auto simp: store_Invalidate_def Let_def split: prod.splits)
  with assms(1,3) db show ?thesis by (blast intro: L1_revoked_Delete)
qed

lemma Invalidate_revokes:
  assumes "pebble_spec (se_pebble env) contents" "store_Invalidate env s k = (t, None)" "k \<noteq> ''''"
  shows "L1_revoked contents k t"
proof (cases "pebbleDB s")
  case None
  with assms(2) show ?thesis by (auto simp: store_Invalidate_def L1_revoked_def Let_def)
next
  case (Some db)
  obtain d err where del: "pb_Delete (se_pebble env) db k = (d, err)" by fastforce
  with Some assms(2,3) have "err = None" "pebbleDB t = Some d" by (auto simp: store_Invalidate_def Let_def)
  with pebble_specD(4)[OF assms(1) del] show ?thesis by (simp add: L1_revoked_def)
qed

text \<open>A lookup keeps L1 without an enabled entry, and does not answer with one.\<close>

lemma Get_revoked:
  assumes "pebble_spec (se_pebble env) contents" "L1_revoked contents k s" "store_Get env s k' = (t, r)"
    and below: "\<And>e. snd (store_Get env (s\<lparr>pebbleDB := None\<rparr>) k) = Inr (Some e) \<Longrightarrow> \<not> Enabled e"
  shows "L1_revoked contents k t" "k' = k \<Longrightarrow> r = Inr (Some e) \<Longrightarrow> \<not> Enabled e"
proof -
  have fetched: "\<not> Enabled e" if "k' = k" "readL1 env s k = None" "r = Inr (Some e)" for e
    using store_Get_below_L1[of env s k "s\<lparr>pebbleDB := None\<rparr>"] below[of e] assms(3) that by (simp add: readL1_def)
  show "\<not> Enabled e" if "k' = k" "r = Inr (Some e)"
  proof (cases "readL1 env s k")
    case None
    with fetched that show ?thesis by blast
  next
    case (Some e')
    with assms(3) that have "e' = e" by (auto simp: store_Get_def split: if_splits)
    with readL1_revoked[OF assms(1,2)] Some show ?thesis by blast
  qed
  show "L1_revoked contents k t"
  proof (cases "\<exists>e db v. readL1 env s k' = None \<and> r = Inr (Some e) \<and> pebbleDB s = Some db \<and>
      marshalPebbleEntry \<lparr>pe_Entry = e, pe_CachedAt = se_writeNow env\<rparr> = Inr v")
    case True
    then obtain e db v where w: "readL1 env s k' = None" "r = Inr (Some e)" "pebbleDB s = Some db"
      "marshalPebbleEntry \<lparr>pe_Entry = e, pe_CachedAt = se_writeNow env\<rparr> = Inr v" by blast
    then have "pebbleDB t = Some (fst (pb_Set (se_pebble env) db k' v))"
      using store_Get_db[OF assms(3)] by (simp add: writeL1_def)
    moreover have "k' = k \<longrightarrow> text_revoked v"
      using marshal_revoked[OF w(4)] fetched w(1,2) by blast
    ultimately show ?thesis using L1_revoked_Set[OF assms(1) w(3)] assms(2) by blast
  next
    case False
    then have "pebbleDB t = pebbleDB s"
      using store_Get_db[OF assms(3)] by (auto simp: writeL1_def split: option.splits sum.splits)
    with assms(2) show ?thesis by (simp add: L1_revoked_def)
  qed
qed

subsection \<open>Over a run of the process\<close>

lemma Authenticate_store:
  assumes "Authenticate get bcrypt sf username password clientID certSerial rt = Inr (rt1, res)" "rt_Store rt = Some s"
  shows "rt_Store rt1 = Some s \<or> (\<exists>k t r. get s k = (t, r) \<and> rt_Store rt1 = Some t)"
  using assms by (auto simp: Authenticate_def rememberSession_def Let_def split: option.splits sum.splits prod.splits if_splits)

lemma Publish_store:
  "PublishConnect orgID assetUUID clientID sourceIP ts rt = Inr (rt', acc) \<Longrightarrow> rt_Store rt' = rt_Store rt"
  "PublishDisconnect orgID assetUUID clientID sourceIP code ts rt = Inr (rt', acc) \<Longrightarrow> rt_Store rt' = rt_Store rt"
  "PublishIngress orgID assetUUID clientID topic payload qos retain ts rt = Inr (rt', acc) \<Longrightarrow> rt_Store rt' = rt_Store rt"
  by (auto simp: PublishConnect_def PublishDisconnect_def PublishIngress_def count_dropped_def queue_defs
      split: sum.splits if_splits)

text \<open>What an event can do to the store: a lookup, an invalidation, or nothing.\<close>

lemma goOnBasicAuth_store:
  assumes "runtime p = Some rt" "rt_Store rt = Some s"
    and "goOnBasicAuth env (Some ed) p = Inr (p', rc)" "runtime p' = Some rt'"
  shows "rt_Store rt' = Some s \<or>
    (\<exists>k t r. store_Get (ce_store env (contextWithTimeout (AuthTimeout (rt_Config rt)))) s k = (t, r) \<and> rt_Store rt' = Some t)"
proof -
  from assms(1,3,4) obtain rt1 res where a: "Authenticate (store_Get (ce_store env (contextWithTimeout (AuthTimeout (rt_Config rt)))))
      (ce_bcrypt env) (ce_sf env) (auth_username ed) (GoString (ae_password ed)) (GoString (ae_clientID ed))
      (getClientCertSerial ed) rt = Inr (rt1, res)" "rt_Store rt' = rt_Store rt1"
    by (auto simp: goOnBasicAuth_def Let_def dest: Publish_store split: sum.splits prod.splits AuthResult.splits option.splits)
  with Authenticate_store[OF a(1) assms(2)] show ?thesis by simp
qed

lemma process_step_store:
  assumes "runtime p = Some rt" "rt_Store rt = Some s" "process_step env ev p = Inr (p', rc)" "runtime p' = Some rt'"
  obtains (same) "rt_Store rt' = Some s"
  | (lookup) k t r where
      "store_Get (ce_store env (contextWithTimeout (AuthTimeout (rt_Config rt)))) s k = (t, r)" "rt_Store rt' = Some t"
  | (invalidate) k t err where "store_Invalidate (ce_store env None) s k = (t, err)" "rt_Store rt' = Some t"
proof (cases ev)
  case (EvBasicAuth ed)
  with goOnBasicAuth_store[OF assms(1,2), of env ed p' rc rt'] assms(3,4) same lookup show thesis by auto
next
  case (EvFanout data)
  have h: "t = s \<or> (\<exists>k err. store_Invalidate (ce_store env None) s k = (t, err))"
    if "fanout_handle (store_Invalidate (ce_store env None)) data (fc, s) = (fc', t)" for fc fc' t
    using that by (fastforce simp: fanout_handle_def split: sum.splits if_splits prod.splits option.splits)
  have "rt_Store rt' = Some s \<or>
      (\<exists>fc fc' t. fanout_handle (store_Invalidate (ce_store env None)) data (fc, s) = (fc', t) \<and> rt_Store rt' = Some t)"
    using assms EvFanout by (auto simp: onFanout_def split: option.splits if_splits prod.splits) blast
  with h same invalidate show thesis by blast
next
  case (EvDisconnect ed)
  with assms have "rt_Store rt' = rt_Store rt"
    by (auto simp: goOnDisconnect_def ForgetSession_def Let_def dest!: Publish_store(2) split: option.splits sum.splits)
  with assms(2) same show thesis by simp
next
  case (EvMessage ed)
  with assms have "rt_Store rt' = rt_Store rt"
    by (auto simp: goOnMessage_def Let_def dest!: Publish_store(3) split: option.splits sum.splits)
  with assms(2) same show thesis by simp
qed (use assms same in \<open>auto simp: onTake_def onPublish_def split: option.splits\<close>)

text \<open>The outside world during one event: Pebble keeps its contract, and no lookup of the asset finds
  an enabled entry below L1.\<close>

definition revoked_world :: "('db \<Rightarrow> string \<rightharpoonup> bytes) \<Rightarrow> string \<Rightarrow> 'db TieredAuthStore \<Rightarrow> 'db call_env \<Rightarrow> bool" where
  "revoked_world contents k s env \<longleftrightarrow>
     (\<forall>ctx. pebble_spec (se_pebble (ce_store env ctx)) contents \<and>
        (\<forall>e. snd (store_Get (ce_store env ctx) (s\<lparr>pebbleDB := None\<rparr>) k) = Inr (Some e) \<longrightarrow> \<not> Enabled e))"

lemma revoked_worldD:
  assumes "revoked_world contents k s env" "same_backend s t"
  shows "pebble_spec (se_pebble (ce_store env ctx)) contents"
    "snd (store_Get (ce_store env ctx) (t\<lparr>pebbleDB := None\<rparr>) k) = Inr (Some e) \<Longrightarrow> \<not> Enabled e"
  using assms Get_below_backend[OF assms(2)] by (auto simp: revoked_world_def)

definition process_revoked :: "('db \<Rightarrow> string \<rightharpoonup> bytes) \<Rightarrow> string \<Rightarrow> 'db TieredAuthStore \<Rightarrow> 'db plugin_process \<Rightarrow> bool" where
  "process_revoked contents k s p \<longleftrightarrow>
     process_ok p \<and> (\<exists>rt t. runtime p = Some rt \<and> rt_Store rt = Some t \<and> same_backend s t \<and> L1_revoked contents k t)"

lemma process_step_revoked:
  assumes "process_revoked contents k s p" "revoked_world contents k s env" "process_step env ev p = Inr (p', rc)"
  shows "process_revoked contents k s p'"
proof -
  from assms(1) obtain rt t where t: "runtime p = Some rt" "rt_Store rt = Some t" "same_backend s t" "L1_revoked contents k t"
    and ok: "process_ok p" by (auto simp: process_revoked_def)
  obtain p1 rc1 where "process_step env ev p = Inr (p1, rc1)" "process_ok p1" "same_setting p p1"
    by (rule process_step_ok[OF ok, of env ev])
  with assms(3) t(1) obtain rt' where rt': "process_ok p'" "runtime p' = Some rt'" by (auto simp: same_setting_def)
  note world = revoked_worldD[OF assms(2) t(3)]
  have "\<exists>u. rt_Store rt' = Some u \<and> same_backend s u \<and> L1_revoked contents k u"
    using t(1,2) assms(3) rt'(2)
  proof (cases rule: process_step_store)
    case same
    with t(3,4) show ?thesis by simp
  next
    case (lookup k' u r)
    have "L1_revoked contents k u" by (rule Get_revoked(1)[OF world(1) t(4) lookup(1)]) (rule world(2))
    with same_backend_trans[OF t(3) store_Get_same[OF lookup(1)]] lookup(2) show ?thesis by simp
  next
    case (invalidate k' u err)
    with Invalidate_revoked[OF world(1) invalidate(1) t(4)] same_backend_trans[OF t(3) store_Invalidate_same[OF invalidate(1)]]
    show ?thesis by simp
  qed
  with rt' show ?thesis by (auto simp: process_revoked_def)
qed

lemma process_run_revoked:
  "process_revoked contents k s p \<Longrightarrow> \<forall>(env, ev) \<in> set evs. revoked_world contents k s env \<Longrightarrow> process_run evs p = Inr q \<Longrightarrow>
   process_revoked contents k s q"
proof (induction evs arbitrary: p)
  case (Cons e evs)
  obtain env ev where e: "e = (env, ev)" by fastforce
  with Cons.prems(3) obtain p1 rc where st: "process_step env ev p = Inr (p1, rc)" "process_run evs p1 = Inr q"
    by (auto split: sum.splits)
  have "process_revoked contents k s p1" using process_step_revoked[OF Cons.prems(1) _ st(1)] Cons.prems(2) e by simp
  from Cons.IH[OF this _ st(2)] Cons.prems(2) show ?case by simp
qed simp

lemma revoked_CONNECT:
  assumes "process_revoked contents k s p" "revoked_world contents k s env" "auth_username ed = k"
  shows "\<exists>p' rc. process_step env (EvBasicAuth ed) p = Inr (p', rc) \<and> (rc = MOSQ_ERR_AUTH \<or> rc = MOSQ_ERR_UNKNOWN)"
proof -
  from assms(1) obtain rt t where t: "runtime p = Some rt" "rt_Store rt = Some t" "same_backend s t" "L1_revoked contents k t"
    and "runtime_ready rt" by (auto simp: process_revoked_def process_ok_def)
  note world = revoked_worldD[OF assms(2) t(3)]
  from t(1) \<open>runtime_ready rt\<close> show ?thesis
  proof (cases rule: goOnBasicAuth_cases[where env = env and ed = ed])
    case (admit info rt')
    then obtain t' e where e: "store_Get (ce_store env (contextWithTimeout (AuthTimeout (rt_Config rt)))) t k = (t', Inr (Some e))"
      "Enabled e" using assms(3) t(2) by (auto simp: admitted_def credential_ok_def)
    have "\<not> Enabled e" by (rule Get_revoked(2)[OF world(1) t(4) e(1) _ refl refl]) (rule world(2))
    with e(2) show ?thesis by simp
  next
    case (refuse rc rt')
    then show ?thesis by simp
  qed
qed

subsection \<open>Over interleavings of the store's actions\<close>

text \<open>A thread that is about to write an entry of the asset to L1 does not hold an enabled one.\<close>

fun pc_revoked :: "string \<Rightarrow> store_pc \<Rightarrow> bool" where
  "pc_revoked k (GCountL2Hit k' e) \<longleftrightarrow> (k' = k \<longrightarrow> \<not> Enabled e)"
| "pc_revoked k (GCountL3Hit k' entry) \<longleftrightarrow> (k' = k \<longrightarrow> (\<forall>e. entry = Some e \<longrightarrow> \<not> Enabled e))"
| "pc_revoked k (GCheckWrite k' entry) \<longleftrightarrow> (k' = k \<longrightarrow> (\<forall>e. entry = Some e \<longrightarrow> \<not> Enabled e))"
| "pc_revoked k (GSet k' entry data) \<longleftrightarrow> (k' = k \<longrightarrow> text_revoked data)"
| "pc_revoked k pc \<longleftrightarrow> True"

text \<open>L2 and L3, as the store reaches them, answer no enabled entry of the asset.\<close>

definition below_revoked :: "string \<Rightarrow> 'db TieredAuthStore \<Rightarrow> 'db store_env \<Rightarrow> bool" where
  "below_revoked k s env \<longleftrightarrow>
     (\<forall>e. readL2 env s k = Inr (Some e) \<longrightarrow> \<not> Enabled e) \<and> (\<forall>e. snd (readL3 env s k) = Inr (Some e) \<longrightarrow> \<not> Enabled e)"

lemma below_revoked_backend: "same_backend s t \<Longrightarrow> below_revoked k s env \<Longrightarrow> below_revoked k t env"
  by (simp add: below_revoked_def readL2_backend readL3_backend)

lemma get_step_revoked:
  assumes "get_step env pc s = Some (Inr (pc', s'))" "pc_revoked k pc" "below_revoked k s env"
  shows "pc_revoked k pc' \<and> same_backend s s'"
proof (cases pc)
  case (GReadL2 k')
  with assms show ?thesis by (auto simp: below_revoked_def split: sum.splits option.splits)
next
  case (GReadL3 k')
  obtain t r where r: "readL3 env s k' = (t, r)" by fastforce
  with readL3_same[OF r] GReadL3 assms show ?thesis by (cases r) (auto simp: below_revoked_def)
next
  case (GCheckWrite k' entry)
  with assms(1,2) show ?thesis
    by (auto dest: marshal_revoked split: option.splits sum.splits)
qed (use assms in \<open>auto simp: same_backend_def split: option.splits sum.splits if_splits\<close>)

lemma pc_step_revoked:
  assumes "pc_step env pc s = Some (Inr (pc', s'))" "pc_revoked k pc" "below_revoked k s env"
  shows "pc_revoked k pc' \<and> same_backend s s'"
  using assms(1)
proof (cases rule: pc_step_cases)
  case 1
  then show ?thesis using assms(2,3) by (rule get_step_revoked)
next
  case 2
  then show ?thesis by (cases pc) (auto simp: same_backend_def split: option.splits prod.splits if_splits)
next
  case 3
  then show ?thesis by (cases pc) (auto simp: same_backend_def split: option.splits if_splits)
qed

lemma pc_step_L1_revoked:
  assumes "pebble_spec (se_pebble env) contents" "pc_step env pc s = Some (Inr (pc', s'))" "pc_revoked k pc"
    and "L1_revoked contents k s"
  shows "L1_revoked contents k s'"
proof (cases "pebbleDB s'")
  case None
  then show ?thesis by (simp add: L1_revoked_def)
next
  case (Some db')
  from assms(2) Some show ?thesis
  proof (cases rule: pc_step_db)
    case 1
    with Some assms(4) show ?thesis by (simp add: L1_revoked_def)
  next
    case (2 k' entry data db)
    with Some assms(3) L1_revoked_Set[OF assms(1) 2(2) _ assms(4)] show ?thesis by auto
  next
    case (3 k' db)
    with Some L1_revoked_Delete[OF assms(1) 3(2) _ assms(4)] show ?thesis by auto
  qed
qed

definition sys_revoked :: "('db \<Rightarrow> string \<rightharpoonup> bytes) \<Rightarrow> string \<Rightarrow> 'db TieredAuthStore \<Rightarrow> 'db store_sys \<Rightarrow> bool" where
  "sys_revoked contents k s y \<longleftrightarrow>
     same_backend s (shared y) \<and> L1_revoked contents k (shared y) \<and> (\<forall>pc \<in> set (threads y). pc_revoked k pc)"

lemma store_do_revoked:
  assumes "store_do a y = Some z" "sys_revoked contents k s y"
    and "\<forall>i env. a = Act i env \<longrightarrow> pebble_spec (se_pebble env) contents \<and> below_revoked k s env"
  shows "sys_revoked contents k s z"
proof (cases a)
  case (Call i op)
  have "pc_revoked k (start_pc op)" by (cases op) simp_all
  with assms(1,2) Call show ?thesis
    by (auto simp: sys_revoked_def dest!: set_update_subset_insert[THEN subsetD] split: if_splits)
next
  case (Act i env)
  from assms(1) Act have i: "i < length (threads y)" by (auto split: if_splits)
  then have pc: "pc_revoked k (threads y ! i)" using assms(2) by (simp add: sys_revoked_def)
  have world: "pebble_spec (se_pebble env) contents" "below_revoked k (shared y) env"
    using assms(2,3) Act below_revoked_backend[of s "shared y"] by (auto simp: sys_revoked_def)
  show ?thesis
  proof (cases "\<exists>e. pc_step env (threads y ! i) (shared y) = Some (Inl e)")
    case True
    with assms(1,2) Act show ?thesis by (auto simp: sys_revoked_def split: if_splits)
  next
    case False
    with assms(1) Act obtain pc' t where st: "pc_step env (threads y ! i) (shared y) = Some (Inr (pc', t))"
      and z: "shared z = t" "threads z = (threads y)[i := pc']"
      by (auto split: if_splits option.splits sum.splits)
    from pc_step_revoked[OF st pc world(2)] pc_step_L1_revoked[OF world(1) st pc] assms(2) z
      set_update_subset_insert[of "threads y" i pc']
    show ?thesis unfolding sys_revoked_def by (auto intro: same_backend_trans)
  qed
qed

lemma store_exec_revoked:
  assumes "store_exec as y = Some z" "sys_revoked contents k s y"
    and "\<forall>i env. Act i env \<in> set as \<longrightarrow> pebble_spec (se_pebble env) contents \<and> below_revoked k s env"
  shows "sys_revoked contents k s z"
  by (rule conc.exec_inv[where P = "sys_revoked contents k s", OF _ assms(1,2)])
     (use assms(3) store_do_revoked in blast)

text \<open>The delete of a fanout message leaves no record of the asset in L1.\<close>

lemma onFanout_revokes:
  assumes "process_ok p" "runtime p = Some rt" "rt_Store rt = Some s" "rt_Fanout rt = Some fc"
    and spec: "pebble_spec (se_pebble (ce_store env None)) contents"
    and msg: "validUTF8 k" "k \<noteq> ''''" "\<forall>(n, v) \<in> set others. plainName n \<and> wf_json 1 v"
      "\<forall>(n, v) \<in> set others. \<not> keyFold n ''assetUUID''"
    and del: "snd (store_Invalidate (ce_store env None) s k) = None"
    and step: "process_step env (EvFanout (invalidation_text k others)) p = Inr (p1, rc)"
  shows "process_revoked contents k s p1"
proof -
  obtain t where t: "store_Invalidate (ce_store env None) s k = (t, None)" using del by (metis prod.collapse)
  have "fc_sub fc" using assms(1,2,4) by (auto simp: process_ok_def runtime_ready_def)
  then obtain fc' where "p1 = p\<lparr>runtime := Some (rt\<lparr>rt_Fanout := Some fc', rt_Store := Some t\<rparr>)\<rparr>"
    using assms(2,3,4) step fanout_handle_valid[OF decode_invalidation[OF msg(1,3,4)] msg(2), of "store_Invalidate (ce_store env None)" fc s] t
    by (auto simp: onFanout_def)
  moreover have "process_ok p1" using process_step_ok[OF assms(1)] step by (metis old.sum.inject(2) prod.inject)
  ultimately show ?thesis
    using Invalidate_revokes[OF spec t msg(2)] store_Invalidate_same[OF t] by (simp add: process_revoked_def)
qed

text \<open>A world in which the example asset is gone.\<close>

definition revoked_env :: "mem_db store_env" where
  "revoked_env = (demo_env 1)\<lparr>se_minio := (\<lambda>_ _. StatError ''NoSuchKey'' ''gone'')\<rparr>"

lemma revoked_env_world: "revoked_world mem_map ''a1'' demo_store (demo_call revoked_env)"
proof -
  have env: "ce_store (demo_call revoked_env) c = revoked_env" for c by (simp add: demo_call_def)
  have "pebble_spec (se_pebble revoked_env) mem_map" using demo_spec by (simp add: revoked_env_def demo_pebble)
  moreover have "snd (store_Get revoked_env (demo_store\<lparr>pebbleDB := None\<rparr>) ''a1'') \<noteq> Inr (Some e)" for e
    by (simp add: store_Get_def getFromL3_def readL1_def readL2_def readL3_def LookupEntry_def revoked_env_def
        demo_env_def demo_store_defs demo_client_def Let_def)
  ultimately show ?thesis by (simp add: revoked_world_def env)
qed

section \<open>Properties\<close>

text \<open>C9: A revocation takes effect and stays in effect. Once the fanout message for an asset has
  been handled and Pebble has done the delete, any run of events may follow: as long as the layers
  below L1 answer no lookup with an enabled entry of the asset, a CONNECT of the asset is refused and
  the run does not panic, whatever L1 held before. The events are whole callbacks and whole fanout
  deliveries, so every lookup counts as later than the delete, and the condition on its answer covers
  the lookup that was under way: one that fetched an enabled entry before the delete and writes it
  back after it does undo the revocation (\<open>invalidation_lost\<close>). \<open>revocation_concurrent\<close> says the
  same of the atomic actions.\<close>

theorem revocation_takes_effect:
  assumes "process_ok p" "runtime p = Some rt" "rt_Store rt = Some s" "rt_Fanout rt = Some fc"
    and "pebble_spec (se_pebble (ce_store env1 None)) contents"
    and msg: "validUTF8 k" "k \<noteq> ''''" "\<forall>(n, v) \<in> set others. plainName n \<and> wf_json 1 v"
      "\<forall>(n, v) \<in> set others. \<not> keyFold n ''assetUUID''"
    and "snd (store_Invalidate (ce_store env1 None) s k) = None"
    and "process_step env1 (EvFanout (invalidation_text k others)) p = Inr (p1, rc1)"
    and world: "\<forall>(env, ev) \<in> set evs. revoked_world contents k s env" "revoked_world contents k s env2"
    and "auth_username ed = k"
  shows "\<exists>p2 p3 rc. process_run evs p1 = Inr p2 \<and> process_step env2 (EvBasicAuth ed) p2 = Inr (p3, rc) \<and>
    (rc = MOSQ_ERR_AUTH \<or> rc = MOSQ_ERR_UNKNOWN)"
proof -
  have p1: "process_revoked contents k s p1" by (rule onFanout_revokes) (fact assms)+
  then obtain p2 where p2: "process_run evs p1 = Inr p2"
    using process_run_ok[of p1 evs] by (auto simp: process_revoked_def)
  from revoked_CONNECT[OF process_run_revoked[OF p1 world(1) p2] world(2) assms(14)] p2 show ?thesis by blast
qed

theorem revocation_takes_effect_witness:
  "\<exists>p1 p2 p3 rc. process_step (demo_call (demo_env 0)) (EvFanout (invalidation_text ''a1'' []))
        (demo_process\<lparr>runtime := Some (demo_rt\<lparr>rt_Fanout := Some \<lparr>fc_subject = ''f'', fc_sub = True, fc_closed = False,
           fc_processed = 0, fc_dropped = 0\<rparr>\<rparr>)\<rparr>) = Inr (p1, MOSQ_ERR_SUCCESS) \<and>
     process_run [(demo_call revoked_env, EvBasicAuth demo_password_event), (demo_call revoked_env, EvTake)] p1 = Inr p2 \<and>
     process_step (demo_call revoked_env) (EvBasicAuth demo_password_event) p2 = Inr (p3, rc) \<and> rc \<noteq> MOSQ_ERR_SUCCESS"
proof -
  let ?fc = "\<lparr>fc_subject = ''f'', fc_sub = True, fc_closed = False, fc_processed = 0, fc_dropped = 0\<rparr>"
  let ?rt = "demo_rt\<lparr>rt_Fanout := Some ?fc\<rparr>"
  let ?p = "demo_process\<lparr>runtime := Some ?rt\<rparr>"
  let ?evs = "[(demo_call revoked_env, EvBasicAuth demo_password_event), (demo_call revoked_env, EvTake)]"
  have ok: "process_ok ?p" "runtime ?p = Some ?rt" "rt_Store ?rt = Some demo_store" "rt_Fanout ?rt = Some ?fc"
    using demo_ready demo_process_ok(2) by (simp_all add: process_ok_def runtime_ready_def demo_rt_def)
  have env: "ce_store (demo_call e) c = e" for e c by (simp add: demo_call_def)
  have spec: "pebble_spec (se_pebble (ce_store (demo_call (demo_env 0)) None)) mem_map" using demo_spec by (simp add: env)
  have inv: "validUTF8 ''a1''" "snd (store_Invalidate (ce_store (demo_call (demo_env 0)) None) demo_store ''a1'') = None"
    by (simp_all add: env demo_pebble validUTF8_ascii byte_def store_Invalidate_def demo_store_def mem_api_def fresh_store_def Let_def)
  obtain p1 where p1: "process_step (demo_call (demo_env 0)) (EvFanout (invalidation_text ''a1'' [])) ?p = Inr (p1, MOSQ_ERR_SUCCESS)"
    by simp
  have world: "\<forall>(env, ev) \<in> set ?evs. revoked_world mem_map ''a1'' demo_store env"
    using revoked_env_world by simp
  have "auth_username demo_password_event = ''a1''"
    by (simp add: auth_username_def demo_password_event_def getClientCertSerial_def)
  from revocation_takes_effect[OF ok spec inv(1) _ _ _ inv(2) p1 world revoked_env_world this] p1 show ?thesis by fastforce
qed

text \<open>A revocation in the concurrent store. A thread deletes the L1 record of an asset, and Pebble
  reports success; no thread is about to write an enabled entry of the asset, and from then on L2 and
  L3 answer none. Then in every interleaving of lookups, invalidations and closes that follows, no
  lookup of the asset takes an enabled entry from L1. The condition on the threads is needed:
  without it an invalidation can be lost.\<close>

theorem revocation_concurrent:
  assumes "i < length (threads y)" "threads y ! i = IDelete k" "pebble_spec (se_pebble env0) contents"
    and "store_do (Act i env0) y = Some z" "threads z ! i = IReturn None"
    and "\<forall>pc \<in> set (threads y). pc_revoked k pc"
    and "\<forall>j env. Act j env \<in> set as \<longrightarrow> pebble_spec (se_pebble env) contents \<and> below_revoked k (shared y) env"
    and "store_exec as z = Some w" "pebble_spec (se_pebble env) contents"
    and "pc_step env (GGetL1 k) (shared w) = Some (Inr (GHit e, t))"
  shows "\<not> Enabled e"
proof -
  have "failed y = None" using assms(4) by (auto split: if_splits)
  with assms(1,2,4,5) obtain db d where db: "pebbleDB (shared y) = Some db" "pb_Delete (se_pebble env0) db k = (d, None)"
    and z: "shared z = (shared y)\<lparr>pebbleDB := Some d\<rparr>" "threads z = (threads y)[i := IReturn None]"
    by (auto simp: pc_step_def split: option.splits prod.splits if_splits)
  from pebble_specD(4)[OF assms(3) db(2)] z(1) have "L1_revoked contents k (shared z)"
    by (simp add: L1_revoked_def)
  moreover have "same_backend (shared y) (shared z)" by (simp add: z same_backend_def)
  moreover have "\<forall>pc \<in> set (threads z). pc_revoked k pc"
    using assms(6) set_update_subset_insert[of "threads y" i "IReturn None"] by (auto simp: z(2))
  ultimately have "sys_revoked contents k (shared y) z" by (simp add: sys_revoked_def)
  from store_exec_revoked[OF assms(8) this assms(7)] have L1: "L1_revoked contents k (shared w)"
    by (simp add: sys_revoked_def)
  from assms(10) have "readL1 env (shared w) k = Some e"
    by (auto simp: pc_step_def readL1_def split: option.splits sum.splits if_splits)
  with readL1_revoked[OF assms(9) L1] show ?thesis .
qed

end
