(* ===== verification/BrokerSpec.thy ===== *)
theory BrokerSpec
  imports BrokerRuns "HOL-Library.Multiset"
begin

text \<open>
  An abstract broker: who is in session, which jobs wait for the event bus, which are in the hands
  of a worker and which have been handed over. It knows no store, no cache, no counters and no
  failures of its own; each event of a client is described by what it means. The theory shows that
  the process of \<open>process_step\<close> implements this machine, and what follows for the event bus: jobs
  are taken off the queue in the order in which they were accepted, each is handed over once
  (workers may overtake each other between taking and handing over), and each stems from an event
  of an admitted client.
\<close>

section \<open>Definitions\<close>

subsection \<open>The abstract broker\<close>

record broker_spec =
  sp_sessions :: "string \<rightharpoonup> SessionInfo"
  sp_waiting :: "publishJob list"
  sp_taken :: "publishJob list"
  sp_handed :: "publishJob list"

text \<open>What an event means: a client is let in with a session, leaves, or sends a message; a worker
  takes the next job; one of the jobs in the workers' hands goes to the bus; nothing.\<close>

datatype client_event =
    CAdmit string SessionInfo string time
  | CLeave string string int time
  | CSend string string bytes int bool time
  | CTake
  | CHand nat
  | CIdle

definition job_of :: "string \<Rightarrow> bytes result \<Rightarrow> publishJob option" where
  "job_of subject data =
     (case data of Inl _ \<Rightarrow> None | Inr d \<Rightarrow> Some \<lparr>job_subject = subject, job_data = d\<rparr>)"

definition connect_job :: "Config \<Rightarrow> SessionInfo \<Rightarrow> string \<Rightarrow> string \<Rightarrow> time \<Rightarrow> publishJob option" where
  "connect_job cfg info clientID sourceIP ts =
     job_of (SubjectPresence cfg)
       (marshalPresence
          \<lparr>pa_Event = EventConnect, pa_OrgID = si_OrgID info, pa_AssetUUID = si_AssetUUID info, pa_ClientID = clientID,
           pa_SourceIP = sourceIP, pa_Timestamp = ts, pa_ReasonCode = 0, pa_ReasonText = ''''\<rparr>)"

definition disconnect_job :: "Config \<Rightarrow> SessionInfo \<Rightarrow> string \<Rightarrow> string \<Rightarrow> int \<Rightarrow> time \<Rightarrow> publishJob option" where
  "disconnect_job cfg info clientID sourceIP reason ts =
     job_of (SubjectPresence cfg)
       (marshalPresence
          \<lparr>pa_Event = EventDisconnect, pa_OrgID = si_OrgID info, pa_AssetUUID = si_AssetUUID info, pa_ClientID = clientID,
           pa_SourceIP = sourceIP, pa_Timestamp = ts, pa_ReasonCode = reason, pa_ReasonText = MapDisconnectReason reason\<rparr>)"

definition ingress_job ::
    "Config \<Rightarrow> SessionInfo \<Rightarrow> string \<Rightarrow> string \<Rightarrow> bytes \<Rightarrow> int \<Rightarrow> bool \<Rightarrow> time \<Rightarrow> publishJob option" where
  "ingress_job cfg info clientID topic payload qos retain ts =
     (if validSubjectToken (si_OrgID info) \<and> validSubjectToken (si_AssetUUID info) \<and>
         length payload \<le> MaxIngressPayloadBytes
      then job_of (ingressSubject cfg (si_OrgID info) (si_AssetUUID info))
             (marshalIngress
                \<lparr>im_OrgID = si_OrgID info, im_AssetUUID = si_AssetUUID info, im_ClientID = clientID, im_Topic = topic,
                 im_Payload = Some payload, im_QoS = qos, im_Retain = retain, im_Timestamp = ts\<rparr>)
      else None)"

fun spec_job :: "Config \<Rightarrow> client_event \<Rightarrow> (string \<rightharpoonup> SessionInfo) \<Rightarrow> publishJob option" where
  "spec_job cfg (CAdmit c info ip ts) f = (if c = '''' then None else connect_job cfg info c ip ts)"
| "spec_job cfg (CLeave c ip reason ts) f =
     (case f c of None \<Rightarrow> None | Some info \<Rightarrow> disconnect_job cfg info c ip reason ts)"
| "spec_job cfg (CSend c topic payload qos retain ts) f =
     (case f c of None \<Rightarrow> None | Some info \<Rightarrow> ingress_job cfg info c topic payload qos retain ts)"
| "spec_job cfg CTake f = None"
| "spec_job cfg (CHand i) f = None"
| "spec_job cfg CIdle f = None"

fun spec_sessions :: "client_event \<Rightarrow> (string \<rightharpoonup> SessionInfo) \<Rightarrow> (string \<rightharpoonup> SessionInfo)" where
  "spec_sessions (CAdmit c info ip ts) f = (if c = '''' then f else f(c \<mapsto> info))"
| "spec_sessions (CLeave c ip reason ts) f = f(c := None)"
| "spec_sessions _ f = f"

text \<open>A job is taken while there is room.\<close>

definition accepted :: "nat \<Rightarrow> publishJob option \<Rightarrow> publishJob list \<Rightarrow> publishJob list" where
  "accepted cap j waiting =
     (case j of None \<Rightarrow> [] | Some job \<Rightarrow> if length waiting < cap then [job] else [])"

text \<open>One step, with a queue of capacity \<open>cap\<close> and \<open>n\<close> workers that hold one job each.\<close>

fun spec_step :: "Config \<Rightarrow> nat \<Rightarrow> nat \<Rightarrow> client_event \<Rightarrow> broker_spec \<Rightarrow> broker_spec" where
  "spec_step cfg cap n CTake sp =
     (if length (sp_taken sp) < n
      then sp\<lparr>sp_waiting := drop 1 (sp_waiting sp), sp_taken := sp_taken sp @ take 1 (sp_waiting sp)\<rparr>
      else sp)"
| "spec_step cfg cap n (CHand i) sp =
     sp\<lparr>sp_taken := drop_nth i (sp_taken sp), sp_handed := sp_handed sp @ take 1 (drop i (sp_taken sp))\<rparr>"
| "spec_step cfg cap n ev sp =
     sp\<lparr>sp_sessions := spec_sessions ev (sp_sessions sp),
        sp_waiting := sp_waiting sp @ accepted cap (spec_job cfg ev (sp_sessions sp)) (sp_waiting sp)\<rparr>"

definition spec_run :: "Config \<Rightarrow> nat \<Rightarrow> nat \<Rightarrow> client_event list \<Rightarrow> broker_spec \<Rightarrow> broker_spec" where
  "spec_run cfg cap n = fold (spec_step cfg cap n)"

subsection \<open>What the process does, in these terms\<close>

text \<open>The session that the answer of the store gives to a CONNECT, if any.\<close>

definition session_for :: "'db call_env \<Rightarrow> auth_event \<Rightarrow> 'db TieredAuthStore PluginRuntime \<Rightarrow> SessionInfo option" where
  "session_for env ed rt =
     (case (parseUsername (auth_username ed), rt_Store rt) of
        (Some k, Some s) \<Rightarrow>
          (case snd (store_Get (ce_store env (contextWithTimeout (AuthTimeout (rt_Config rt)))) s k) of
             Inr (Some e) \<Rightarrow>
               if credential_ok (ce_bcrypt env) (ce_sf env) (rt_Auth rt) (GoString (ae_password ed))
                    (getClientCertSerial ed) e
               then Some \<lparr>si_OrgID = OrgId e, si_AssetUUID = k\<rparr> else None
           | _ \<Rightarrow> None)
      | _ \<Rightarrow> None)"

fun meaning :: "'db call_env \<Rightarrow> broker_event \<Rightarrow> 'db TieredAuthStore PluginRuntime \<Rightarrow> client_event" where
  "meaning env (EvBasicAuth ed) rt =
     (case session_for env ed rt of
        None \<Rightarrow> CIdle
      | Some info \<Rightarrow> CAdmit (GoString (ae_clientID ed)) info (GoString (ae_address ed)) (ce_now env))"
| "meaning env (EvAclCheck ed) rt = CIdle"
| "meaning env (EvDisconnect ed) rt =
     CLeave (GoString (de_clientID ed)) (GoString (de_address ed)) (de_reason ed) (ce_now env)"
| "meaning env (EvMessage ed) rt =
     CSend (GoString (me_clientID ed)) (GoString (me_topic ed)) (me_payload ed) (me_qos ed) (me_retain ed) (ce_now env)"
| "meaning env (EvFanout data) rt = CIdle"
| "meaning env EvTake rt = CTake"
| "meaning env (EvPublish i out) rt = CHand i"

definition spec_of :: "publishJob list \<Rightarrow> 's PluginRuntime \<Rightarrow> broker_spec" where
  "spec_of handed rt = \<lparr>sp_sessions = sessions rt, sp_waiting = queue (rt_Async rt), sp_taken = in_work (rt_Async rt),
     sp_handed = handed\<rparr>"

text \<open>The jobs that one event takes off the queue, and those that it hands to the bus.\<close>

definition takes :: "broker_event \<Rightarrow> 's PluginRuntime \<Rightarrow> publishJob list" where
  "takes ev rt =
     (case ev of
        EvTake \<Rightarrow> if length (in_work (rt_Async rt)) < wg (rt_Async rt) then take 1 (queue (rt_Async rt)) else []
      | _ \<Rightarrow> [])"

definition hands :: "broker_event \<Rightarrow> 's PluginRuntime \<Rightarrow> publishJob list" where
  "hands ev rt = (case ev of EvPublish i _ \<Rightarrow> take 1 (drop i (in_work (rt_Async rt))) | _ \<Rightarrow> [])"

text \<open>Over a run: what its events mean, the jobs that workers take off the queue, those that they hand to
  NATS, and the jobs that enter the queue.\<close>

fun meanings :: "('db call_env \<times> broker_event) list \<Rightarrow> 'db plugin_process \<Rightarrow> client_event list" where
  "meanings [] p = []"
| "meanings ((env, ev) # evs) p =
     (case (runtime p, process_step env ev p) of
        (Some rt, Inr (p', _)) \<Rightarrow> meaning env ev rt # meanings evs p'
      | _ \<Rightarrow> [])"

fun takes_run :: "('db call_env \<times> broker_event) list \<Rightarrow> 'db plugin_process \<Rightarrow> publishJob list" where
  "takes_run [] p = []"
| "takes_run ((env, ev) # evs) p =
     (case (runtime p, process_step env ev p) of
        (Some rt, Inr (p', _)) \<Rightarrow> takes ev rt @ takes_run evs p'
      | _ \<Rightarrow> [])"

fun bus_run :: "('db call_env \<times> broker_event) list \<Rightarrow> 'db plugin_process \<Rightarrow> publishJob list" where
  "bus_run [] p = []"
| "bus_run ((env, ev) # evs) p =
     (case (runtime p, process_step env ev p) of
        (Some rt, Inr (p', _)) \<Rightarrow>
          hands ev rt @ bus_run evs p'
      | _ \<Rightarrow> [])"

definition event_job ::
    "'db call_env \<Rightarrow> broker_event \<Rightarrow> 'db TieredAuthStore PluginRuntime \<Rightarrow> publishJob option" where
  "event_job env ev rt = spec_job (rt_Config rt) (meaning env ev rt) (sessions rt)"

fun accepted_run :: "('db call_env \<times> broker_event) list \<Rightarrow> 'db plugin_process \<Rightarrow> publishJob list" where
  "accepted_run [] p = []"
| "accepted_run ((env, ev) # evs) p =
     (case (runtime p, process_step env ev p) of
        (Some rt, Inr (p', _)) \<Rightarrow>
          accepted (queue_cap (rt_Async rt)) (event_job env ev rt) (queue (rt_Async rt)) @ accepted_run evs p'
      | _ \<Rightarrow> [])"

section \<open>Lemmas\<close>

lemma admitted_iff: "admitted env ed rt info \<longleftrightarrow> session_for env ed rt = Some info"
proof (cases "rt_Store rt")
  case (Some s)
  obtain s' res where g: "store_Get (ce_store env (contextWithTimeout (AuthTimeout (rt_Config rt)))) s (auth_username ed) = (s', res)"
    by fastforce
  show ?thesis
  proof (cases "parseUsername (auth_username ed)")
    case (Some k)
    then have "k = auth_username ed" by (simp add: parseUsername_Some_iff)
    with Some g \<open>rt_Store rt = Some s\<close> show ?thesis
      by (auto simp: admitted_def session_for_def split: sum.split option.split)
  qed (simp add: admitted_def session_for_def)
qed (simp add: admitted_def session_for_def split: option.split)

text \<open>The queue of a runtime takes a job, if there is one and there is room.\<close>

definition takes_job :: "publishJob option \<Rightarrow> 's PluginRuntime \<Rightarrow> 's PluginRuntime \<Rightarrow> bool" where
  "takes_job j rt rt' \<longleftrightarrow>
     queue (rt_Async rt') = queue (rt_Async rt) @ accepted (queue_cap (rt_Async rt)) j (queue (rt_Async rt)) \<and>
     queue_cap (rt_Async rt') = queue_cap (rt_Async rt) \<and> wg (rt_Async rt') = wg (rt_Async rt) \<and>
     in_work (rt_Async rt') = in_work (rt_Async rt)"

lemma takes_no_job [simp]: "takes_job None rt rt' \<longleftrightarrow>
    queue (rt_Async rt') = queue (rt_Async rt) \<and> queue_cap (rt_Async rt') = queue_cap (rt_Async rt) \<and>
    wg (rt_Async rt') = wg (rt_Async rt) \<and> in_work (rt_Async rt') = in_work (rt_Async rt)"
  by (simp add: takes_job_def accepted_def)

lemma publish_takes:
  assumes "publish subject data rt = Inr (rt', acc)" "publisher_ok (rt_Async rt)" "started (rt_Async rt)" "\<not> closed (rt_Async rt)"
  shows "takes_job (job_of subject data) rt rt'"
  using assms by (auto simp: takes_job_def queue_defs accepted_def job_of_def publisher_ok_def split: sum.splits if_splits)

lemma Publish_takes:
  assumes "publisher_ok (rt_Async rt)" "started (rt_Async rt)" "\<not> closed (rt_Async rt)"
  shows "PublishConnect (si_OrgID info) (si_AssetUUID info) c ip ts rt = Inr (rt', acc) \<Longrightarrow>
      takes_job (connect_job (rt_Config rt) info c ip ts) rt rt'"
    and "PublishDisconnect (si_OrgID info) (si_AssetUUID info) c ip reason ts rt = Inr (rt', acc) \<Longrightarrow>
      takes_job (disconnect_job (rt_Config rt) info c ip reason ts) rt rt'"
    and "PublishIngress (si_OrgID info) (si_AssetUUID info) c topic (Some payload) qos retain ts rt = Inr (rt', acc) \<Longrightarrow>
      takes_job (ingress_job (rt_Config rt) info c topic payload qos retain ts) rt rt'"
  using publish_takes[OF _ assms]
  by (auto simp: PublishConnect_def connect_job_def PublishDisconnect_def disconnect_job_def PublishIngress_def
      ingress_job_def count_dropped_def split: if_splits)

lemma takes_job_Forget [simp]: "takes_job j rt (ForgetSession c rt') = takes_job j rt rt'"
  by (simp add: takes_job_def)

lemma ready_pool:
  "runtime_ready rt \<Longrightarrow> publisher_ok (rt_Async rt) \<and> started (rt_Async rt) \<and> \<not> closed (rt_Async rt)"
  by (simp add: runtime_ready_def)

text \<open>One event of a ready process: its sessions and its queue are those of the abstract broker.\<close>

lemma goOnBasicAuth_spec:
  assumes "runtime p = Some rt" "runtime_ready rt" "goOnBasicAuth env (Some ed) p = Inr (p', rc)" "runtime p' = Some rt'"
  shows "sessions rt' = spec_sessions (meaning env (EvBasicAuth ed) rt) (sessions rt) \<and>
    takes_job (event_job env (EvBasicAuth ed) rt) rt rt'"
  using assms(1,2)
proof (cases rule: goOnBasicAuth_cases[where env = env and ed = ed])
  case (admit info rt2)
  from admit(2) assms(3,4) have rt': "rt' = rt2" by simp
  from admit(1) have m: "session_for env ed rt = Some info" by (simp add: admitted_iff)
  from admit(6) obtain rt1 where rt1: "rt_Async rt1 = rt_Async rt" "rt_Config rt1 = rt_Config rt"
    "if GoString (ae_clientID ed) = '''' then rt2 = rt1
     else \<exists>acc. PublishConnect (si_OrgID info) (si_AssetUUID info) (GoString (ae_clientID ed))
            (GoString (ae_address ed)) (ce_now env) rt1 = Inr (rt2, acc)" by blast
  have "takes_job (event_job env (EvBasicAuth ed) rt) rt1 rt2"
    using rt1 m Publish_takes(1)[of rt1 info "GoString (ae_clientID ed)" "GoString (ae_address ed)" "ce_now env" rt2]
      ready_pool[OF assms(2)]
    by (auto simp: event_job_def split: if_splits)
  with m admit(5) rt' rt1(1) show ?thesis by (simp add: takes_job_def)
next
  case (refuse rc2 rt2)
  then have "session_for env ed rt = None" using admitted_iff by (metis not_None_eq)
  with refuse assms(3,4) show ?thesis by (simp add: event_job_def)
qed

lemma goOnDisconnect_spec:
  assumes "runtime p = Some rt" "runtime_ready rt" "sessions rt '''' = None"
    and "goOnDisconnect env (Some ed) p = Inr (p', rc)" "runtime p' = Some rt'"
  shows "takes_job (event_job env (EvDisconnect ed) rt) rt rt'"
proof (cases "LookupSession (GoString (de_clientID ed)) rt")
  case None
  with assms show ?thesis by (auto simp: goOnDisconnect_def event_job_def LookupSession_def Let_def split: if_splits)
next
  case (Some info)
  with assms(1,4,5) obtain rt1 acc where pub: "PublishDisconnect (si_OrgID info) (si_AssetUUID info) (GoString (de_clientID ed))
      (GoString (de_address ed)) (de_reason ed) (ce_now env) rt = Inr (rt1, acc)"
    "rt' = ForgetSession (GoString (de_clientID ed)) rt1"
    by (auto simp: goOnDisconnect_def Let_def split: sum.splits)
  from Publish_takes(2)[OF _ _ _ pub(1)] ready_pool[OF assms(2)] Some pub(2) show ?thesis
    by (auto simp: event_job_def LookupSession_def split: if_splits)
qed

lemma goOnMessage_spec:
  assumes "runtime p = Some rt" "runtime_ready rt" "sessions rt '''' = None"
    and "goOnMessage env (Some ed) p = Inr (p', rc)" "runtime p' = Some rt'"
  shows "takes_job (event_job env (EvMessage ed) rt) rt rt'"
proof (cases "LookupSession (GoString (me_clientID ed)) rt")
  case None
  with assms show ?thesis by (auto simp: goOnMessage_def event_job_def LookupSession_def Let_def split: if_splits)
next
  case (Some info)
  with assms(1,4,5) obtain acc where pub: "PublishIngress (si_OrgID info) (si_AssetUUID info) (GoString (me_clientID ed))
      (GoString (me_topic ed)) (Some (me_payload ed)) (me_qos ed) (me_retain ed) (ce_now env) rt = Inr (rt', acc)"
    by (auto simp: goOnMessage_def Let_def split: sum.splits)
  from Publish_takes(3)[OF _ _ _ pub] ready_pool[OF assms(2)] Some show ?thesis
    by (auto simp: event_job_def LookupSession_def split: if_splits)
qed

lemma onFanout_spec:
  assumes "runtime p = Some rt" "runtime (onFanout env data p) = Some rt'"
  shows "rt_Async rt' = rt_Async rt \<and> sessions rt' = sessions rt"
  using assms by (auto simp: onFanout_def split: option.splits if_splits prod.splits)

lemma onTake_spec:
  assumes "runtime p = Some rt" "runtime (onTake p) = Some rt'"
  shows "sessions rt' = sessions rt \<and> queue_cap (rt_Async rt') = queue_cap (rt_Async rt) \<and>
    wg (rt_Async rt') = wg (rt_Async rt) \<and>
    (if length (in_work (rt_Async rt)) < wg (rt_Async rt)
     then queue (rt_Async rt') = drop 1 (queue (rt_Async rt)) \<and>
          in_work (rt_Async rt') = in_work (rt_Async rt) @ take 1 (queue (rt_Async rt))
     else queue (rt_Async rt') = queue (rt_Async rt) \<and> in_work (rt_Async rt') = in_work (rt_Async rt))"
  using assms by (cases "queue (rt_Async rt)") (auto simp: onTake_def receive_def split: if_splits)

lemma drop_nth_beyond: "\<not> i < length xs \<Longrightarrow> drop_nth i xs = xs"
  by (simp add: drop_nth_def)

lemma mset_drop_nth: "mset (take 1 (drop i xs)) + mset (drop_nth i xs) = mset xs"
proof -
  have "mset xs = mset (take i xs @ take 1 (drop i xs) @ drop 1 (drop i xs))" by (simp only: append_take_drop_id)
  then show ?thesis by (simp add: drop_nth_def)
qed

lemma onPublish_spec:
  assumes "runtime p = Some rt" "runtime (onPublish i out p) = Some rt'"
  shows "sessions rt' = sessions rt \<and> queue (rt_Async rt') = queue (rt_Async rt) \<and>
    queue_cap (rt_Async rt') = queue_cap (rt_Async rt) \<and> wg (rt_Async rt') = wg (rt_Async rt) \<and>
    in_work (rt_Async rt') = drop_nth i (in_work (rt_Async rt))"
  using assms by (auto simp: onPublish_def publishHeld_def drop_nth_beyond split: if_splits)

lemma hands_simps [simp]:
  "hands EvTake rt = []" "hands (EvPublish i out) rt = take 1 (drop i (in_work (rt_Async rt)))"
  "hands (EvBasicAuth a) rt = []" "hands (EvAclCheck x) rt = []"
  "hands (EvDisconnect d) rt = []" "hands (EvMessage m) rt = []" "hands (EvFanout b) rt = []"
  "takes EvTake rt = (if length (in_work (rt_Async rt)) < wg (rt_Async rt) then take 1 (queue (rt_Async rt)) else [])"
  "takes (EvPublish i out) rt = []" "takes (EvBasicAuth a) rt = []" "takes (EvAclCheck x) rt = []"
  "takes (EvDisconnect d) rt = []" "takes (EvMessage m) rt = []" "takes (EvFanout b) rt = []"
  by (simp_all add: hands_def takes_def)

text \<open>The jobs in and out of the queue and of the workers' hands, at one event or over a run.\<close>

definition flow :: "publishJob list \<Rightarrow> publishJob list \<Rightarrow> publishJob list \<Rightarrow> 's PluginRuntime \<Rightarrow> 's PluginRuntime \<Rightarrow> bool" where
  "flow taken handed acc rt rt' \<longleftrightarrow>
     taken @ queue (rt_Async rt') = queue (rt_Async rt) @ acc \<and>
     mset handed + mset (in_work (rt_Async rt')) = mset (in_work (rt_Async rt)) + mset taken"

lemma flow_trans:
  assumes "flow t h a rt rt1" "flow t' h' a' rt1 rt2"
  shows "flow (t @ t') (h @ h') (a @ a') rt rt2"
proof -
  have "(t @ t') @ queue (rt_Async rt2) = queue (rt_Async rt) @ a @ a'"
    using assms unfolding flow_def by (metis append.assoc)
  moreover have "mset (h @ h') + mset (in_work (rt_Async rt2)) = mset (in_work (rt_Async rt)) + mset (t @ t')"
    using assms unfolding flow_def by (metis (no_types) add.assoc add.left_commute mset_append)
  ultimately show ?thesis by (simp add: flow_def)
qed

lemma step_spec:
  assumes "runtime p = Some rt" "runtime_ready rt" "sessions rt '''' = None"
    and "process_step env ev p = Inr (p', rc)" "runtime p' = Some rt'"
  shows "spec_of (handed @ hands ev rt) rt' =
      spec_step (rt_Config rt) (queue_cap (rt_Async rt)) (wg (rt_Async rt)) (meaning env ev rt) (spec_of handed rt) \<and>
    queue_cap (rt_Async rt') = queue_cap (rt_Async rt) \<and> wg (rt_Async rt') = wg (rt_Async rt) \<and>
    flow (takes ev rt) (hands ev rt)
      (accepted (queue_cap (rt_Async rt)) (event_job env ev rt) (queue (rt_Async rt))) rt rt'"
proof (cases ev)
  case (EvBasicAuth ed)
  with goOnBasicAuth_spec[OF assms(1,2), of env ed p' rc rt'] assms(4,5) show ?thesis
    by (auto simp: takes_job_def event_job_def spec_of_def flow_def split: option.splits)
next
  case (EvAclCheck ed)
  with assms(1,4,5) show ?thesis by (auto simp: event_job_def spec_of_def flow_def accepted_def)
next
  case (EvDisconnect ed)
  have "sessions rt' = (sessions rt)(GoString (de_clientID ed) := None)"
    by (rule goOnDisconnect_ready[OF assms(1-3), of env ed]) (use EvDisconnect assms(4,5) in auto)
  with EvDisconnect goOnDisconnect_spec[OF assms(1-3), of env ed p' rc rt'] assms(4,5) show ?thesis
    by (auto simp: takes_job_def event_job_def spec_of_def flow_def)
next
  case (EvMessage ed)
  have "sessions rt' = sessions rt"
    by (rule goOnMessage_ready[OF assms(1,2), of env ed]) (use EvMessage assms(4,5) in auto)
  with EvMessage goOnMessage_spec[OF assms(1-3), of env ed p' rc rt'] assms(4,5) show ?thesis
    by (auto simp: takes_job_def event_job_def spec_of_def flow_def)
next
  case (EvFanout data)
  with onFanout_spec[OF assms(1), of env data rt'] assms(4,5) show ?thesis
    by (auto simp: event_job_def spec_of_def flow_def accepted_def)
next
  case EvTake
  with onTake_spec[OF assms(1), of rt'] assms(4,5) show ?thesis
    by (auto simp: event_job_def spec_of_def flow_def accepted_def split: if_splits)
next
  case (EvPublish i out)
  with onPublish_spec[OF assms(1), of i out rt'] assms(4,5) show ?thesis
    by (auto simp: event_job_def spec_of_def flow_def accepted_def mset_drop_nth[simplified])
qed

lemma process_step_split:
  assumes "process_ok p" "runtime p = Some rt"
  obtains p' rc rt' where "process_step env ev p = Inr (p', rc)" "runtime p' = Some rt'" "process_ok p'"
    "rt_Config rt' = rt_Config rt"
proof -
  obtain p' rc where p': "process_step env ev p = Inr (p', rc)" "process_ok p'" "same_setting p p'"
    by (rule process_step_ok[OF assms(1), of env ev])
  from p'(3) assms(2) obtain rt' where "runtime p' = Some rt'" "rt_Config rt' = rt_Config rt"
    by (auto simp: same_setting_def)
  with p' that show thesis by blast
qed

lemma run_spec:
  assumes "process_ok p" "runtime p = Some rt"
  shows "\<exists>q rt'. process_run evs p = Inr q \<and> runtime q = Some rt' \<and>
    spec_of (handed @ bus_run evs p) rt' =
      spec_run (rt_Config rt) (queue_cap (rt_Async rt)) (wg (rt_Async rt)) (meanings evs p) (spec_of handed rt) \<and>
    flow (takes_run evs p) (bus_run evs p) (accepted_run evs p) rt rt'"
  using assms
proof (induction evs arbitrary: p rt handed)
  case (Cons e evs)
  obtain env ev where e: "e = (env, ev)" by fastforce
  obtain p1 rc rt1 where s: "process_step env ev p = Inr (p1, rc)" "runtime p1 = Some rt1" "process_ok p1"
    "rt_Config rt1 = rt_Config rt" by (rule process_step_split[OF Cons.prems, of env ev])
  have "runtime_ready rt" "sessions rt '''' = None" using Cons.prems by (simp_all add: process_ok_def)
  note step = step_spec[OF Cons.prems(2) this s(1,2), of handed]
  from Cons.IH[OF s(3,2), of "handed @ hands ev rt"] obtain q rt' where run: "process_run evs p1 = Inr q" "runtime q = Some rt'"
    "spec_of ((handed @ hands ev rt) @ bus_run evs p1) rt' =
      spec_run (rt_Config rt1) (queue_cap (rt_Async rt1)) (wg (rt_Async rt1)) (meanings evs p1)
        (spec_of (handed @ hands ev rt) rt1)"
    "flow (takes_run evs p1) (bus_run evs p1) (accepted_run evs p1) rt1 rt'" by blast
  have "flow (takes_run (e # evs) p) (bus_run (e # evs) p) (accepted_run (e # evs) p) rt rt'"
    using flow_trans[OF _ run(4)] step e s(1) Cons.prems(2) by simp
  with run(1-3) step e s Cons.prems(2) show ?case by (simp add: spec_run_def)
qed (simp add: spec_run_def flow_def)

text \<open>Every accepted job has its event.\<close>

lemma accepted_origin:
  "job \<in> set (accepted_run evs p) \<Longrightarrow>
   \<exists>before env ev after q rt. evs = before @ (env, ev) # after \<and> process_run before p = Inr q \<and> runtime q = Some rt \<and>
     event_job env ev rt = Some job"
proof (induction evs arbitrary: p)
  case (Cons e evs)
  obtain env ev where e: "e = (env, ev)" by fastforce
  from Cons.prems e obtain rt p' rc where s: "runtime p = Some rt" "process_step env ev p = Inr (p', rc)"
    by (cases "runtime p"; cases "process_step env ev p") auto
  with Cons.prems e consider
    "job \<in> set (accepted (queue_cap (rt_Async rt)) (event_job env ev rt) (queue (rt_Async rt)))" | "job \<in> set (accepted_run evs p')"
    by auto
  then show ?case
  proof cases
    case 1
    then have "event_job env ev rt = Some job" by (auto simp: accepted_def split: option.splits if_splits)
    with s(1) e show ?thesis
      by (intro exI[of _ "[]"] exI[of _ env] exI[of _ ev] exI[of _ evs] exI[of _ p] exI[of _ rt]) simp
  next
    case 2
    from Cons.IH[OF this] obtain before env2 ev2 after q rt2 where o: "evs = before @ (env2, ev2) # after"
      "process_run before p' = Inr q" "runtime q = Some rt2" "event_job env2 ev2 rt2 = Some job" by blast
    with s e show ?thesis
      by (intro exI[of _ "e # before"] exI[of _ env2] exI[of _ ev2] exI[of _ after] exI[of _ q] exI[of _ rt2]) simp
  qed
qed simp

text \<open>What kind of event a job comes from.\<close>

lemma event_job_cases:
  assumes "event_job env ev rt = Some job"
  obtains (connect) ed info where "ev = EvBasicAuth ed" "admitted env ed rt info"
      "connect_job (rt_Config rt) info (GoString (ae_clientID ed)) (GoString (ae_address ed)) (ce_now env) = Some job"
  | (disconnect) ed info where "ev = EvDisconnect ed" "sessions rt (GoString (de_clientID ed)) = Some info"
      "disconnect_job (rt_Config rt) info (GoString (de_clientID ed)) (GoString (de_address ed)) (de_reason ed) (ce_now env) =
        Some job"
  | (message) ed info where "ev = EvMessage ed" "sessions rt (GoString (me_clientID ed)) = Some info"
      "ingress_job (rt_Config rt) info (GoString (me_clientID ed)) (GoString (me_topic ed)) (me_payload ed) (me_qos ed)
         (me_retain ed) (ce_now env) = Some job"
  using assms
  by (cases ev) (auto simp: event_job_def admitted_iff split: option.splits if_splits)

lemma demo_room: "queue (rt_Async demo_rt) = []" "queue_cap (rt_Async demo_rt) = 2" "rt_Config demo_rt = demo_config"
  "in_work (rt_Async demo_rt) = []" "wg (rt_Async demo_rt) = 1"
  by (simp_all add: demo_rt_def demo_publisher_def)

text \<open>A device that connects, while a worker takes its advisory and hands it to the bus.\<close>

abbreviation demo_events :: "(mem_db call_env \<times> broker_event) list" where
  "demo_events \<equiv> [(demo_call (demo_env 0), EvBasicAuth demo_password_event), (demo_call (demo_env 0), EvTake),
     (demo_call (demo_env 0), EvPublish 0 PubOk)]"

section \<open>Properties\<close>

text \<open>C6: The process implements the abstract broker. Over any run of events from a ready process, the
  sessions, the waiting jobs, the jobs in the hands of workers and the jobs handed to NATS are
  those that the abstract broker reaches from the same start with what the events mean, and the
  run does not panic. In particular jobs are taken off the queue in the order of their acceptance,
  one for every event that calls for a job and finds room, and each job taken is handed to NATS
  once or still held; the order of handing over is left open, since workers overtake each other.\<close>

theorem process_refines_spec:
  assumes "process_ok p" "runtime p = Some rt"
  shows "\<exists>q rt'. process_run evs p = Inr q \<and> runtime q = Some rt' \<and>
    spec_of (bus_run evs p) rt' =
      spec_run (rt_Config rt) (queue_cap (rt_Async rt)) (wg (rt_Async rt)) (meanings evs p) (spec_of [] rt) \<and>
    takes_run evs p @ queue (rt_Async rt') = queue (rt_Async rt) @ accepted_run evs p \<and>
    mset (bus_run evs p) + mset (in_work (rt_Async rt')) = mset (in_work (rt_Async rt)) + mset (takes_run evs p)"
  using run_spec[OF assms, of evs "[]"] by (auto simp: flow_def)

theorem process_refines_spec_witness:
  "\<exists>q rt'. process_run demo_events demo_process = Inr q \<and> runtime q = Some rt' \<and>
    spec_of (bus_run demo_events demo_process) rt' =
      spec_run demo_config 2 1 (meanings demo_events demo_process) (spec_of [] demo_rt) \<and>
    takes_run demo_events demo_process @ queue (rt_Async rt') = accepted_run demo_events demo_process"
  using process_refines_spec[OF demo_process_ok(1) demo_process_runtime, of demo_events]
  unfolding demo_room append_Nil by blast

text \<open>With two workers the second of two jobs can reach NATS first: the order of handing over is not
  that of the queue.\<close>

lemma handing_over_reorders:
  assumes "runtime p = Some rt" "queue (rt_Async rt) = [j1, j2]" "in_work (rt_Async rt) = []" "wg (rt_Async rt) = 2"
  shows "bus_run [(env, EvTake), (env, EvTake), (env, EvPublish 1 PubOk), (env, EvPublish 0 PubOk)] p = [j2, j1]"
  using assms by (simp add: onTake_def receive_def onPublish_def publishHeld_def drop_nth_def publishOne_def)

text \<open>C7: Nothing reaches the event bus but what an admitted client caused. After any run from a process
  without sessions and jobs, as initialisation leaves it, a job handed to NATS is the connect advisory of a CONNECT that
  the store admitted, or the disconnect advisory or the message of a client whose session stems
  from such a CONNECT with no disconnect since; organisation and asset in it are those of the
  session.\<close>

theorem publication_traceback:
  assumes "process_ok p" "runtime p = Some rt0" "sessions rt0 = Map.empty" "queue (rt_Async rt0) = []"
    "in_work (rt_Async rt0) = []"
    and "job \<in> set (bus_run evs p)"
  shows "\<exists>before env ev after q rt info. evs = before @ (env, ev) # after \<and>
    process_run before p = Inr q \<and> runtime q = Some rt \<and>
    ((\<exists>ed. ev = EvBasicAuth ed \<and> admitted env ed rt info \<and>
        connect_job (rt_Config rt0) info (GoString (ae_clientID ed)) (GoString (ae_address ed)) (ce_now env) = Some job) \<or>
     (\<exists>ed. ev = EvDisconnect ed \<and> session_origin before p (GoString (de_clientID ed)) info \<and>
        disconnect_job (rt_Config rt0) info (GoString (de_clientID ed)) (GoString (de_address ed)) (de_reason ed) (ce_now env) =
          Some job) \<or>
     (\<exists>ed. ev = EvMessage ed \<and> session_origin before p (GoString (me_clientID ed)) info \<and>
        ingress_job (rt_Config rt0) info (GoString (me_clientID ed)) (GoString (me_topic ed)) (me_payload ed) (me_qos ed)
          (me_retain ed) (ce_now env) = Some job))"
proof -
  obtain q' rt' where "process_run evs p = Inr q'" "runtime q' = Some rt'"
    and acc: "takes_run evs p @ queue (rt_Async rt') = accepted_run evs p"
    and taken: "mset (bus_run evs p) + mset (in_work (rt_Async rt')) = mset (takes_run evs p)"
    using run_spec[OF assms(1,2), of evs "[]"] assms(4,5) by (auto simp: flow_def)
  have "job \<in># mset (takes_run evs p)" using assms(6) by (simp flip: taken)
  then have "job \<in> set (accepted_run evs p)" by (simp flip: acc)
  then obtain before env ev after q rt where o: "evs = before @ (env, ev) # after" "process_run before p = Inr q"
    "runtime q = Some rt" "event_job env ev rt = Some job" using accepted_origin by blast
  have cfg: "rt_Config rt = rt_Config rt0"
    using process_run_ok[OF assms(1), of before] o(2,3) assms(2) by (auto simp: same_setting_def)
  have ses: "session_origin before p c info" if "sessions rt c = Some info" for c info
    using sessions_traced[OF assms(1-3) o(2)] o(3) that by auto
  from o(4) show ?thesis
  proof (cases rule: event_job_cases)
    case (connect ed info)
    with o(1-3) cfg show ?thesis by metis
  next
    case (disconnect ed info)
    with o(1-3) cfg ses show ?thesis by metis
  next
    case (message ed info)
    with o(1-3) cfg ses show ?thesis by metis
  qed
qed

theorem publication_traceback_witness:
  "\<exists>job info. bus_run demo_events demo_process = [job] \<and>
     admitted (demo_call (demo_env 0)) demo_password_event demo_rt info \<and>
     connect_job demo_config info ''c1'' ''ip'' 0 = Some job"
proof -
  obtain ts where "MarshalTime 0 = Some ts" using MarshalTime_epoch by blast
  then obtain job where job: "connect_job demo_config \<lparr>si_OrgID = ''o1'', si_AssetUUID = ''a1''\<rparr> ''c1'' ''ip'' 0 = Some job"
    by (auto simp: connect_job_def job_of_def marshalPresence_def)
  have sf: "session_for (demo_call (demo_env 0)) demo_password_event demo_rt = Some \<lparr>si_OrgID = ''o1'', si_AssetUUID = ''a1''\<rparr>"
    using demo_admitted[of 0] by (simp add: admitted_iff)
  obtain p1 rc rt1 where s: "process_step (demo_call (demo_env 0)) (EvBasicAuth demo_password_event) demo_process = Inr (p1, rc)"
    "runtime p1 = Some rt1" by (rule process_step_split[OF demo_process_ok(1) demo_process_runtime])
  have "queue (rt_Async rt1) = [job]"
    using step_spec[OF demo_process_runtime demo_ready _ s, of "[]"] job sf demo_process_ok(2)
    by (simp add: demo_room event_job_def accepted_def demo_password_event_def demo_call_def flow_def)
  moreover have "in_work (rt_Async rt1) = []" "wg (rt_Async rt1) = 1"
    using step_spec[OF demo_process_runtime demo_ready _ s, of "[]"] demo_process_ok(2)
    by (auto simp: flow_def demo_room)
  ultimately have bus: "bus_run demo_events demo_process = [job]" using s
    by (simp add: onTake_def receive_def del: process_step.simps(1))
  then have "job \<in> set (bus_run demo_events demo_process)" by simp
  from publication_traceback[OF demo_process_ok(1) demo_process_runtime demo_process_ok(2) demo_room(1,4) this]
  have "\<exists>info. admitted (demo_call (demo_env 0)) demo_password_event demo_rt info \<and>
      connect_job demo_config info ''c1'' ''ip'' 0 = Some job"
    by (auto simp: Cons_eq_append_conv demo_room demo_password_event_def demo_call_def)
  with bus show ?thesis by blast
qed

end
