(* ===== verification/Trampolines.thy ===== *)
theory Trampolines
  imports PluginMain
begin

text \<open>
  \<^verbatim>\<open>src/plugin/trampolines.c\<close> and \<^verbatim>\<open>src/plugin/plugin_version.c\<close>: the C side of the callbacks. It
  reads the client certificate through OpenSSL and hands each broker event to the exported Go
  function. OpenSSL and \<^verbatim>\<open>malloc\<close> are outside: \<open>'o\<close> is the type of OpenSSL's objects and \<open>openssl\<close>
  the calls that the code makes, a NULL answer being \<^const>\<open>None\<close>. Memory is the bytes that a
  pointer leads to; what the code allocates ends with the zero byte that it writes.
\<close>

section \<open>Definitions\<close>

record 'o openssl =
  X509_get0_serialNumber :: "'o \<Rightarrow> 'o option"
  ASN1_INTEGER_to_BN :: "'o \<Rightarrow> 'o option"
  BN_bn2hex :: "'o \<Rightarrow> string option"
  X509_get_subject_name :: "'o \<Rightarrow> 'o option"
  index_of_commonName :: "'o \<Rightarrow> int"
  X509_NAME_get_entry :: "'o \<Rightarrow> int \<Rightarrow> 'o option"
  X509_NAME_ENTRY_get_data :: "'o \<Rightarrow> 'o option"
  ASN1_STRING_to_UTF8 :: "'o \<Rightarrow> int \<times> bytes option"
  malloc_ok :: "nat \<Rightarrow> bool"

text \<open>What Mosquitto's accessors answer for a client; they answer NULL for a NULL client.\<close>

record 'o mosquitto =
  client_username :: "string option"
  client_id :: "string option"
  client_address :: "string option"
  client_certificate :: "'o option"

definition NUL :: char where "NUL = CHR 0x00"

text \<open>The loop that turns the letters of a hexadecimal string to upper case, up to the zero byte.\<close>

definition upcase_char :: "char \<Rightarrow> char" where
  "upcase_char c =
     (if byte (CHR ''a'') \<le> byte c \<and> byte c \<le> byte (CHR ''f'') then char_of (byte c - 32) else c)"

fun upcase_hex :: "string \<Rightarrow> string" where
  "upcase_hex [] = []"
| "upcase_hex (c # s) = (if c = NUL then c # s else upcase_char c # upcase_hex s)"

definition get_cert_serial_hex :: "'o openssl \<Rightarrow> 'o mosquitto option \<Rightarrow> string option" where
  "get_cert_serial_hex api client =
     (case client of None \<Rightarrow> None | Some cl \<Rightarrow>
      case client_certificate cl of None \<Rightarrow> None | Some cert \<Rightarrow>
      case X509_get0_serialNumber api cert of None \<Rightarrow> None | Some serial \<Rightarrow>
      case ASN1_INTEGER_to_BN api serial of None \<Rightarrow> None | Some bn \<Rightarrow>
      case BN_bn2hex api bn of None \<Rightarrow> None | Some openssl_hex \<Rightarrow>
      let len = length (takeWhile (\<lambda>c. c \<noteq> NUL) openssl_hex) in
      if \<not> malloc_ok api (len + 1) then None
      else Some (upcase_hex (take len openssl_hex @ [NUL])))"

definition get_cert_cn :: "'o openssl \<Rightarrow> 'o mosquitto option \<Rightarrow> string option" where
  "get_cert_cn api client =
     (case client of None \<Rightarrow> None | Some cl \<Rightarrow>
      case client_certificate cl of None \<Rightarrow> None | Some cert \<Rightarrow>
      case X509_get_subject_name api cert of None \<Rightarrow> None | Some subj \<Rightarrow>
      let idx = index_of_commonName api subj in
      if idx < 0 then None else
      case X509_NAME_get_entry api subj idx of None \<Rightarrow> None | Some entry \<Rightarrow>
      case X509_NAME_ENTRY_get_data api entry of None \<Rightarrow> None | Some dat \<Rightarrow>
      case ASN1_STRING_to_UTF8 api dat of
        (n, None) \<Rightarrow> None
      | (n, Some utf8) \<Rightarrow>
          if n < 0 then None
          else if \<not> malloc_ok api (nat n + 1) then None
          else Some (take (nat n) utf8 @ [NUL]))"

subsection \<open>Events as the broker passes them\<close>

record 'o evt_basic_auth =
  ba_client :: "'o mosquitto option"
  ba_username :: "string option"
  ba_password :: "string option"

record 'o evt_acl_check =
  ac_client :: "'o mosquitto option"
  ac_topic :: "string option"
  ac_access :: int

record 'o evt_disconnect =
  dc_client :: "'o mosquitto option"
  dc_reason :: int

record 'o evt_message =
  ms_client :: "'o mosquitto option"
  ms_topic :: "string option"
  ms_payload :: bytes
  ms_qos :: int
  ms_retain :: bool

text \<open>What the Go callback gets to see of an event.\<close>

definition basic_auth_view :: "'o openssl \<Rightarrow> 'o evt_basic_auth \<Rightarrow> auth_event" where
  "basic_auth_view api ev =
     \<lparr>ae_client = (ba_client ev \<noteq> None), ae_username = ba_username ev, ae_password = ba_password ev,
      ae_clientID = Option.bind (ba_client ev) client_id,
      ae_address = Option.bind (ba_client ev) client_address,
      ae_certSerial = get_cert_serial_hex api (ba_client ev), ae_certCN = get_cert_cn api (ba_client ev)\<rparr>"

definition trampoline_basic_auth ::
    "'o openssl \<Rightarrow> 'db call_env \<Rightarrow> 'o evt_basic_auth option \<Rightarrow> 'db plugin_process \<Rightarrow>
     go_panic + 'db plugin_process \<times> mosq_rc" where
  "trampoline_basic_auth api env event_data = goOnBasicAuth env (map_option (basic_auth_view api) event_data)"

definition trampoline_acl_check :: "'o evt_acl_check option \<Rightarrow> 'db plugin_process \<Rightarrow> mosq_rc" where
  "trampoline_acl_check event_data =
     goOnAclCheck (map_option (\<lambda>ev. \<lparr>xe_username = Option.bind (ac_client ev) client_username,
       xe_topic = ac_topic ev, xe_access = ac_access ev\<rparr>) event_data)"

definition trampoline_disconnect ::
    "'db call_env \<Rightarrow> 'o evt_disconnect option \<Rightarrow> 'db plugin_process \<Rightarrow> go_panic + 'db plugin_process \<times> mosq_rc" where
  "trampoline_disconnect env event_data =
     goOnDisconnect env (map_option (\<lambda>ev. \<lparr>de_clientID = Option.bind (dc_client ev) client_id,
       de_address = Option.bind (dc_client ev) client_address, de_reason = dc_reason ev\<rparr>) event_data)"

definition trampoline_message ::
    "'db call_env \<Rightarrow> 'o evt_message option \<Rightarrow> 'db plugin_process \<Rightarrow> go_panic + 'db plugin_process \<times> mosq_rc" where
  "trampoline_message env event_data =
     goOnMessage env (map_option (\<lambda>ev. \<lparr>me_clientID = Option.bind (ms_client ev) client_id, me_topic = ms_topic ev,
       me_payload = ms_payload ev, me_qos = ms_qos ev, me_retain = ms_retain ev\<rparr>) event_data)"

definition mosquitto_plugin_version :: "int list \<Rightarrow> int" where
  "mosquitto_plugin_version supported_versions = 5"

section \<open>Lemmas\<close>

lemma upcase_hex_text: "NUL \<notin> set s \<Longrightarrow> upcase_hex (s @ NUL # rest) = map upcase_char s @ NUL # rest"
  by (induction s) auto

lemma upcase_char_NUL: "upcase_char c = NUL \<longleftrightarrow> c = NUL"
proof -
  have "char_of (byte c - 32) \<noteq> NUL" if "97 \<le> byte c" "byte c \<le> 102"
  proof
    assume "char_of (byte c - 32) = NUL"
    then have "of_char (char_of (byte c - 32) :: char) = (of_char NUL :: nat)" by simp
    with that show False by (simp add: NUL_def of_char_of)
  qed
  then show ?thesis by (auto simp: upcase_char_def byte_def NUL_def)
qed

lemma map_upcase_NUL: "NUL \<in> set (map upcase_char s) \<longleftrightarrow> NUL \<in> set s"
  using upcase_char_NUL by (induction s) (simp, metis list.simps(9) set_ConsD list.set_intros)

text \<open>A buffer that ends with a zero byte, read back.\<close>

lemma GoString_terminated: "GoString (Some (s @ [NUL])) = GoString (Some s)"
  by (induction s) (auto simp: NUL_def)

lemma GoString_id: "NUL \<notin> set s \<Longrightarrow> GoString (Some s) = s"
  by (simp add: NUL_def takeWhile_eq_all_conv) metis

text \<open>The serial that the Go side gets: OpenSSL's text up to its end, in upper case.\<close>

lemma serial_GoString:
  assumes "client_certificate cl = Some cert" "X509_get0_serialNumber api cert = Some sn"
    "ASN1_INTEGER_to_BN api sn = Some bn" "BN_bn2hex api bn = Some hex"
    "malloc_ok api (length (GoString (Some hex)) + 1)"
  shows "GoString (get_cert_serial_hex api (Some cl)) = map upcase_char (GoString (Some hex))"
proof -
  let ?t = "takeWhile (\<lambda>c. c \<noteq> NUL) hex"
  have t: "take (length ?t) hex = ?t" by (metis takeWhile_eq_take)
  have nul: "NUL \<notin> set ?t" by (auto dest: set_takeWhileD)
  then have up: "NUL \<notin> set (map upcase_char ?t)" by (simp only: map_upcase_NUL not_False_eq_True)
  have "get_cert_serial_hex api (Some cl) = Some (upcase_hex (take (length ?t) hex @ [NUL]))"
    using assms by (simp add: get_cert_serial_hex_def Let_def NUL_def)
  also have "upcase_hex (take (length ?t) hex @ [NUL]) = map upcase_char ?t @ [NUL]"
    unfolding t by (rule upcase_hex_text[OF nul])
  finally show ?thesis using GoString_id[OF up] by (simp only: GoString_terminated) (simp add: NUL_def)
qed

text \<open>The length of the common name is lost on the way: the Go side gets the bytes before the first
  zero byte, so two different names can be read as the same one.\<close>

lemma cn_GoString:
  assumes "client_certificate cl = Some cert" "X509_get_subject_name api cert = Some subj"
    "0 \<le> index_of_commonName api subj" "X509_NAME_get_entry api subj (index_of_commonName api subj) = Some entry"
    "X509_NAME_ENTRY_get_data api entry = Some dat" "ASN1_STRING_to_UTF8 api dat = (int (length cn), Some cn)"
    "malloc_ok api (length cn + 1)"
  shows "GoString (get_cert_cn api (Some cl)) = GoString (Some cn)"
proof -
  have "get_cert_cn api (Some cl) = Some (cn @ [NUL])" using assms by (simp add: get_cert_cn_def Let_def)
  then show ?thesis by (simp only: GoString_terminated)
qed

lemma cn_cut_at_zero: "NUL \<notin> set name \<Longrightarrow> GoString (Some (name @ NUL # rest)) = name"
  by (induction name) (auto simp: NUL_def)

text \<open>A certificate whose serial cannot be rendered or copied counts as none: the password decides.\<close>

lemma unreadable_serial:
  assumes "ba_client ev = Some cl" "client_certificate cl = Some cert"
    and "X509_get0_serialNumber api cert = None \<or>
      (\<exists>sn. X509_get0_serialNumber api cert = Some sn \<and> ASN1_INTEGER_to_BN api sn = None) \<or>
      (\<exists>sn bn. X509_get0_serialNumber api cert = Some sn \<and> ASN1_INTEGER_to_BN api sn = Some bn \<and> BN_bn2hex api bn = None) \<or>
      (\<forall>n. \<not> malloc_ok api n)"
    and "admitted env (basic_auth_view api ev) rt info"
  shows "\<exists>s s' e. rt_Store rt = Some s \<and>
    store_Get (ce_store env (contextWithTimeout (AuthTimeout (rt_Config rt)))) s (GoString (ba_username ev)) = (s', Inr (Some e)) \<and>
    AuthType e = ''password'' \<and> ce_bcrypt env (PasswordHash e) (GoString (ba_password ev))"
proof -
  have "get_cert_serial_hex api (Some cl) = None"
    using assms(2,3) by (auto simp: get_cert_serial_hex_def Let_def split: option.split)
  then have "getClientCertSerial (basic_auth_view api ev) = ''''"
    using assms(1) by (simp add: getClientCertSerial_def basic_auth_view_def)
  then show ?thesis
    using assms(4) by (auto simp: admitted_def credential_ok_def auth_username_def basic_auth_view_def)
qed

subsection \<open>A concrete certificate\<close>

definition demo_ssl :: "string openssl" where
  "demo_ssl = \<lparr>X509_get0_serialNumber = Some, ASN1_INTEGER_to_BN = Some, BN_bn2hex = (\<lambda>x. Some (x @ [NUL])),
     X509_get_subject_name = (\<lambda>_. Some ''a1''), index_of_commonName = (\<lambda>_. 0), X509_NAME_get_entry = (\<lambda>x _. Some x),
     X509_NAME_ENTRY_get_data = Some, ASN1_STRING_to_UTF8 = (\<lambda>x. (int (length x), Some x)), malloc_ok = (\<lambda>_. True)\<rparr>"

definition demo_cert_call :: "string \<Rightarrow> string evt_basic_auth" where
  "demo_cert_call serial = \<lparr>ba_client = Some \<lparr>client_username = None, client_id = Some ''c1'', client_address = Some ''ip'',
     client_certificate = Some serial\<rparr>, ba_username = None, ba_password = None\<rparr>"

lemma demo_hex: "GoString (Some (''0a'' @ [NUL])) = ''0a''"
  by (simp add: NUL_def)

lemma demo_upcase: "map upcase_char ''0a'' = ''0A''"
  by (simp add: upcase_char_def byte_def) code_simp

section \<open>Properties\<close>

text \<open>C4: A certificate decides alone, when its serial can be read. When the client has a certificate
  whose serial OpenSSL renders as a non-empty text, and \<^verbatim>\<open>malloc\<close> succeeds for the copy, the
  callback that the broker calls returns, and with success exactly when the store has an enabled
  entry in cert mode, under the username or, without one, under the common name, and the entry's
  serial is the serial of this certificate up to case. The password plays no part then, and neither
  an empty serial nor an entry in password mode lets the client in. Without these conditions the
  code falls back to password mode (\<open>unreadable_serial\<close>).\<close>

theorem certificate_decides:
  assumes "runtime p = Some rt" "runtime_ready rt" "ba_client ev = Some cl"
    and cert: "client_certificate cl = Some cert" "X509_get0_serialNumber api cert = Some sn"
      "ASN1_INTEGER_to_BN api sn = Some bn" "BN_bn2hex api bn = Some hex"
      "malloc_ok api (length (GoString (Some hex)) + 1)"
    and "GoString (Some hex) \<noteq> ''''"
    and name: "name = (if GoString (ba_username ev) = '''' then GoString (get_cert_cn api (Some cl))
      else GoString (ba_username ev))"
  shows "\<exists>p' rc. trampoline_basic_auth api env (Some ev) p = Inr (p', rc) \<and>
    (rc = MOSQ_ERR_SUCCESS \<longleftrightarrow>
      (\<exists>s s' e. parseUsername name = Some name \<and> rt_Store rt = Some s \<and>
         store_Get (ce_store env (contextWithTimeout (AuthTimeout (rt_Config rt)))) s name = (s', Inr (Some e)) \<and>
         Enabled e \<and> AuthType e = ''cert'' \<and> CurrentCertSerial e \<noteq> '''' \<and>
         EqualFold (ce_sf env) (CurrentCertSerial e) (map upcase_char (GoString (Some hex)))))"
proof -
  let ?ed = "basic_auth_view api ev"
  have serial: "getClientCertSerial ?ed = map upcase_char (GoString (Some hex))"
    using serial_GoString[OF cert] assms(3) by (simp add: getClientCertSerial_def basic_auth_view_def)
  then have user: "auth_username ?ed = name"
    using assms(3,9) by (simp add: auth_username_def getClientCertCN_def name basic_auth_view_def)
  have "(\<exists>info. admitted env ?ed rt info) \<longleftrightarrow>
      (\<exists>s s' e. parseUsername name = Some name \<and> rt_Store rt = Some s \<and>
         store_Get (ce_store env (contextWithTimeout (AuthTimeout (rt_Config rt)))) s name = (s', Inr (Some e)) \<and>
         Enabled e \<and> AuthType e = ''cert'' \<and> CurrentCertSerial e \<noteq> '''' \<and>
         EqualFold (ce_sf env) (CurrentCertSerial e) (map upcase_char (GoString (Some hex))))"
    using assms(9) unfolding admitted_def credential_ok_def serial user by auto
  moreover have "\<exists>p' rc. goOnBasicAuth env (Some ?ed) p = Inr (p', rc) \<and>
      (rc = MOSQ_ERR_SUCCESS \<longleftrightarrow> (\<exists>info. admitted env ?ed rt info))"
    using assms(1,2) by (cases rule: goOnBasicAuth_cases[where env = env and ed = ?ed]) auto
  ultimately show ?thesis by (simp only: trampoline_basic_auth_def option.map(2))
qed

theorem certificate_decides_witness:
  "\<exists>p'. trampoline_basic_auth demo_ssl (demo_call cert_env) (Some (demo_cert_call ''0a'')) demo_process = Inr (p', MOSQ_ERR_SUCCESS)"
proof -
  let ?ev = "demo_cert_call ''0a''"
  obtain cl where cl: "ba_client ?ev = Some cl" "client_certificate cl = Some ''0a''" "ba_username ?ev = None"
    by (simp add: demo_cert_call_def)
  have ssl: "X509_get0_serialNumber demo_ssl ''0a'' = Some ''0a''" "ASN1_INTEGER_to_BN demo_ssl ''0a'' = Some ''0a''"
    "BN_bn2hex demo_ssl ''0a'' = Some (''0a'' @ [NUL])" "malloc_ok demo_ssl n" for n
    by (simp_all add: demo_ssl_def)
  have cn: "GoString (get_cert_cn demo_ssl (Some cl)) = ''a1''"
    using cl(2) by (simp add: get_cert_cn_def demo_ssl_def Let_def NUL_def)
  have e: "Enabled (ToAuthEntry cert_projection)" "AuthType (ToAuthEntry cert_projection) = ''cert''"
    "CurrentCertSerial (ToAuthEntry cert_projection) = ''0A''"
    by (simp_all add: ToAuthEntry_def cert_projection_def zero_AuthProjection_def)
  have env: "ce_store (demo_call cert_env) c = cert_env" "rt_Store demo_rt = Some demo_store" for c
    by (simp_all add: demo_call_def demo_rt_def)
  have name: "''a1'' = (if GoString (ba_username ?ev) = '''' then GoString (get_cert_cn demo_ssl (Some cl))
      else GoString (ba_username ?ev))" by (simp add: cl(3) cn)
  have "GoString (Some (''0a'' @ [NUL])) \<noteq> ''''" by (simp add: demo_hex)
  from certificate_decides[OF demo_process_runtime demo_ready cl(1,2) ssl(1-4) this name, of "demo_call cert_env"]
  obtain p' rc where p': "trampoline_basic_auth demo_ssl (demo_call cert_env) (Some ?ev) demo_process = Inr (p', rc)"
    "rc = MOSQ_ERR_SUCCESS \<longleftrightarrow> (\<exists>s s' e. parseUsername ''a1'' = Some ''a1'' \<and> Some demo_store = Some s \<and>
       store_Get cert_env s ''a1'' = (s', Inr (Some e)) \<and> Enabled e \<and> AuthType e = ''cert'' \<and>
       CurrentCertSerial e \<noteq> '''' \<and> EqualFold (ce_sf (demo_call cert_env)) (CurrentCertSerial e) ''0A'')"
    unfolding demo_hex demo_upcase env by blast
  moreover have "parseUsername ''a1'' = Some ''a1''" by (simp add: parseUsername_Some_iff)
  moreover have "EqualFold (ce_sf (demo_call cert_env)) ''0A'' ''0A''" by simp
  ultimately have "rc = MOSQ_ERR_SUCCESS" using cert_Get e by fastforce
  with p'(1) show ?thesis by blast
qed

end
