(* ===== verification/GoFmt.thy ===== *)
theory GoFmt
  imports GoTime
begin

text \<open>
  Go's \<^verbatim>\<open>fmt.Sprintf\<close> as far as the plugin uses it: the verbs \<^verbatim>\<open>%s\<close>, \<^verbatim>\<open>%v\<close>, \<^verbatim>\<open>%d\<close> and \<^verbatim>\<open>%q\<close> without
  flags, widths and argument indexes, applied to strings, integers, errors and durations. With it
  come \<^verbatim>\<open>error.Error\<close>, \<^verbatim>\<open>strconv.Quote\<close> and \<^verbatim>\<open>time.Duration.String\<close>. \<open>isPrint\<close> is the table of
  printable code points beyond ASCII.
\<close>

section \<open>Definitions\<close>

subsection \<open>Texts of values\<close>

text \<open>\<^verbatim>\<open>errors.New\<close> keeps its text, \<^verbatim>\<open>fmt.Errorf\<close> with a closing \<^verbatim>\<open>: %w\<close> appends that of the wrapped
  error. The two sentinels are those of \<^verbatim>\<open>src/auth_store.go\<close>.\<close>

fun Error :: "go_error \<Rightarrow> string" where
  "Error ErrAuthEntryNotFound = ''auth entry not found''"
| "Error ErrAuthStoreUnavailable = ''auth store unavailable''"
| "Error (ErrText s) = s"
| "Error (ErrWrap m e) = m @ '': '' @ Error e"

definition hexDigit :: "nat \<Rightarrow> char" where
  "hexDigit d = (if d < 10 then digitChar d else char_of (87 + d))"

fun hexN :: "nat \<Rightarrow> nat \<Rightarrow> string" where
  "hexN 0 n = []"
| "hexN (Suc k) n = hexN k (n div 16) @ [hexDigit (n mod 16)]"

text \<open>The escapes \<^verbatim>\<open>\a\<close>, \<^verbatim>\<open>\b\<close>, \<^verbatim>\<open>\t\<close>, \<^verbatim>\<open>\n\<close>, \<^verbatim>\<open>\v\<close>, \<^verbatim>\<open>\f\<close> and \<^verbatim>\<open>\r\<close> of the control characters 7 to 13.\<close>

definition escapeRune :: "(rune \<Rightarrow> bool) \<Rightarrow> rune \<Rightarrow> string" where
  "escapeRune isPrint r =
     (if r = byte (CHR 0x22) \<or> r = byte (CHR 0x5C) then [CHR 0x5C, char_of r]
      else if (if r < 0x80 then 0x20 \<le> r \<and> r < 0x7F else isPrint r) then encodeRune r
      else if 7 \<le> r \<and> r \<le> 13 then [CHR 0x5C, ''abtnvfr'' ! (r - 7)]
      else if r < 0x20 \<or> r = 0x7F then CHR 0x5C # CHR ''x'' # hexN 2 r
      else if r < 0x10000 then CHR 0x5C # CHR ''u'' # hexN 4 r
      else CHR 0x5C # CHR ''U'' # hexN 8 r)"

text \<open>A byte that does not belong to valid UTF-8 is written in hexadecimal.\<close>

function quoteBody :: "(rune \<Rightarrow> bool) \<Rightarrow> string \<Rightarrow> string" where
  "quoteBody isPrint s =
     (if s = [] then []
      else (if DecodeRune s = (runeError, 1) then CHR 0x5C # CHR ''x'' # hexN 2 (byte (hd s))
            else escapeRune isPrint (fst (DecodeRune s)))
           @ quoteBody isPrint (drop (snd (DecodeRune s)) s))"
  by pat_completeness auto
termination
  by (relation "measure (length \<circ> snd)") (use DecodeRune_width_pos in \<open>auto simp: diff_less\<close>)

declare quoteBody.simps [simp del]

definition Quote :: "(rune \<Rightarrow> bool) \<Rightarrow> string \<Rightarrow> string" where
  "Quote isPrint s = CHR 0x22 # quoteBody isPrint s @ [CHR 0x22]"

text \<open>\<open>k\<close> decimals of a fraction without trailing zeros.\<close>

definition fmtFrac :: "nat \<Rightarrow> nat \<Rightarrow> string" where
  "fmtFrac k n = (if n = 0 then []
     else CHR ''.'' # rev (dropWhile (\<lambda>c. c = CHR ''0'') (rev (padN k n))))"

text \<open>The micro sign U+00B5 is two bytes.\<close>

definition durationText :: "nat \<Rightarrow> string" where
  "durationText u =
     (if u = 0 then ''0s''
      else if u < 1000 then natDigits u @ ''ns''
      else if u < 1000000 then natDigits (u div 1000) @ fmtFrac 3 (u mod 1000) @ [CHR 0xC2, CHR 0xB5, CHR ''s'']
      else if u < 1000000000 then natDigits (u div 1000000) @ fmtFrac 6 (u mod 1000000) @ ''ms''
      else
        let s = u div 1000000000; m = s div 60; h = m div 60 in
        (if 0 < h then natDigits h @ ''h'' else []) @
        (if 0 < m then natDigits (m mod 60) @ ''m'' else []) @
        natDigits (s mod 60) @ fmtFrac 9 (u mod 1000000000) @ ''s'')"

definition Duration_String :: "duration \<Rightarrow> string" where
  "Duration_String d = (if d < 0 then CHR ''-'' # durationText (nat (- d)) else durationText (nat d))"

subsection \<open>Sprintf\<close>

datatype log_arg =
    ArgStr string
  | ArgInt int
  | ArgErr go_error
  | ArgDur duration

text \<open>\<^const>\<open>None\<close> where the verb does not fit the argument.\<close>

definition verbText :: "(rune \<Rightarrow> bool) \<Rightarrow> char \<Rightarrow> log_arg \<Rightarrow> string option" where
  "verbText isPrint v a =
     (case a of
        ArgStr s \<Rightarrow> if v = CHR ''s'' \<or> v = CHR ''v'' then Some s
                    else if v = CHR ''q'' then Some (Quote isPrint s) else None
      | ArgInt n \<Rightarrow> if v = CHR ''d'' \<or> v = CHR ''v'' then Some (Itoa n) else None
      | ArgErr e \<Rightarrow> if v = CHR ''s'' \<or> v = CHR ''v'' then Some (Error e)
                    else if v = CHR ''q'' then Some (Quote isPrint (Error e)) else None
      | ArgDur d \<Rightarrow> if v = CHR ''s'' \<or> v = CHR ''v'' then Some (Duration_String d)
                    else if v = CHR ''d'' then Some (Itoa d) else None)"

text \<open>\<^const>\<open>None\<close> stands for the calls that Go answers with one of its \<^verbatim>\<open>%!\<close> notes in the text: a verb
  without an argument or with one it does not fit, an argument too many, a lone \<^verbatim>\<open>%\<close> at the end.\<close>

fun Sprintf :: "(rune \<Rightarrow> bool) \<Rightarrow> string \<Rightarrow> log_arg list \<Rightarrow> string option" where
  "Sprintf isPrint [] args = (if args = [] then Some [] else None)"
| "Sprintf isPrint [c] args = (if c \<noteq> CHR ''%'' \<and> args = [] then Some [c] else None)"
| "Sprintf isPrint (c # v # fmt) args =
     (if c \<noteq> CHR ''%'' then map_option (Cons c) (Sprintf isPrint (v # fmt) args)
      else if v = CHR ''%'' then map_option (Cons v) (Sprintf isPrint fmt args)
      else (case args of
              [] \<Rightarrow> None
            | a # as \<Rightarrow>
                (case verbText isPrint v a of
                   None \<Rightarrow> None
                 | Some t \<Rightarrow> map_option ((@) t) (Sprintf isPrint fmt as))))"

section \<open>Lemmas\<close>

text \<open>The verbs of a format, and which fit an argument.\<close>

fun verbs :: "string \<Rightarrow> char list option" where
  "verbs [] = Some []"
| "verbs [c] = (if c = CHR ''%'' then None else Some [])"
| "verbs (c # v # fmt) =
     (if c \<noteq> CHR ''%'' then verbs (v # fmt)
      else if v = CHR ''%'' then verbs fmt
      else map_option (Cons v) (verbs fmt))"

fun fits :: "char \<Rightarrow> log_arg \<Rightarrow> bool" where
  "fits v (ArgStr s) \<longleftrightarrow> v \<in> {CHR ''s'', CHR ''v'', CHR ''q''}"
| "fits v (ArgInt n) \<longleftrightarrow> v \<in> {CHR ''d'', CHR ''v''}"
| "fits v (ArgErr e) \<longleftrightarrow> v \<in> {CHR ''s'', CHR ''v'', CHR ''q''}"
| "fits v (ArgDur d) \<longleftrightarrow> v \<in> {CHR ''s'', CHR ''v'', CHR ''d''}"

lemma verbText_fits: "verbText isPrint v a \<noteq> None \<longleftrightarrow> fits v a"
  by (cases a) (auto simp: verbText_def)

text \<open>\<open>Sprintf\<close> gives a text exactly when the arguments match the verbs one by one.\<close>

lemma Sprintf_defined:
  "Sprintf isPrint fmt args \<noteq> None \<longleftrightarrow> (case verbs fmt of None \<Rightarrow> False | Some vs \<Rightarrow> list_all2 fits vs args)"
proof (induction isPrint fmt args rule: Sprintf.induct)
  case (3 isPrint c v fmt args)
  show ?case
  proof (cases "c = CHR ''%'' \<and> v \<noteq> CHR ''%''")
    case True
    show ?thesis
    proof (cases args)
      case Nil
      with True show ?thesis by (simp split: option.split)
    next
      case (Cons a as)
      with True "3.IH"(3)[of a as] verbText_fits[of isPrint v a] show ?thesis
        by (cases "verbText isPrint v a"; cases "verbs fmt") auto
    qed
  next
    case False
    with 3 show ?thesis by (cases "c = CHR ''%''") simp_all
  qed
qed auto

end
