(* ===== verification/LogCalls.thy ===== *)
theory LogCalls
  imports BrokerRuns GoFmt
begin

text \<open>
  What the operations write to their \<^verbatim>\<open>Logger\<close> (the interface of \<^verbatim>\<open>src/log.go\<close>). A log call is its
  level, its format and its arguments. For every operation on the path of a broker callback, of
  a fanout delivery and of a publisher's worker, \<open>..._log\<close> is the list of log calls the operation
  makes, in their order; the operation itself is the definition of the same name in the theory
  of its component. \<open>render\<close> is the function that turns a call into a text; it is arbitrary here,
  since what this theory shows holds for all of them, and \<open>Sprintf\<close> in LogText.
\<close>

section \<open>Definitions\<close>

type_synonym log_call = "LogLevel \<times> string \<times> log_arg list"

subsection \<open>Loggers\<close>

datatype Logger = NopLogger | StderrLogger stderrLogger

text \<open>The logger of a runtime: a nil \<open>Log\<close> is replaced by the one that discards everything.\<close>

definition runtime_logger :: "Logger option \<Rightarrow> Logger" where
  "runtime_logger l = (case l of None \<Rightarrow> NopLogger | Some lg \<Rightarrow> lg)"

fun Logger_call :: "(string \<Rightarrow> log_arg list \<Rightarrow> string) \<Rightarrow> time \<Rightarrow> log_call \<Rightarrow> Logger \<Rightarrow> Logger" where
  "Logger_call render now (level, fmt, args) NopLogger = NopLogger"
| "Logger_call render now (level, fmt, args) (StderrLogger l) = StderrLogger (log_at level now (render fmt args) l)"

subsection \<open>The store\<close>

abbreviation short :: "string \<Rightarrow> log_arg" where
  "short s \<equiv> ArgStr (Logging.truncate s 64)"

definition readL1_log :: "'db store_env \<Rightarrow> 'db TieredAuthStore \<Rightarrow> string \<Rightarrow> log_call list" where
  "readL1_log env s assetUUID =
     (case pebbleDB s of
        None \<Rightarrow> []
      | Some db \<Rightarrow>
          (case pb_Get (se_pebble env) db assetUUID of
             Inl PebbleNotFound \<Rightarrow> []
           | Inl (PebbleFailure e) \<Rightarrow>
               [(LogWarn, ''auth_store: L1 read error assetUUID=%s err=%v'', [short assetUUID, ArgErr (ErrText e)])]
           | Inr value \<Rightarrow>
               (case json_Unmarshal (decodePebbleEntry (se_timeParse env)) zero_pebbleEntry value of
                  Inl err \<Rightarrow>
                    [(LogWarn, ''auth_store: L1 decode failed assetUUID=%s err=%v'', [short assetUUID, ArgErr err])]
                | Inr pe \<Rightarrow> [])))"

definition writeL1_log ::
    "'db store_env \<Rightarrow> 'db TieredAuthStore \<Rightarrow> string \<Rightarrow> AuthEntry option \<Rightarrow> log_call list" where
  "writeL1_log env s assetUUID entry =
     (case (pebbleDB s, entry) of
        (Some db, Some e) \<Rightarrow>
          (case marshalPebbleEntry \<lparr>pe_Entry = e, pe_CachedAt = se_writeNow env\<rparr> of
             Inl err \<Rightarrow>
               [(LogWarn, ''auth_store: L1 marshal failed assetUUID=%s err=%v'', [short assetUUID, ArgErr err])]
           | Inr data \<Rightarrow>
               (case snd (pb_Set (se_pebble env) db assetUUID data) of
                  None \<Rightarrow> []
                | Some err \<Rightarrow>
                    [(LogWarn, ''auth_store: L1 write failed assetUUID=%s err=%v'',
                      [short assetUUID, ArgErr (ErrText err)])]))
      | _ \<Rightarrow> [])"

definition LookupEntry_log :: "http_env \<Rightarrow> AuthClient \<Rightarrow> string \<Rightarrow> log_call list" where
  "LookupEntry_log env a assetUUID =
     (if assetUUID = '''' then []
      else
        let req = lookupRequest a assetUUID in
        case newRequestError env (rq_url req) of
          Some e \<Rightarrow> []
        | None \<Rightarrow>
            (case http_Do env req of
               TransportError e \<Rightarrow>
                 [(LogWarn, ''auth lookup failed assetUUID=%s err=%v'', [short assetUUID, ArgErr (ErrText e)])]
             | Response status body \<Rightarrow>
                 if status = 200 \<or> status = 404 then []
                 else [(LogWarn, ''auth lookup unexpected status assetUUID=%s status=%d'',
                        [short assetUUID, ArgInt status])]))"

definition readL3_log :: "'db store_env \<Rightarrow> 'db TieredAuthStore \<Rightarrow> string \<Rightarrow> log_call list" where
  "readL3_log env s assetUUID =
     (case L3Client (ts_cfg s) of None \<Rightarrow> [] | Some client \<Rightarrow> LookupEntry_log (se_http env) client assetUUID)"

definition getFromL3_log :: "'db store_env \<Rightarrow> 'db TieredAuthStore \<Rightarrow> string \<Rightarrow> log_call list" where
  "getFromL3_log env s assetUUID =
     readL3_log env s assetUUID @
     (case readL3 env s assetUUID of
        (s, Inl err) \<Rightarrow>
          if errors_Is err ErrAuthEntryNotFound
          then [(LogInfo, ''auth_store: L3 not_found assetUUID=%s decision=deny'', [short assetUUID])]
          else [(LogWarn, ''auth_store: L3 unavailable assetUUID=%s err=%v decision=fail_closed'',
                 [short assetUUID, ArgErr err])]
      | (s, Inr None) \<Rightarrow> []
      | (s, Inr (Some entry)) \<Rightarrow>
          writeL1_log env s assetUUID (Some entry) @
          [(LogInfo, ''auth_store: L3 hit assetUUID=%s orgId=%s warmed=L1 self_healed=true'',
            [short assetUUID, ArgStr (OrgId entry)])])"

definition store_Get_log :: "'db store_env \<Rightarrow> 'db TieredAuthStore \<Rightarrow> string \<Rightarrow> log_call list" where
  "store_Get_log env s assetUUID =
     (if assetUUID = '''' then []
      else
        readL1_log env s assetUUID @
        (case readL1 env s assetUUID of
           Some entry \<Rightarrow>
             [(LogInfo, ''auth_store: L1 hit assetUUID=%s orgId=%s'', [short assetUUID, ArgStr (OrgId entry)])]
         | None \<Rightarrow>
             (case readL2 env s assetUUID of
                Inr (Some entry) \<Rightarrow>
                  writeL1_log env s assetUUID (Some entry) @
                  [(LogInfo, ''auth_store: L2 hit assetUUID=%s orgId=%s warmed=L1'',
                    [short assetUUID, ArgStr (OrgId entry)])]
              | Inr None \<Rightarrow>
                  (LogInfo, ''auth_store: L2 miss assetUUID=%s falling_back=L3'', [short assetUUID])
                  # getFromL3_log env s assetUUID
              | Inl err \<Rightarrow>
                  (LogWarn, ''auth_store: L2 read failed assetUUID=%s err=%v falling_back=L3'',
                   [short assetUUID, ArgErr err])
                  # getFromL3_log env s assetUUID)))"

definition store_Invalidate_log :: "'db store_env \<Rightarrow> 'db TieredAuthStore \<Rightarrow> string \<Rightarrow> log_call list" where
  "store_Invalidate_log env s assetUUID =
     (case pebbleDB s of
        None \<Rightarrow> []
      | Some db \<Rightarrow>
          if assetUUID = '''' then []
          else (case snd (pb_Delete (se_pebble env) db assetUUID) of
                  Some err \<Rightarrow>
                    [(LogWarn, ''auth_store: invalidate L1 failed assetUUID=%s err=%v'',
                      [short assetUUID, ArgErr (ErrText err)])]
                | None \<Rightarrow>
                    [(LogInfo, ''auth_store: invalidated L1 assetUUID=%s next_read=L2'', [short assetUUID])]))"

subsection \<open>The runtime\<close>

definition Enqueue_log :: "string \<Rightarrow> AsyncPublisher \<Rightarrow> log_call list" where
  "Enqueue_log subject p =
     (if \<not> started p
      then [(LogWarn, ''Enqueue called before Start; dropping subject=%s'', [ArgStr subject])] else [])"

definition publish_log :: "string \<Rightarrow> bytes result \<Rightarrow> 's PluginRuntime \<Rightarrow> log_call list" where
  "publish_log subject data r =
     (case data of
        Inl err \<Rightarrow> [(LogError, ''marshal failure: subject=%s err=%v'', [ArgStr subject, ArgErr err])]
      | Inr d \<Rightarrow> Enqueue_log subject (rt_Async r))"

definition PublishConnect_log ::
    "string \<Rightarrow> string \<Rightarrow> string \<Rightarrow> string \<Rightarrow> time \<Rightarrow> 's PluginRuntime \<Rightarrow> log_call list" where
  "PublishConnect_log orgID assetUUID clientID sourceIP ts r =
     (LogDebug, ''connect: org=%s asset=%s client=%s ip=%s'',
      [short orgID, short assetUUID, short clientID, ArgStr sourceIP])
     # publish_log (SubjectPresence (rt_Config r))
         (marshalPresence
            \<lparr>pa_Event = EventConnect, pa_OrgID = orgID, pa_AssetUUID = assetUUID, pa_ClientID = clientID,
             pa_SourceIP = sourceIP, pa_Timestamp = ts, pa_ReasonCode = 0, pa_ReasonText = ''''\<rparr>) r"

definition PublishDisconnect_log ::
    "string \<Rightarrow> string \<Rightarrow> string \<Rightarrow> string \<Rightarrow> int \<Rightarrow> time \<Rightarrow> 's PluginRuntime \<Rightarrow> log_call list" where
  "PublishDisconnect_log orgID assetUUID clientID sourceIP reasonCode ts r =
     (let reason = MapDisconnectReason reasonCode in
      (LogDebug, ''disconnect: org=%s asset=%s client=%s reason=%s code=%d'',
       [short orgID, short assetUUID, short clientID, ArgStr reason, ArgInt reasonCode])
      # publish_log (SubjectPresence (rt_Config r))
          (marshalPresence
             \<lparr>pa_Event = EventDisconnect, pa_OrgID = orgID, pa_AssetUUID = assetUUID, pa_ClientID = clientID,
              pa_SourceIP = sourceIP, pa_Timestamp = ts, pa_ReasonCode = reasonCode, pa_ReasonText = reason\<rparr>) r)"

definition PublishIngress_log ::
    "string \<Rightarrow> string \<Rightarrow> string \<Rightarrow> string \<Rightarrow> bytes option \<Rightarrow> int \<Rightarrow> bool \<Rightarrow> time \<Rightarrow> 's PluginRuntime \<Rightarrow> log_call list" where
  "PublishIngress_log orgID assetUUID clientID topic payload qos retain ts r =
     (let size = (case payload of None \<Rightarrow> 0 | Some b \<Rightarrow> length b) in
      if \<not> validSubjectToken orgID \<or> \<not> validSubjectToken assetUUID
      then [(LogWarn, ''ingress dropped: invalid subject token org=%q asset=%q topic=%s'',
             [short orgID, short assetUUID, ArgStr (Logging.truncate topic 128)])]
      else if MaxIngressPayloadBytes < size
      then [(LogWarn, ''ingress dropped: payload too large org=%s asset=%s topic=%s size=%d max=%d'',
             [short orgID, short assetUUID, ArgStr (Logging.truncate topic 128), ArgInt (int size),
              ArgInt (int MaxIngressPayloadBytes)])]
      else publish_log (ingressSubject (rt_Config r) orgID assetUUID)
             (marshalIngress
                \<lparr>im_OrgID = orgID, im_AssetUUID = assetUUID, im_ClientID = clientID, im_Topic = topic,
                 im_Payload = payload, im_QoS = qos, im_Retain = retain, im_Timestamp = ts\<rparr>) r)"

text \<open>The part of \<open>Authenticate\<close> that has an entry.\<close>

definition credential_log ::
    "(string \<Rightarrow> string \<Rightarrow> bool) \<Rightarrow> (rune \<Rightarrow> rune \<Rightarrow> bool) \<Rightarrow> string \<Rightarrow> string \<Rightarrow> string \<Rightarrow> bool \<Rightarrow> AuthEntry \<Rightarrow> log_call" where
  "credential_log bcrypt sf username password certSerial auth entry =
     (if \<not> Enabled entry then (LogDebug, ''auth deny: asset disabled user=%s'', [short username])
      else if AuthType entry = AuthTypeCert then
        (if certSerial = ''''
         then (LogDebug, ''auth deny: cert-mode asset reached on plaintext listener user=%s'', [short username])
         else if AuthorizesCertSerial sf (Some entry) certSerial
         then (LogDebug, ''auth allow: cert user=%s serial=%s'',
               [short username, ArgStr (Logging.truncate certSerial 32)])
         else (LogDebug, ''auth deny: cert serial not in active list user=%s serial=%s'',
               [short username, ArgStr (Logging.truncate certSerial 32)]))
      else if AuthType entry = AuthTypePassword then
        (if certSerial \<noteq> ''''
         then (LogDebug, ''auth deny: password-mode asset presented a cert user=%s'', [short username])
         else if \<not> AuthorizesPassword (Some entry)
         then (LogDebug, ''auth deny: no password configured user=%s'', [short username])
         else if \<not> auth
         then (LogError, ''authenticate cannot bcrypt: no AuthClient (legacy path)'', [])
         else if CompareLocal bcrypt (PasswordHash entry) password
         then (LogDebug, ''auth allow: password user=%s'', [short username])
         else (LogDebug, ''auth deny: password mismatch user=%s'', [short username]))
      else (LogWarn, ''auth deny: asset has unknown authType=%q user=%s'',
            [ArgStr (AuthType entry), short username]))"

text \<open>\<open>get_log\<close> is the log of the store's \<open>Get\<close>.\<close>

definition Authenticate_log ::
    "('s \<Rightarrow> string \<Rightarrow> 's \<times> AuthEntry option result) \<Rightarrow> ('s \<Rightarrow> string \<Rightarrow> log_call list) \<Rightarrow>
     (string \<Rightarrow> string \<Rightarrow> bool) \<Rightarrow> (rune \<Rightarrow> rune \<Rightarrow> bool) \<Rightarrow>
     string \<Rightarrow> string \<Rightarrow> string \<Rightarrow> 's PluginRuntime \<Rightarrow> log_call list" where
  "Authenticate_log get get_log bcrypt sf username password certSerial r =
     (case ResolveUsername username of
        None \<Rightarrow> [(LogDebug, ''auth deny: malformed username user=%s'', [short username])]
      | Some assetUUID \<Rightarrow>
          (case rt_Store r of
             None \<Rightarrow> [(LogError, ''authenticate called without an auth store configured'', [])]
           | Some store \<Rightarrow>
               get_log store assetUUID @
               (case snd (get store assetUUID) of
                  Inl err \<Rightarrow>
                    if errIs err ErrAuthEntryNotFound
                    then [(LogDebug, ''auth deny: entry not found user=%s'', [short username])]
                    else [(LogWarn, ''auth error: store unavailable user=%s err=%v'', [short username, ArgErr err])]
                | Inr None \<Rightarrow> []
                | Inr (Some entry) \<Rightarrow>
                    [credential_log bcrypt sf username password certSerial (rt_Auth r) entry])))"

subsection \<open>The callbacks\<close>

definition goOnBasicAuth_log ::
    "'db call_env \<Rightarrow> auth_event option \<Rightarrow> 'db plugin_process \<Rightarrow> log_call list" where
  "goOnBasicAuth_log env eventData p =
     (case (runtime p, eventData) of
        (Some rt, Some ed) \<Rightarrow>
          let password = GoString (ae_password ed);
              clientID = GoString (ae_clientID ed);
              sourceIP = GoString (ae_address ed);
              certSerial = getClientCertSerial ed;
              username = auth_username ed;
              senv = ce_store env (contextWithTimeout (AuthTimeout (rt_Config rt)))
          in Authenticate_log (store_Get senv) (store_Get_log senv) (ce_bcrypt env) (ce_sf env)
               username password certSerial rt @
             (case Authenticate (store_Get senv) (ce_bcrypt env) (ce_sf env)
                     username password clientID certSerial rt of
                Inr (rt, AuthAllow) \<Rightarrow>
                  (case LookupSession clientID rt of
                     Some info \<Rightarrow>
                       PublishConnect_log (si_OrgID info) (si_AssetUUID info) clientID sourceIP (ce_now env) rt
                   | None \<Rightarrow> [])
              | _ \<Rightarrow> [])
      | _ \<Rightarrow> [])"

definition goOnDisconnect_log ::
    "'db call_env \<Rightarrow> disconnect_event option \<Rightarrow> 'db plugin_process \<Rightarrow> log_call list" where
  "goOnDisconnect_log env eventData p =
     (case (runtime p, eventData) of
        (Some rt, Some ed) \<Rightarrow>
          let clientID = GoString (de_clientID ed); sourceIP = GoString (de_address ed) in
          (case LookupSession clientID rt of
             None \<Rightarrow> []
           | Some info \<Rightarrow>
               PublishDisconnect_log (si_OrgID info) (si_AssetUUID info) clientID sourceIP (de_reason ed) (ce_now env) rt)
      | _ \<Rightarrow> [])"

definition goOnMessage_log ::
    "'db call_env \<Rightarrow> message_event option \<Rightarrow> 'db plugin_process \<Rightarrow> log_call list" where
  "goOnMessage_log env eventData p =
     (case (runtime p, eventData) of
        (Some rt, Some ed) \<Rightarrow>
          let clientID = GoString (me_clientID ed); topic = GoString (me_topic ed) in
          (case LookupSession clientID rt of
             None \<Rightarrow> []
           | Some info \<Rightarrow>
               PublishIngress_log (si_OrgID info) (si_AssetUUID info) clientID topic (Some (me_payload ed))
                 (me_qos ed) (me_retain ed) (ce_now env) rt)
      | _ \<Rightarrow> [])"

subsection \<open>Background work\<close>

definition fanout_handle_log ::
    "('s \<Rightarrow> string \<Rightarrow> 's \<times> go_error option) \<Rightarrow> ('s \<Rightarrow> string \<Rightarrow> log_call list) \<Rightarrow> bytes \<Rightarrow> 's \<Rightarrow> log_call list" where
  "fanout_handle_log invalidate invalidate_log data store =
     (case json_Unmarshal decodeFanoutPayload '''' data of
        Inl err \<Rightarrow> [(LogWarn, ''fanout: malformed payload err=%v'', [ArgErr err])]
      | Inr assetUUID \<Rightarrow>
          if assetUUID = '''' then [(LogWarn, ''fanout: empty assetUUID, dropping'', [])]
          else invalidate_log store assetUUID @
               (case snd (invalidate store assetUUID) of
                  Some err \<Rightarrow>
                    [(LogWarn, ''fanout: invalidate failed assetUUID=%s err=%v'', [short assetUUID, ArgErr err])]
                | None \<Rightarrow> [(LogDebug, ''fanout: invalidated assetUUID=%s'', [short assetUUID])]))"

text \<open>\<open>size\<close> is the length of the job's data.\<close>

definition publishOne_log :: "publishJob \<Rightarrow> pub_outcome \<Rightarrow> log_call list" where
  "publishOne_log job out =
     (case out of
        PubOk \<Rightarrow> []
      | PubErr e \<Rightarrow> [(LogWarn, ''publish failed: subject=%s err=%v size=%d'',
                     [ArgStr (job_subject job), ArgErr (ErrText e), ArgInt (int (length (job_data job)))])]
      | PubPanic e \<Rightarrow> [(LogError, ''publish panic recovered: subject=%s err=%v'',
                       [ArgStr (job_subject job), ArgErr (ErrText e)])])"

section \<open>Lemmas\<close>

subsection \<open>The logger interface\<close>

text \<open>What every logger does with a call: it writes one line or none, and which calls it shows does
  not change.\<close>

locale logger =
  fixes call :: "'c \<Rightarrow> 'l \<Rightarrow> 'l"
    and written :: "'l \<Rightarrow> string list"
    and shows_call :: "'l \<Rightarrow> 'c \<Rightarrow> bool"
    and line :: "'c \<Rightarrow> string"
  assumes written_call: "written (call c l) = written l @ (if shows_call l c then [line c] else [])"
    and shows_stable: "shows_call (call c l) = shows_call l"
begin

lemma written_calls: "written (fold call cs l) = written l @ map line (filter (shows_call l) cs)"
  by (induction cs arbitrary: l) (auto simp: written_call shows_stable)

end

fun Logger_lines :: "Logger \<Rightarrow> string list" where
  "Logger_lines NopLogger = []"
| "Logger_lines (StderrLogger l) = lg_lines l"

fun Logger_shows :: "Logger \<Rightarrow> log_call \<Rightarrow> bool" where
  "Logger_shows NopLogger c \<longleftrightarrow> False"
| "Logger_shows (StderrLogger l) (level, _) \<longleftrightarrow> minLevel l \<le> level"

definition call_line :: "(string \<Rightarrow> log_arg list \<Rightarrow> string) \<Rightarrow> time \<Rightarrow> log_call \<Rightarrow> string" where
  "call_line render now c =
     (case c of (level, fmt, args) \<Rightarrow>
        timestamp now @ '' '' @ level_label level @ '' [PLUGIN:Mosquitto] '' @ render fmt args @ [CHR 0x0A])"

interpretation plugin_log: logger "Logger_call render now" Logger_lines Logger_shows "call_line render now"
  for render now
proof
  fix c :: log_call and l
  obtain level fmt args where c: "c = (level, fmt, args)" by (metis prod_cases3)
  show "Logger_lines (Logger_call render now c l) =
      Logger_lines l @ (if Logger_shows l c then [call_line render now c] else [])"
    by (cases l) (auto simp: c log_at_line call_line_def not_less)
  show "Logger_shows (Logger_call render now c l) = Logger_shows l"
    by (cases l) (auto simp: c log_at_line fun_eq_iff)
qed

text \<open>The calls at a level or above it.\<close>

definition at_level :: "LogLevel \<Rightarrow> log_call list \<Rightarrow> log_call list" where
  "at_level level cs = filter (\<lambda>c. level \<le> fst c) cs"

lemma at_level_append [simp]: "at_level level (cs @ ds) = at_level level cs @ at_level level ds"
  by (simp add: at_level_def)

lemma LogLevel_order [simp]:
  "\<not> LogInfo \<le> LogDebug" "LogInfo \<le> LogInfo" "LogInfo \<le> LogWarn" "LogInfo \<le> LogError"
  "LogWarn \<le> LogError" "\<not> LogWarn \<le> LogInfo" "\<not> LogWarn \<le> LogDebug"
  by (simp_all add: less_eq_LogLevel_def)

lemma stderr_lines:
  "Logger_lines (fold (Logger_call render now) cs (StderrLogger (NewLogger level))) =
     map (call_line render now) (at_level level cs)"
proof -
  have "Logger_shows (StderrLogger (NewLogger level)) = (\<lambda>c. level \<le> fst c)"
    by (auto simp: NewLogger_def fun_eq_iff)
  then show ?thesis by (simp add: plugin_log.written_calls at_level_def NewLogger_def)
qed

subsection \<open>The log of a CONNECT\<close>

lemma PublishConnect_quiet:
  assumes "started (rt_Async r)" "MarshalTime ts \<noteq> None"
  shows "at_level LogInfo (PublishConnect_log orgID assetUUID clientID sourceIP ts r) = []"
  using assms by (auto simp: PublishConnect_log_def publish_log_def Enqueue_log_def marshalPresence_def at_level_def
      split: option.splits)

lemma credential_log_password:
  "at_level LogInfo [credential_log bcrypt sf username pw certSerial auth e] =
   at_level LogInfo [credential_log bcrypt sf username pw' certSerial auth e]"
  by (simp add: credential_log_def at_level_def)

lemma Authenticate_log_password:
  "at_level LogInfo (Authenticate_log get get_log bcrypt sf username pw certSerial r) =
   at_level LogInfo (Authenticate_log get get_log bcrypt sf username pw' certSerial r)"
proof (cases "ResolveUsername username")
  case user: (Some k)
  show ?thesis
  proof (cases "rt_Store r")
    case store: (Some s)
    then show ?thesis using user credential_log_password[of bcrypt sf username pw certSerial "rt_Auth r" _ pw']
      by (cases "snd (get s k)") (auto simp: Authenticate_log_def split: option.split)
  qed (simp add: Authenticate_log_def user)
qed (simp add: Authenticate_log_def)

lemma connect_log_quiet:
  assumes "runtime_ready rt" "MarshalTime (ce_now env) \<noteq> None" "runtime p = Some rt"
  shows "at_level LogInfo (goOnBasicAuth_log env (Some ed) p) =
    at_level LogInfo (Authenticate_log
      (store_Get (ce_store env (contextWithTimeout (AuthTimeout (rt_Config rt)))))
      (store_Get_log (ce_store env (contextWithTimeout (AuthTimeout (rt_Config rt)))))
      (ce_bcrypt env) (ce_sf env) (auth_username ed) (GoString (ae_password ed)) (getClientCertSerial ed) rt)"
proof -
  let ?senv = "ce_store env (contextWithTimeout (AuthTimeout (rt_Config rt)))"
  let ?auth = "Authenticate (store_Get ?senv) (ce_bcrypt env) (ce_sf env) (auth_username ed)
      (GoString (ae_password ed)) (GoString (ae_clientID ed)) (getClientCertSerial ed) rt"
  obtain rt1 res where auth: "?auth = Inr (rt1, res)" using tiered.Authenticate_total by blast
  have "started (rt_Async rt1)" using Authenticate_ready[OF auth assms(1)] unfolding runtime_ready_def by metis
  from PublishConnect_quiet[OF this assms(2)] assms(3) auth show ?thesis
    by (auto simp: goOnBasicAuth_log_def Let_def at_level_def split: AuthResult.splits option.splits)
qed

lemma goOnBasicAuth_unknown:
  assumes "runtime p = Some rt" "goOnBasicAuth env (Some ed) p = Inr (p', MOSQ_ERR_UNKNOWN)"
  shows "\<exists>rt'. Authenticate (store_Get (ce_store env (contextWithTimeout (AuthTimeout (rt_Config rt)))))
      (ce_bcrypt env) (ce_sf env) (auth_username ed) (GoString (ae_password ed)) (GoString (ae_clientID ed))
      (getClientCertSerial ed) rt = Inr (rt', AuthError)"
  using assms by (auto simp: goOnBasicAuth_def Let_def split: sum.splits option.splits AuthResult.splits)

lemma AuthError_logged:
  assumes "Authenticate get bcrypt sf username password clientID certSerial r = Inr (r', AuthError)"
  shows "at_level LogWarn (Authenticate_log get get_log bcrypt sf username password certSerial r) \<noteq> []"
proof (cases "ResolveUsername username")
  case user: (Some k)
  show ?thesis
  proof (cases "rt_Store r")
    case None
    then show ?thesis using user by (simp add: Authenticate_log_def at_level_def)
  next
    case store: (Some s)
    obtain s' q where g: "get s k = (s', q)" by fastforce
    show ?thesis
    proof (cases q)
      case (Inl err)
      then show ?thesis using assms user store g
        by (auto simp: Authenticate_def Authenticate_log_def at_level_def errIs_def split: if_splits)
    next
      case (Inr o')
      with assms user store g obtain e where e: "q = Inr (Some e)" by (cases o') (auto simp: Authenticate_def)
      with assms user store g have "Enabled e" "AuthType e = ''password''" "certSerial = ''''" "PasswordHash e \<noteq> ''''" "\<not> rt_Auth r"
        using Authenticate_found[OF user store, of get s' e bcrypt sf password clientID certSerial]
        by (auto simp: Let_def split: if_splits)
      then have "credential_log bcrypt sf username password certSerial (rt_Auth r) e =
          (LogError, ''authenticate cannot bcrypt: no AuthClient (legacy path)'', [])"
        by (simp add: credential_log_def auth_types)
      then show ?thesis using user store g e by (simp add: Authenticate_log_def at_level_def)
    qed
  qed
qed (use assms in \<open>simp add: Authenticate_def\<close>)

text \<open>The example world with every layer below L1 down.\<close>

definition down_env :: "mem_db store_env" where
  "down_env = (demo_env 0)\<lparr>se_minio := (\<lambda>_ _. GetObjectError ''down''),
     se_http := \<lparr>newRequestError = (\<lambda>_. None), http_Do = (\<lambda>_. TransportError ''down'')\<rparr>\<rparr>"

lemma down_Get: "\<exists>s'. store_Get down_env demo_store ''a1'' = (s', Inl ErrAuthStoreUnavailable)"
  by (simp add: store_Get_def getFromL3_def readL1_def readL2_def readL3_def LookupEntry_def down_env_def
      demo_env_def demo_store_defs demo_client_def mem_api_def Let_def)

lemma down_unknown:
  "\<exists>p'. goOnBasicAuth (demo_call down_env) (Some demo_password_event) demo_process = Inr (p', MOSQ_ERR_UNKNOWN)"
proof -
  obtain s' where "store_Get down_env demo_store ''a1'' = (s', Inl ErrAuthStoreUnavailable)" using down_Get by blast
  moreover have "parseUsername ''a1'' = Some ''a1''" by (simp add: parseUsername_Some_iff)
  ultimately show ?thesis
    by (simp add: goOnBasicAuth_def demo_call_def Let_def auth_username_def getClientCertSerial_def
        demo_password_event_def Authenticate_def ResolveUsername_def demo_rt_def errIs_def)
qed

section \<open>Properties\<close>

text \<open>C24: The log does not tell passwords apart. On a ready runtime the lines that the plugin's logger,
  at its level INFO, writes for a CONNECT are the same whatever the password is, right or wrong:
  neither the password nor the outcome of its check appears in them.\<close>

theorem info_log_hides_password:
  assumes "runtime p = Some rt" "runtime_ready rt" "MarshalTime (ce_now env) \<noteq> None"
  shows "Logger_lines (fold (Logger_call render now) (goOnBasicAuth_log env (Some (ed\<lparr>ae_password := pw\<rparr>)) p)
           (StderrLogger (NewLogger LogInfo))) =
         Logger_lines (fold (Logger_call render now) (goOnBasicAuth_log env (Some (ed\<lparr>ae_password := pw'\<rparr>)) p)
           (StderrLogger (NewLogger LogInfo)))"
proof -
  have "auth_username (ed\<lparr>ae_password := w\<rparr>) = auth_username ed"
    "getClientCertSerial (ed\<lparr>ae_password := w\<rparr>) = getClientCertSerial ed" for w
    by (auto simp: auth_username_def getClientCertSerial_def getClientCertCN_def)
  then show ?thesis
    unfolding stderr_lines connect_log_quiet[OF assms(2,3,1)]
    using Authenticate_log_password by (metis (no_types, lifting))
qed

theorem info_log_hides_password_witness:
  "Logger_lines (fold (Logger_call (\<lambda>fmt _. fmt) 0) (goOnBasicAuth_log (demo_call (demo_env 0))
       (Some (demo_password_event\<lparr>ae_password := Some ''pw''\<rparr>)) demo_process) (StderrLogger (NewLogger LogInfo))) =
   Logger_lines (fold (Logger_call (\<lambda>fmt _. fmt) 0) (goOnBasicAuth_log (demo_call (demo_env 0))
       (Some (demo_password_event\<lparr>ae_password := Some ''xx''\<rparr>)) demo_process) (StderrLogger (NewLogger LogInfo)))"
proof (rule info_log_hides_password[OF demo_process_runtime demo_ready])
  show "MarshalTime (ce_now (demo_call (demo_env 0))) \<noteq> None" using MarshalTime_epoch by (auto simp: demo_call_def)
qed

text \<open>A CONNECT that is refused because the plugin cannot decide, and not because the credential is
  wrong, is visible to the operator: among the log calls of the callback is one at level WARN or
  above, which the plugin's logger shows.\<close>

theorem fail_closed_is_logged:
  assumes "runtime p = Some rt" "goOnBasicAuth env (Some ed) p = Inr (p', MOSQ_ERR_UNKNOWN)"
  shows "\<exists>c \<in> set (goOnBasicAuth_log env (Some ed) p). LogWarn \<le> fst c \<and>
    call_line render now c \<in> set (Logger_lines (fold (Logger_call render now)
      (goOnBasicAuth_log env (Some ed) p) (StderrLogger (NewLogger LogInfo))))"
proof -
  obtain rt' where "Authenticate (store_Get (ce_store env (contextWithTimeout (AuthTimeout (rt_Config rt)))))
      (ce_bcrypt env) (ce_sf env) (auth_username ed) (GoString (ae_password ed)) (GoString (ae_clientID ed))
      (getClientCertSerial ed) rt = Inr (rt', AuthError)"
    using goOnBasicAuth_unknown[OF assms] by blast
  from AuthError_logged[OF this, of "store_Get_log (ce_store env (contextWithTimeout (AuthTimeout (rt_Config rt))))"]
  obtain c where c: "c \<in> set (goOnBasicAuth_log env (Some ed) p)" "LogWarn \<le> fst c"
    using assms(1) by (auto simp: goOnBasicAuth_log_def Let_def at_level_def filter_empty_conv)
  moreover from this(2) have "LogInfo \<le> fst c" by (cases "fst c") (simp_all add: less_eq_LogLevel_def)
  ultimately show ?thesis unfolding stderr_lines at_level_def by auto
qed

theorem fail_closed_is_logged_witness:
  "\<exists>c \<in> set (goOnBasicAuth_log (demo_call down_env) (Some demo_password_event) demo_process). LogWarn \<le> fst c"
proof -
  obtain p' where "goOnBasicAuth (demo_call down_env) (Some demo_password_event) demo_process = Inr (p', MOSQ_ERR_UNKNOWN)"
    using down_unknown by blast
  from fail_closed_is_logged[OF demo_process_runtime this] show ?thesis by blast
qed

text \<open>No device message is lost in silence, but for a full queue. On a ready runtime, a message of a
  client with a session that puts no job into the queue either is logged at level WARN or above,
  or the queue was full.\<close>

theorem dropped_message_is_logged:
  assumes "runtime p = Some rt" "runtime_ready rt" "LookupSession (GoString (me_clientID m)) rt = Some info"
    and "goOnMessage env (Some m) p = Inr (p', rc)" "runtime p' = Some rt'" "queue (rt_Async rt') = queue (rt_Async rt)"
  shows "(\<exists>c \<in> set (goOnMessage_log env (Some m) p). LogWarn \<le> fst c) \<or>
    length (queue (rt_Async rt)) = queue_cap (rt_Async rt)"
proof -
  have ok: "started (rt_Async rt)" "\<not> closed (rt_Async rt)" "length (queue (rt_Async rt)) \<le> queue_cap (rt_Async rt)"
    "chan_closed (rt_Async rt) = closed (rt_Async rt)"
    using assms(2) by (auto simp: runtime_ready_def publisher_ok_def)
  show ?thesis
  proof (rule ccontr)
    assume no: "\<not> ?thesis"
    let ?msg = "\<lparr>im_OrgID = si_OrgID info, im_AssetUUID = si_AssetUUID info, im_ClientID = GoString (me_clientID m),
      im_Topic = GoString (me_topic m), im_Payload = Some (me_payload m), im_QoS = me_qos m, im_Retain = me_retain m,
      im_Timestamp = ce_now env\<rparr>"
    from no assms(1,3) have tok: "validSubjectToken (si_OrgID info)" "validSubjectToken (si_AssetUUID info)"
      "length (me_payload m) \<le> MaxIngressPayloadBytes"
      by (auto simp: goOnMessage_log_def PublishIngress_log_def Let_def split: if_splits)
    with no assms(1,3) obtain d where d: "marshalIngress ?msg = Inr d"
      by (cases "marshalIngress ?msg") (auto simp: goOnMessage_log_def PublishIngress_log_def publish_log_def Let_def not_less)
    from no ok have "length (queue (rt_Async rt)) < queue_cap (rt_Async rt)" by simp
    with tok d ok assms(1,3-5) have "queue (rt_Async rt') \<noteq> queue (rt_Async rt)"
      by (auto simp: goOnMessage_def PublishIngress_def queue_defs Let_def not_less)
    with assms(6) show False by simp
  qed
qed

theorem dropped_message_is_logged_witness:
  "\<exists>c \<in> set (goOnMessage_log (demo_call (demo_env 0))
      (Some \<lparr>me_clientID = Some ''c1'', me_topic = Some ''t'', me_payload = ''hi'', me_qos = 0, me_retain = False\<rparr>)
      (demo_process\<lparr>runtime := Some (demo_rt\<lparr>sessions := [''c1'' \<mapsto> \<lparr>si_OrgID = ''o1'', si_AssetUUID = ''a.1''\<rparr>]\<rparr>)\<rparr>)).
     LogWarn \<le> fst c"
proof -
  let ?m = "\<lparr>me_clientID = Some ''c1'', me_topic = Some ''t'', me_payload = ''hi'', me_qos = 0, me_retain = False\<rparr>"
  let ?info = "\<lparr>si_OrgID = ''o1'', si_AssetUUID = ''a.1''\<rparr>"
  let ?rt = "demo_rt\<lparr>sessions := [''c1'' \<mapsto> ?info]\<rparr>"
  let ?p = "demo_process\<lparr>runtime := Some ?rt\<rparr>"
  have rt: "runtime ?p = Some ?rt" by simp
  have ready: "runtime_ready ?rt" using demo_ready by simp
  have ses: "LookupSession (GoString (me_clientID ?m)) ?rt = Some ?info" by (simp add: LookupSession_def)
  have "\<not> validSubjectToken ''a.1''" by (simp add: validSubjectToken_iff)
  then have go: "goOnMessage (demo_call (demo_env 0)) (Some ?m) ?p = Inr (?p\<lparr>runtime := Some (count_dropped ?rt)\<rparr>, MOSQ_ERR_SUCCESS)"
    by (simp add: goOnMessage_def LookupSession_def PublishIngress_def Let_def)
  have run: "runtime (?p\<lparr>runtime := Some (count_dropped ?rt)\<rparr>) = Some (count_dropped ?rt)"
    "queue (rt_Async (count_dropped ?rt)) = queue (rt_Async ?rt)" by (simp_all add: count_dropped_def)
  from dropped_message_is_logged[OF rt ready ses go run] show ?thesis
    by (simp add: demo_rt_def demo_publisher_def)
qed

end
