(* ===== verification/LogLifecycle.thy ===== *)
theory LogLifecycle
  imports LogCalls
begin

text \<open>
  The log calls of the plugin's life cycle, from \<^verbatim>\<open>mosquitto_plugin_init\<close> in \<^verbatim>\<open>src/plugin/main.go\<close>
  down to the constructors, and of clean-up. As in the theory of the callbacks' log, each \<open>..._log\<close>
  is the list of calls of the operation of that name. \<open>server\<close> is what \<^verbatim>\<open>nc.ConnectedUrl()\<close> answers.
\<close>

section \<open>Definitions\<close>

definition Start_log :: "AsyncPublisher \<Rightarrow> log_call list" where
  "Start_log p =
     (case Start p of
        Inl e \<Rightarrow> []
      | Inr q \<Rightarrow> [(LogInfo, ''AsyncPublisher started: workers=%d buffer=%d'',
             [ArgInt (int (ap_workers p)), ArgInt (int (queue_cap p))])])"

text \<open>The counters in the line of a completed drain are those at its end.\<close>

definition Drain_log ::
    "(publishJob \<Rightarrow> pub_outcome) \<Rightarrow> bool \<Rightarrow> duration \<Rightarrow> AsyncPublisher \<Rightarrow> log_call list" where
  "Drain_log pub in_time timeout p =
     (if closed p then []
      else if in_time
      then (case Drain pub in_time p of
              Inl e \<Rightarrow> []
            | Inr (q, _) \<Rightarrow>
                [(LogInfo, ''AsyncPublisher drained: enqueued=%d published=%d dropped=%d publish_errors=%d panics=%d'',
                  map (\<lambda>n. ArgInt (int (unat n))) [enqueued q, published q, dropped q, publishErr q, panics q])])
      else [(LogWarn, ''AsyncPublisher drain timeout=%s; %d workers may still be running'',
             [ArgDur timeout, ArgInt (int (ap_workers p))])])"

definition NewTieredAuthStore_log :: "'db store_env \<Rightarrow> TieredAuthStoreConfig \<Rightarrow> log_call list" where
  "NewTieredAuthStore_log env cfg =
     (if L3Client cfg = None then []
      else case (if L1Path cfg \<noteq> ''''
                 then (case pb_Open (se_pebble env) (L1Path cfg) of
                         Inl e \<Rightarrow> None
                       | Inr db \<Rightarrow> Some [(LogInfo, ''auth_store: L1 Pebble ready path=%s'', [ArgStr (L1Path cfg)])])
                 else Some []) of
             None \<Rightarrow> []
           | Some l1 \<Rightarrow>
               l1 @ (if L2Endpoint cfg \<noteq> ''''
                     then (case se_minioNew env (L2Endpoint cfg)
                                  \<lparr>mo_accessKey = L2AccessKey cfg, mo_secretKey = L2SecretKey cfg, mo_secure = L2UseSSL cfg\<rparr> of
                             Some e \<Rightarrow> []
                           | None \<Rightarrow> [(LogInfo, ''auth_store: L2 MinIO ready endpoint=%s bucket=%s'',
                                      [ArgStr (L2Endpoint cfg), ArgStr (L2Bucket cfg)])])
                     else []))"

definition fanout_Start_log :: "go_error option \<Rightarrow> FanoutConsumer \<Rightarrow> log_call list" where
  "fanout_Start_log subscribeErr c =
     (if fc_sub c \<or> fc_closed c \<or> subscribeErr \<noteq> None then []
      else [(LogInfo, ''fanout consumer started subject=%s'', [ArgStr (fc_subject c)])])"

definition fanout_Stop_log :: "go_error option \<Rightarrow> FanoutConsumer \<Rightarrow> log_call list" where
  "fanout_Stop_log drainErr c =
     (if fc_closed c \<or> \<not> fc_sub c then []
      else (case drainErr of
              Some err \<Rightarrow> [(LogWarn, ''fanout consumer drain failed: %v'', [ArgErr err])]
            | None \<Rightarrow> []) @
           [(LogInfo, ''fanout consumer stopped processed=%d dropped=%d'',
             [ArgInt (int (unat (fc_processed c))), ArgInt (int (unat (fc_dropped c)))])])"

definition ConnectNATS_log ::
    "(string \<Rightarrow> nats_options \<Rightarrow> go_error + 'c) \<Rightarrow> string \<Rightarrow> string \<Rightarrow> log_call list" where
  "ConnectNATS_log dial server url =
     (if url = '''' then []
      else case dial url nats_opts of
             Inl err \<Rightarrow> [(LogError, ''NATS initial connect failed url=%s err=%v'', [ArgStr url, ArgErr err])]
           | Inr nc \<Rightarrow> [(LogInfo, ''NATS connected url=%s server=%s'', [ArgStr url, ArgStr server])])"

definition startFanout_log :: "go_error option \<Rightarrow> string \<Rightarrow> log_call list" where
  "startFanout_log subscribeErr subject =
     (case NewFanoutConsumer False False subject of
        Inl err \<Rightarrow>
          [(LogWarn, ''BuildRuntime: fanout consumer init failed (continuing without): %v'', [ArgErr err])]
      | Inr fc \<Rightarrow>
          fanout_Start_log subscribeErr fc @
          (case snd (fanout_Start subscribeErr fc) of
             Some err \<Rightarrow>
               [(LogWarn, ''BuildRuntime: fanout consumer start failed (continuing without): %v'', [ArgErr err])]
           | None \<Rightarrow> []))"

definition BuildRuntime_log ::
    "'db store_env \<Rightarrow> go_error option \<Rightarrow> (publishJob \<Rightarrow> pub_outcome) \<Rightarrow> bool \<Rightarrow> RuntimeOptions \<Rightarrow> log_call list" where
  "BuildRuntime_log env subscribeErr pub in_time opts =
     (let cfg = ro_Config opts in
      if \<not> ro_Publisher opts then []
      else case NewAsyncPublisher False (BufferSize cfg) (WorkerPoolSize cfg) of
        Inl e \<Rightarrow> []
      | Inr (Inl err) \<Rightarrow> []
      | Inr (Inr async0) \<Rightarrow>
         Start_log async0 @
         (case Start async0 of
            Inl e \<Rightarrow> []
          | Inr async \<Rightarrow>
             (case NewAuthClient \<lparr>URL = AuthURL cfg, APIKey = AuthAPIKey cfg, Timeout = AuthTimeout cfg,
                                  MaxIdleConns = 0, IdleConnTimeout = 0\<rparr> of
                Inl err \<Rightarrow> Drain_log pub in_time ShutdownTimeout async
              | Inr authClient \<Rightarrow>
                  let scfg = \<lparr>L1Path = CacheL1Path cfg, L2Endpoint = CacheL2Endpoint cfg,
                              L2AccessKey = CacheL2AccessKey cfg, L2SecretKey = CacheL2SecretKey cfg,
                              L2Bucket = CacheL2Bucket cfg, L2UseSSL = CacheL2UseSSL cfg,
                              L3Client = Some authClient, L1TTL = CacheL1TTL cfg\<rparr>
                  in NewTieredAuthStore_log env scfg @
                     (case NewTieredAuthStore env scfg of
                        Inl err \<Rightarrow> Drain_log pub in_time ShutdownTimeout async
                      | Inr store \<Rightarrow>
                          (if ro_NatsConn opts then startFanout_log subscribeErr (FanoutInvalidateSubject cfg) else []) @
                          [(LogInfo, ''PluginRuntime initialized: presence=%s ingress_prefix=%s auth_url=%s l1=%s l2=%s'',
                            map ArgStr [SubjectPresence cfg, SubjectIngressPrefix cfg, AuthURL cfg, CacheL1Path cfg,
                                        CacheL2Endpoint cfg])]))))"

text \<open>The integer of a status, for the line of a failed registration, is Mosquitto's: \<open>code\<close>.\<close>

definition mosquitto_plugin_init_log ::
    "'db init_env \<Rightarrow> string \<Rightarrow> (mosq_rc \<Rightarrow> int) \<Rightarrow> (string option \<times> string option) list option \<Rightarrow> 'db plugin_process \<Rightarrow>
     log_call list" where
  "mosquitto_plugin_init_log env server code rawOpts p =
     (LogInfo, ''plugin_init: starting'', []) #
     (case LoadConfig (readOpts rawOpts) of
        Inl err \<Rightarrow> [(LogError, ''plugin_init: config load failed err=%v'', [ArgErr err])]
      | Inr cfg \<Rightarrow>
        ConnectNATS_log (ie_dial env) server (NatsURL cfg) @
        (case ConnectNATS (ie_dial env) (NatsURL cfg) of
           Inl err \<Rightarrow> [(LogError, ''plugin_init: nats connect failed err=%v'', [ArgErr err])]
         | Inr _ \<Rightarrow>
            let opts = \<lparr>ro_Config = cfg, ro_Publisher = True, ro_NatsConn = True\<rparr> in
            BuildRuntime_log (ie_store env) (ie_subscribeErr env) (ie_pub env) (ie_in_time env) opts @
            (case BuildRuntime (ie_store env) (ie_subscribeErr env) (ie_pub env) (ie_in_time env) opts of
               Inl e \<Rightarrow> []
             | Inr (Inl (err, _)) \<Rightarrow> [(LogError, ''plugin_init: runtime build failed err=%v'', [ArgErr err])]
             | Inr (Inr rt) \<Rightarrow>
                 let (regs, rc) = registerCallbacks (ie_register env) (registered p) in
                 if rc \<noteq> MOSQ_ERR_SUCCESS
                 then (LogError, ''plugin_init: callback registration failed rc=%d'', [ArgInt (code rc)])
                      # Drain_log (ie_pub env) (ie_in_time env) ShutdownTimeout (rt_Async rt)
                 else [(LogInfo, ''plugin_init: ready (4 callbacks registered)'', [])])))"

definition mosquitto_plugin_cleanup_log :: "'db init_env \<Rightarrow> 'db plugin_process \<Rightarrow> log_call list" where
  "mosquitto_plugin_cleanup_log env p =
     (case runtime p of
        None \<Rightarrow> []
      | Some rt \<Rightarrow>
          (LogInfo, ''plugin_cleanup: draining'', []) #
          (case rt_Fanout rt of None \<Rightarrow> [] | Some f \<Rightarrow> fanout_Stop_log (ie_fanoutDrainErr env) f) @
          (if handler_caught env rt then []
           else Drain_log (ie_pub env) (ie_in_time env) ShutdownTimeout (rt_Async rt)))"

section \<open>Lemmas\<close>

text \<open>A configuration with other secrets: the API key of the auth service and the two MinIO keys.\<close>

definition with_secrets :: "string \<Rightarrow> string \<Rightarrow> string \<Rightarrow> Config \<Rightarrow> Config" where
  "with_secrets apiKey accessKey secretKey cfg =
     cfg\<lparr>AuthAPIKey := apiKey, CacheL2AccessKey := accessKey, CacheL2SecretKey := secretKey\<rparr>"

lemma with_secrets_frame [simp]:
  "BufferSize (with_secrets k a x cfg) = BufferSize cfg" "WorkerPoolSize (with_secrets k a x cfg) = WorkerPoolSize cfg"
  "AuthURL (with_secrets k a x cfg) = AuthURL cfg" "AuthTimeout (with_secrets k a x cfg) = AuthTimeout cfg"
  "NatsURL (with_secrets k a x cfg) = NatsURL cfg" "CacheL1Path (with_secrets k a x cfg) = CacheL1Path cfg"
  "CacheL2Endpoint (with_secrets k a x cfg) = CacheL2Endpoint cfg" "CacheL2Bucket (with_secrets k a x cfg) = CacheL2Bucket cfg"
  "CacheL2UseSSL (with_secrets k a x cfg) = CacheL2UseSSL cfg" "CacheL1TTL (with_secrets k a x cfg) = CacheL1TTL cfg"
  "FanoutInvalidateSubject (with_secrets k a x cfg) = FanoutInvalidateSubject cfg"
  "SubjectPresence (with_secrets k a x cfg) = SubjectPresence cfg"
  "SubjectIngressPrefix (with_secrets k a x cfg) = SubjectIngressPrefix cfg" "AuthAPIKey (with_secrets k a x cfg) = k"
  by (simp_all add: with_secrets_def)

text \<open>The parts of a store's construction that the log sees do not depend on the secrets, as long as
  \<^verbatim>\<open>minio.New\<close> answers the same.\<close>

lemma store_secrets:
  assumes "CacheL2Endpoint cfg \<noteq> '''' \<longrightarrow> minio_answer env (with_secrets k a x cfg) = minio_answer env cfg"
  shows "NewTieredAuthStore_log env (store_config (with_secrets k a x cfg) l) = NewTieredAuthStore_log env (store_config cfg l')"
    and "map_sum id (\<lambda>_. ()) (NewTieredAuthStore env (store_config (with_secrets k a x cfg) l)) =
      map_sum id (\<lambda>_. ()) (NewTieredAuthStore env (store_config cfg l'))"
proof -
  have sec: "CacheL2AccessKey (with_secrets k a x cfg) = a" "CacheL2SecretKey (with_secrets k a x cfg) = x"
    by (simp_all add: with_secrets_def)
  show "NewTieredAuthStore_log env (store_config (with_secrets k a x cfg) l) = NewTieredAuthStore_log env (store_config cfg l')"
    using assms by (auto simp: NewTieredAuthStore_log_def store_config_def minio_answer_def sec split: sum.split option.split)
  show "map_sum id (\<lambda>_. ()) (NewTieredAuthStore env (store_config (with_secrets k a x cfg) l)) =
      map_sum id (\<lambda>_. ()) (NewTieredAuthStore env (store_config cfg l'))"
    using assms by (auto simp: NewTieredAuthStore_def store_config_def minio_answer_def sec Let_def split: sum.split option.split)
qed

lemma NewAuthClient_key:
  assumes "k \<noteq> ''''" "k' \<noteq> ''''"
  shows "map_sum id (\<lambda>_. ()) (NewAuthClient (c\<lparr>APIKey := k\<rparr>)) = map_sum id (\<lambda>_. ()) (NewAuthClient (c\<lparr>APIKey := k'\<rparr>))"
  using assms by (auto simp: NewAuthClient_def Let_def)

text \<open>What the entry point's log depends on in the outcome of \<open>BuildRuntime\<close>.\<close>

definition build_outcome :: "go_panic + 'db build_result \<Rightarrow> go_panic + (go_error \<times> AsyncPublisher option) + AsyncPublisher" where
  "build_outcome out = map_sum id (map_sum id rt_Async) out"

lemma map_sum_unit_cases:
  assumes "map_sum id (\<lambda>_. ()) x = map_sum id (\<lambda>_. ()) y"
  obtains e where "x = Inl e" "y = Inl e" | a b where "x = Inr a" "y = Inr b"
  using assms by (cases x; cases y) auto

text \<open>\<open>BuildRuntime\<close> and its log, with the client and the store's configuration named.\<close>

abbreviation client_config :: "Config \<Rightarrow> AuthClientConfig" where
  "client_config cfg \<equiv> \<lparr>URL = AuthURL cfg, APIKey = AuthAPIKey cfg, Timeout = AuthTimeout cfg,
     MaxIdleConns = 0, IdleConnTimeout = 0\<rparr>"

lemma BuildRuntime_secrets:
  fixes env :: "'db store_env"
  assumes "k \<noteq> ''''" "AuthAPIKey cfg \<noteq> ''''"
    and same: "CacheL2Endpoint cfg \<noteq> '''' \<longrightarrow> minio_answer env (with_secrets k a x cfg) = minio_answer env cfg"
  shows "BuildRuntime_log env subErr pub in_time \<lparr>ro_Config = with_secrets k a x cfg, ro_Publisher = b, ro_NatsConn = n\<rparr> =
      BuildRuntime_log env subErr pub in_time \<lparr>ro_Config = cfg, ro_Publisher = b, ro_NatsConn = n\<rparr> \<and>
    build_outcome (BuildRuntime env subErr pub in_time \<lparr>ro_Config = with_secrets k a x cfg, ro_Publisher = b, ro_NatsConn = n\<rparr>) =
      build_outcome (BuildRuntime env subErr pub in_time \<lparr>ro_Config = cfg, ro_Publisher = b, ro_NatsConn = n\<rparr>)"
proof -
  let ?w = "with_secrets k a x cfg"
  have cl: "map_sum id (\<lambda>_. ()) (NewAuthClient (client_config ?w)) = map_sum id (\<lambda>_. ()) (NewAuthClient (client_config cfg))"
    using NewAuthClient_key[OF assms(1,2), of "client_config cfg"] by simp
  show ?thesis
    using cl
  proof (cases rule: map_sum_unit_cases)
    case (1 e)
    then show ?thesis by (simp add: BuildRuntime_log_def BuildRuntime_def Let_def cong: sum.case_cong)
  next
    case c: (2 l l')
    note sl = store_secrets(1)[OF same, of l l', unfolded store_config_def]
    show ?thesis
      using store_secrets(2)[OF same, of l l', unfolded store_config_def]
    proof (cases rule: map_sum_unit_cases)
      case (1 e)
      with c sl show ?thesis
        by (simp add: BuildRuntime_log_def BuildRuntime_def Let_def cong: sum.case_cong)
    next
      case (2 t t')
      with c sl show ?thesis
        by (simp add: BuildRuntime_log_def BuildRuntime_def Let_def build_outcome_def cong: sum.case_cong split: sum.split)
    qed
  qed
qed

text \<open>Options with another API key.\<close>

lemma LoadConfig_key:
  assumes "LoadConfig opts = Inr cfg" "TrimSpace v \<noteq> ''''"
  shows "LoadConfig (opts(''auth_api_key'' \<mapsto> v)) =
    Inr (with_secrets (TrimSpace v) (CacheL2AccessKey cfg) (CacheL2SecretKey cfg) cfg)"
proof -
  have opt: "opt (opts(''auth_api_key'' \<mapsto> v)) k = (if k = ''auth_api_key'' then v else opt opts k)" for k
    by (simp add: opt_def)
  then have "intOrDefault (opts(''auth_api_key'' \<mapsto> v)) k d = intOrDefault opts k d"
    "stringOrDefault (opts(''auth_api_key'' \<mapsto> v)) k d' = stringOrDefault opts k d'" if "k \<noteq> ''auth_api_key''" for k d d'
    using that by (simp_all add: intOrDefault_def stringOrDefault_def)
  with opt assms show ?thesis by (auto simp: LoadConfig_def Let_def with_secrets_def split: if_splits)
qed

section \<open>Properties\<close>

text \<open>C25: Initialisation does not log the plugin's secrets. When two sets of options load into
  configurations that differ at most in the API key of the auth service and in the two MinIO
  keys, the log calls of the whole initialisation are the same, whatever NATS, Pebble, MinIO and
  the broker answer, provided that they answer the same both times; of these only \<^verbatim>\<open>minio.New\<close> is
  given the keys.\<close>

theorem init_log_hides_secrets:
  assumes "LoadConfig (readOpts raw) = Inr cfg"
    and "LoadConfig (readOpts raw') = Inr (with_secrets apiKey accessKey secretKey cfg)"
    and "CacheL2Endpoint cfg \<noteq> '''' \<longrightarrow>
      minio_answer (ie_store env) (with_secrets apiKey accessKey secretKey cfg) = minio_answer (ie_store env) cfg"
  shows "mosquitto_plugin_init_log env server code raw' p = mosquitto_plugin_init_log env server code raw p"
proof -
  have "AuthAPIKey c \<noteq> ''''" if "LoadConfig o' = Inr c" for o' c
    using that by (auto simp: LoadConfig_def Let_def split: if_splits)
  from this[OF assms(1)] this[OF assms(2)] have keys: "apiKey \<noteq> ''''" "AuthAPIKey cfg \<noteq> ''''" by simp_all
  let ?o = "\<lambda>c. \<lparr>ro_Config = c, ro_Publisher = True, ro_NatsConn = True\<rparr>"
  let ?b = "\<lambda>c. BuildRuntime (ie_store env) (ie_subscribeErr env) (ie_pub env) (ie_in_time env) (?o c)"
  from BuildRuntime_secrets[OF keys assms(3)]
  have "BuildRuntime_log (ie_store env) (ie_subscribeErr env) (ie_pub env) (ie_in_time env)
        (?o (with_secrets apiKey accessKey secretKey cfg)) =
      BuildRuntime_log (ie_store env) (ie_subscribeErr env) (ie_pub env) (ie_in_time env) (?o cfg)"
    and "build_outcome (?b (with_secrets apiKey accessKey secretKey cfg)) = build_outcome (?b cfg)" by blast+
  then show ?thesis
    by (auto simp: mosquitto_plugin_init_log_def assms build_outcome_def Let_def split: sum.split prod.split)
qed

theorem init_log_hides_secrets_witness:
  "mosquitto_plugin_init_log (demo_init_env (\<lambda>_. MOSQ_ERR_SUCCESS)) ''n'' (\<lambda>_. 0) (Some (demo_raw @ [(Some ''auth_api_key'', Some ''z'')]))
     fresh_process =
   mosquitto_plugin_init_log (demo_init_env (\<lambda>_. MOSQ_ERR_SUCCESS)) ''n'' (\<lambda>_. 0) (Some demo_raw) fresh_process"
proof -
  obtain cfg where cfg: "LoadConfig (readOpts (Some demo_raw)) = Inr cfg" using demo_init_ok by blast
  have opts: "readOpts (Some (demo_raw @ [(Some ''auth_api_key'', Some ''z'')])) =
      (readOpts (Some demo_raw))(''auth_api_key'' \<mapsto> ''z'')"
    by (simp add: demo_raw_def)
  have z: "TrimSpace ''z'' = ''z''" by (intro TrimSpace_trimmed trimmed_edges) (simp_all add: byte_def)
  then have "TrimSpace ''z'' \<noteq> ''''" by simp
  from LoadConfig_key[OF cfg this]
  have cfg': "LoadConfig (readOpts (Some (demo_raw @ [(Some ''auth_api_key'', Some ''z'')]))) =
      Inr (with_secrets (TrimSpace ''z'') (CacheL2AccessKey cfg) (CacheL2SecretKey cfg) cfg)"
    unfolding opts[symmetric] .
  show ?thesis
    by (rule init_log_hides_secrets[OF cfg cfg']) (simp add: minio_answer_def demo_init_env_def demo_env_def)
qed

text \<open>A failed initialisation says so: the status is not success only when an ERROR is logged.\<close>

lemma failed_init_is_logged:
  assumes "mosquitto_plugin_init env raw p = Inr (p', rc, torn)" "rc \<noteq> MOSQ_ERR_SUCCESS"
  shows "\<exists>c \<in> set (mosquitto_plugin_init_log env server code raw p). fst c = LogError"
proof -
  have "list_ex (\<lambda>c. fst c = LogError) (mosquitto_plugin_init_log env server code raw p)"
    using assms by (auto simp: mosquitto_plugin_init_def mosquitto_plugin_init_log_def Let_def
        split: sum.splits prod.splits if_splits)
  then show ?thesis by (simp only: list_ex_iff)
qed

end
