(* ===== verification/LogText.thy ===== *)
theory LogText
  imports LogLifecycle "HOL-Library.Sublist"
begin

text \<open>
  The text of the log. Every log call of the plugin is one that \<^verbatim>\<open>fmt.Sprintf\<close> can carry out: as many
  arguments as verbs, each of a kind that its verb takes. And what the text of a failed lookup
  holds: the username as a whole, although the log fields for it are clipped to 64 bytes.
\<close>

section \<open>Definitions\<close>

text \<open>The log calls of one event of the running plugin.\<close>

definition onFanout_log :: "'db call_env \<Rightarrow> bytes \<Rightarrow> 'db plugin_process \<Rightarrow> log_call list" where
  "onFanout_log env data p =
     (case runtime p of
        None \<Rightarrow> []
      | Some rt \<Rightarrow>
          (case (rt_Fanout rt, rt_Store rt) of
             (Some fc, Some s) \<Rightarrow>
               if \<not> fc_sub fc then []
               else fanout_handle_log (store_Invalidate (ce_store env None)) (store_Invalidate_log (ce_store env None)) data s
           | _ \<Rightarrow> []))"

definition onPublish_log :: "nat \<Rightarrow> pub_outcome \<Rightarrow> 'db plugin_process \<Rightarrow> log_call list" where
  "onPublish_log i out p =
     (case runtime p of
        None \<Rightarrow> []
      | Some rt \<Rightarrow>
          if i < length (in_work (rt_Async rt)) then publishOne_log (in_work (rt_Async rt) ! i) out else [])"

fun event_log :: "'db call_env \<Rightarrow> broker_event \<Rightarrow> 'db plugin_process \<Rightarrow> log_call list" where
  "event_log env (EvBasicAuth ed) p = goOnBasicAuth_log env (Some ed) p"
| "event_log env (EvAclCheck ed) p = []"
| "event_log env (EvDisconnect ed) p = goOnDisconnect_log env (Some ed) p"
| "event_log env (EvMessage ed) p = goOnMessage_log env (Some ed) p"
| "event_log env (EvFanout data) p = onFanout_log env data p"
| "event_log env EvTake p = []"
| "event_log env (EvPublish i out) p = onPublish_log i out p"

text \<open>The text of a call; the empty text, where \<open>Sprintf\<close> has none, does not occur.\<close>

definition log_text :: "(rune \<Rightarrow> bool) \<Rightarrow> string \<Rightarrow> log_arg list \<Rightarrow> string" where
  "log_text isPrint fmt args = (case Sprintf isPrint fmt args of None \<Rightarrow> '''' | Some t \<Rightarrow> t)"

section \<open>Lemmas\<close>

subsection \<open>Formats and arguments\<close>

definition well_formatted :: "log_call \<Rightarrow> bool" where
  "well_formatted c \<longleftrightarrow>
     (case c of (level, fmt, args) \<Rightarrow> case verbs fmt of None \<Rightarrow> False | Some vs \<Rightarrow> list_all2 fits vs args)"

lemma well_formatted_call [simp]:
  "well_formatted (level, fmt, args) \<longleftrightarrow> (case verbs fmt of None \<Rightarrow> False | Some vs \<Rightarrow> list_all2 fits vs args)"
  by (simp add: well_formatted_def)

lemma well_formatted_Sprintf: "well_formatted (level, fmt, args) \<longleftrightarrow> Sprintf isPrint fmt args \<noteq> None"
  by (simp add: Sprintf_defined del: not_None_eq)

lemma store_formats [simp]:
  "list_all well_formatted (readL1_log env s k)"
  "list_all well_formatted (writeL1_log env s k e)"
  "list_all well_formatted (LookupEntry_log henv a k)"
  "list_all well_formatted (store_Invalidate_log env s k)"
  by (auto simp: readL1_log_def writeL1_log_def LookupEntry_log_def store_Invalidate_log_def Let_def
      split: option.split sum.split pebble_error.split http_reply.split)

lemma readL3_formats [simp]: "list_all well_formatted (readL3_log env s k)"
  by (simp add: readL3_log_def split: option.split)

lemma getFromL3_formats [simp]: "list_all well_formatted (getFromL3_log env s k)"
  by (auto simp: getFromL3_log_def split: option.split sum.split prod.split)

lemma store_Get_formats [simp]: "list_all well_formatted (store_Get_log env s k)"
  by (auto simp: store_Get_log_def split: option.split sum.split)

lemma publish_formats [simp]: "list_all well_formatted (publish_log subject data rt)"
  by (auto simp: publish_log_def Enqueue_log_def split: sum.split)

lemma Publish_formats [simp]:
  "list_all well_formatted (PublishConnect_log orgID assetUUID clientID sourceIP ts rt)"
  "list_all well_formatted (PublishDisconnect_log orgID assetUUID clientID sourceIP code ts rt)"
  "list_all well_formatted (PublishIngress_log orgID assetUUID clientID topic payload qos retain ts rt)"
  by (simp_all add: PublishConnect_log_def PublishDisconnect_log_def PublishIngress_log_def Let_def)

lemma credential_formats [simp]: "well_formatted (credential_log bcrypt sf u pw serial auth e)"
  by (simp add: credential_log_def)

lemma Authenticate_formats [simp]:
  assumes "\<And>s k. list_all well_formatted (get_log s k)"
  shows "list_all well_formatted (Authenticate_log get get_log bcrypt sf u pw serial rt)"
  using assms by (auto simp: Authenticate_log_def split: option.split sum.split)

lemma callback_formats [simp]:
  "list_all well_formatted (goOnBasicAuth_log env ed p)"
  "list_all well_formatted (goOnDisconnect_log env dd p)"
  "list_all well_formatted (goOnMessage_log env md p)"
  by (auto simp: goOnBasicAuth_log_def goOnDisconnect_log_def goOnMessage_log_def Let_def
      split: option.split sum.split AuthResult.split prod.split)

lemma background_formats [simp]:
  "list_all well_formatted (onFanout_log env data p)" "list_all well_formatted (onPublish_log i out p)"
  by (auto simp: onFanout_log_def onPublish_log_def fanout_handle_log_def publishOne_log_def
      split: option.split list.split sum.split pub_outcome.split)

lemma event_formats: "list_all well_formatted (event_log env ev p)"
  by (cases ev) simp_all

lemma construction_formats [simp]:
  "list_all well_formatted (Start_log async)"
  "list_all well_formatted (Drain_log pub in_time timeout async)"
  "list_all well_formatted (NewTieredAuthStore_log senv scfg)"
  "list_all well_formatted (fanout_Stop_log drainErr fc)"
  "list_all well_formatted (ConnectNATS_log dial server url)"
  "list_all well_formatted (startFanout_log subscribeErr subject)"
  by (auto simp: Start_log_def Drain_log_def NewTieredAuthStore_log_def fanout_Stop_log_def ConnectNATS_log_def
      startFanout_log_def fanout_Start_log_def split: option.split sum.split prod.split)

lemma BuildRuntime_formats [simp]: "list_all well_formatted (BuildRuntime_log senv subscribeErr pub in_time opts)"
  by (auto simp: BuildRuntime_log_def Let_def split: sum.split)

lemma lifecycle_formats:
  "list_all well_formatted (mosquitto_plugin_init_log ienv server code raw p)"
  "list_all well_formatted (mosquitto_plugin_cleanup_log ienv p)"
  by (auto simp: mosquitto_plugin_init_log_def mosquitto_plugin_cleanup_log_def Let_def
      split: sum.split option.split prod.split)

subsection \<open>The username in the log\<close>

lemma sublist_inside: "sublist u e \<Longrightarrow> sublist u (pre @ e @ post)"
  using sublist_appendI[of e pre post] sublist_order.order_trans by blast

lemma lookup_text:
  "log_text isPrint ''auth lookup failed assetUUID=%s err=%v'' [ArgStr a, ArgErr (ErrText e)] =
   ''auth lookup failed assetUUID='' @ a @ '' err='' @ e"
  by (simp add: log_text_def verbText_def)

text \<open>A CONNECT that reaches L3 makes the log calls of the lookup there.\<close>

lemma connect_reaches_L3:
  assumes "runtime p = Some rt" "rt_Store rt = Some s" "parseUsername (auth_username ed) = Some (auth_username ed)"
    and senv: "senv = ce_store env (contextWithTimeout (AuthTimeout (rt_Config rt)))"
    and "readL1 senv s (auth_username ed) = None" "\<forall>x. readL2 senv s (auth_username ed) \<noteq> Inr (Some x)"
    and "L3Client (ts_cfg s) = Some client"
  shows "set (LookupEntry_log (se_http senv) client (auth_username ed)) \<subseteq> set (goOnBasicAuth_log env (Some ed) p)"
proof -
  have ne: "auth_username ed \<noteq> ''''" using assms(3) by (simp add: parseUsername_Some_iff)
  have "set (LookupEntry_log (se_http senv) client (auth_username ed)) \<subseteq> set (getFromL3_log senv s (auth_username ed))"
    using assms(7) by (auto simp: getFromL3_log_def readL3_log_def)
  also have "\<dots> \<subseteq> set (store_Get_log senv s (auth_username ed))"
    using assms(5,6) ne by (auto simp: store_Get_log_def split: sum.split option.split)
  also have "\<dots> \<subseteq> set (goOnBasicAuth_log env (Some ed) p)"
    using assms(1-3) by (auto simp: goOnBasicAuth_log_def Authenticate_log_def ResolveUsername_def Let_def senv)
  finally show ?thesis .
qed

text \<open>The example world with a lookup service that is down, and a device with a name of 200 bytes.\<close>

definition long_name :: string where "long_name = replicate 200 (CHR ''a'')"

definition long_event :: auth_event where "long_event = demo_password_event\<lparr>ae_username := Some long_name\<rparr>"

definition refused_env :: "mem_db store_env" where
  "refused_env = down_env\<lparr>se_http := \<lparr>newRequestError = (\<lambda>_. None),
     http_Do = (\<lambda>req. TransportError (''Get '' @ rq_url req @ '': connection refused''))\<rparr>\<rparr>"

lemma long_username: "auth_username long_event = long_name"
proof -
  have "GoString (Some long_name) = long_name" by (simp add: long_name_def takeWhile_eq_all_conv)
  then show ?thesis by (simp add: long_event_def auth_username_def demo_password_event_def getClientCertSerial_def)
qed

lemma long_parse: "parseUsername long_name = Some long_name"
  by (simp add: parseUsername_Some_iff) (simp add: long_name_def)

lemma refused_reads: "readL1 refused_env demo_store k = None" "\<forall>x. readL2 refused_env demo_store k \<noteq> Inr (Some x)"
  by (simp_all add: readL1_def readL2_def refused_env_def down_env_def demo_env_def demo_store_defs mem_api_def)

section \<open>Properties\<close>

text \<open>C26: Every log call of the plugin can be carried out: whatever the event, and during
  initialisation and clean-up, the format of a call has as many verbs as there are arguments, and
  each verb takes its argument, so that \<open>Sprintf\<close> gives a text without any error note.\<close>

theorem log_calls_well_formed:
  "list_all (\<lambda>(level, fmt, args). Sprintf isPrint fmt args \<noteq> None)
     (event_log env ev p @ mosquitto_plugin_init_log ienv server code raw p0 @ mosquitto_plugin_cleanup_log ienv q)"
proof -
  have "well_formatted = (\<lambda>(level, fmt, args). Sprintf isPrint fmt args \<noteq> None)"
    using well_formatted_Sprintf by (auto simp: fun_eq_iff simp del: well_formatted_call)
  then show ?thesis using event_formats[of env ev p] lifecycle_formats(1)[of ienv server code raw p0]
      lifecycle_formats(2)[of ienv q] by (simp del: not_None_eq)
qed

text \<open>C36: A username of any length gets into the log as a whole. \<open>truncate\<close> clips the username in every
  log field, but when L1 and L2 have no entry and the lookup at L3 fails in transport with an
  error that names the URL of the request, as the errors of \<^verbatim>\<open>http.Client\<close> do, then the plugin's log
  has a line with the whole username in it.\<close>

theorem username_unclipped_in_log:
  assumes "runtime p = Some rt" "rt_Store rt = Some s" "parseUsername (auth_username ed) = Some (auth_username ed)"
    and "senv = ce_store env (contextWithTimeout (AuthTimeout (rt_Config rt)))"
    and "readL1 senv s (auth_username ed) = None" "\<forall>x. readL2 senv s (auth_username ed) \<noteq> Inr (Some x)"
    and "L3Client (ts_cfg s) = Some client"
    and "newRequestError (se_http senv) (rq_url (lookupRequest client (auth_username ed))) = None"
    and "http_Do (se_http senv) (lookupRequest client (auth_username ed)) = TransportError e"
    and "sublist (rq_url (lookupRequest client (auth_username ed))) e"
  shows "\<exists>line \<in> set (Logger_lines (fold (Logger_call (log_text isPrint) now) (goOnBasicAuth_log env (Some ed) p)
      (StderrLogger (NewLogger LogInfo)))). sublist (auth_username ed) line"
proof -
  let ?c = "(LogWarn, ''auth lookup failed assetUUID=%s err=%v'', [short (auth_username ed), ArgErr (ErrText e)])"
  have "auth_username ed \<noteq> ''''" using assms(3) by (simp add: parseUsername_Some_iff)
  then have "?c \<in> set (LookupEntry_log (se_http senv) client (auth_username ed))"
    using assms(8,9) by (simp add: LookupEntry_log_def Let_def)
  then have "?c \<in> set (at_level LogInfo (goOnBasicAuth_log env (Some ed) p))"
    using connect_reaches_L3[OF assms(1-7)] by (auto simp: at_level_def)
  moreover have "sublist (auth_username ed) (call_line (log_text isPrint) now ?c)"
  proof -
    have "sublist (auth_username ed) (rq_url (lookupRequest client (auth_username ed)))"
      using sublist_appendI[of "auth_username ed" "URL (ac_cfg client) @ ''/''" "[]"] by (simp add: lookupRequest_def)
    from this assms(10) have "sublist (auth_username ed) e" by (rule sublist_order.order_trans)
    moreover have "call_line (log_text isPrint) now ?c =
        (timestamp now @ '' WARN  [PLUGIN:Mosquitto] auth lookup failed assetUUID='' @ Logging.truncate (auth_username ed) 64 @ '' err='') @
        e @ [CHR 0x0A]"
      by (simp add: call_line_def lookup_text)
    ultimately show ?thesis by (simp only: sublist_inside)
  qed
  ultimately show ?thesis unfolding stderr_lines by force
qed

theorem username_unclipped_in_log_witness:
  "\<exists>line \<in> set (Logger_lines (fold (Logger_call (log_text (\<lambda>_. True)) 0)
      (goOnBasicAuth_log (demo_call refused_env) (Some long_event) demo_process) (StderrLogger (NewLogger LogInfo)))).
     sublist (replicate 200 (CHR ''a'')) line"
proof -
  have rt: "rt_Store demo_rt = Some demo_store" by (simp add: demo_rt_def)
  have senv: "refused_env = ce_store (demo_call refused_env) (contextWithTimeout (AuthTimeout (rt_Config demo_rt)))"
    by (simp add: demo_call_def)
  have name: "parseUsername (auth_username long_event) = Some (auth_username long_event)"
    by (simp add: long_username long_parse)
  have cl: "L3Client (ts_cfg demo_store) = Some demo_client" by (simp add: demo_store_defs)
  have h: "newRequestError (se_http refused_env) u = None"
    "http_Do (se_http refused_env) r = TransportError (''Get '' @ rq_url r @ '': connection refused'')" for u r
    by (simp_all add: refused_env_def)
  have sub: "sublist (rq_url r) (''Get '' @ rq_url r @ '': connection refused'')" for r by (rule sublist_appendI)
  from username_unclipped_in_log[OF demo_process_runtime rt name senv refused_reads cl h sub]
  show ?thesis by (simp only: long_username long_name_def)
qed

end
