(* ===== verification/Aliases.thy ===== *)
theory Aliases
  imports PluginMain
begin

text \<open>
  How the identity of a device, the cache and the L3 lookup of \<^verbatim>\<open>src/http_auth.go\<close> interact. The
  lookup appends the username to the URL as it is, and nothing compares the identifier in the
  entry with the username: a username with a query string is a second name of the same asset,
  with a cache record of its own.
\<close>

section \<open>Definitions\<close>

text \<open>A server that finds the resource by the path of the URL and does not look at the query.\<close>

definition ignores_query :: "http_env \<Rightarrow> bool" where
  "ignores_query env \<longleftrightarrow>
     (\<forall>req q. http_Do env (req\<lparr>rq_url := rq_url req @ ''?'' @ q\<rparr>) = http_Do env req)"

section \<open>Lemmas\<close>

lemma alias_LookupEntry:
  assumes "ignores_query env" "newRequestError env (rq_url (lookupRequest a (u @ ''?'' @ q))) = None"
    and "http_Do env (lookupRequest a u) = Response 200 body" "DecodeReadModelEnvelopeToAuthEntry body = Inr e"
  shows "snd (LookupEntry env a (u @ ''?'' @ q)) = Inr (Some e)"
proof -
  let ?a = "a\<lparr>lookups := lookups a + 1\<rparr>"
  have req: "lookupRequest ?a (u @ ''?'' @ q) = (lookupRequest a u)\<lparr>rq_url := rq_url (lookupRequest a u) @ ''?'' @ q\<rparr>"
    by (simp add: lookupRequest_def)
  have "http_Do env (lookupRequest ?a (u @ ''?'' @ q)) = Response 200 body"
    using assms(1,3) unfolding req by (simp only: ignores_query_def)
  moreover have "rq_url (lookupRequest ?a (u @ ''?'' @ q)) = rq_url (lookupRequest a (u @ ''?'' @ q))"
    by (simp add: lookupRequest_def)
  ultimately show ?thesis using assms(2,4) by (simp add: LookupEntry_def Let_def)
qed

lemma alias_Get:
  assumes "readL1 env s (u @ ''?'' @ q) = None" "readL2 env s (u @ ''?'' @ q) = Inr None"
    and "L3Client (ts_cfg s) = Some client" "ignores_query (se_http env)"
    and "newRequestError (se_http env) (rq_url (lookupRequest client (u @ ''?'' @ q))) = None"
    and "http_Do (se_http env) (lookupRequest client u) = Response 200 body"
    and "DecodeReadModelEnvelopeToAuthEntry body = Inr e"
  obtains s' where "store_Get env s (u @ ''?'' @ q) = (s', Inr (Some e))"
proof -
  have "snd (store_Get env s (u @ ''?'' @ q)) = Inr (Some e)"
    using assms(1-3) alias_LookupEntry[OF assms(4-7)]
    by (auto simp: store_Get_def getFromL3_def readL3_def Let_def split: prod.splits)
  with that show thesis by (metis prod.collapse)
qed

text \<open>An invalidation leaves the L1 records of other keys readable.\<close>

lemma Invalidate_other:
  assumes "pebble_reliable (se_pebble env) contents ok" "pebbleDB s = Some db" "ok db" "k' \<noteq> k"
    and "se_pebble env1 = se_pebble env" "se_pebble env' = se_pebble env"
  obtains s' where "store_Invalidate env1 s k = (s', None)" "readL1 env' s' k' = readL1 env' s k'" "ts_cfg s' = ts_cfg s"
proof (cases "k = ''''")
  case True
  with assms(2) show thesis
    by (intro that[of "s\<lparr>invalidations := invalidations s + 1\<rparr>"]) (simp_all add: store_Invalidate_def readL1_cfg[of "s\<lparr>invalidations := invalidations s + 1\<rparr>" s])
next
  case False
  obtain db' where db': "pb_Delete (se_pebble env) db k = (db', None)" "ok db'" "contents db' = (contents db)(k := None)"
    using assms(1,3) unfolding pebble_reliable_def by blast
  then have "pb_Get (se_pebble env) db' k' = pb_Get (se_pebble env) db k'"
    using assms(1,3,4) by (simp add: pebble_reliable_def)
  let ?s' = "s\<lparr>invalidations := invalidations s + 1, pebbleDB := Some db'\<rparr>"
  have "ts_cfg ?s' = ts_cfg s" "pebbleDB ?s' = Some db'" by simp_all
  with \<open>pb_Get (se_pebble env) db' k' = pb_Get (se_pebble env) db k'\<close> have "readL1 env' ?s' k' = readL1 env' s k'"
    unfolding readL1_def using assms(2,6) by (simp only: option.case)
  moreover have "store_Invalidate env1 s k = (?s', None)"
    using False db'(1) assms(2,5) by (simp add: store_Invalidate_def Let_def)
  ultimately show thesis by (intro that[of ?s']) simp_all
qed

lemma writeL1_ok:
  assumes "pebble_reliable (se_pebble env) contents ok" "pebbleDB s = Some db" "ok db"
  shows "\<exists>db'. pebbleDB (writeL1 env s k e) = Some db' \<and> ok db'"
proof -
  have "ok (fst (pb_Set (se_pebble env) db k v))" for v
    using assms(1,3) unfolding pebble_reliable_def by (metis fst_conv)
  with assms(2,3) show ?thesis by (auto simp: writeL1_def split: option.splits sum.splits)
qed

subsection \<open>A concrete service\<close>

text \<open>L3 knows the example device, by the path of the URL.\<close>

definition alias_env :: "mem_db store_env" where
  "alias_env = (demo_env 0)\<lparr>se_http := \<lparr>newRequestError = (\<lambda>_. None),
     http_Do = (\<lambda>req. if takeWhile (\<lambda>c. c \<noteq> CHR ''?'') (rq_url req) = ''u/a1''
                       then Response 200 (json_text (envelope_json 200 demo_projection))
                       else Response 404 '''')\<rparr>\<rparr>"

lemma alias_env_ignores: "ignores_query (se_http alias_env)"
proof -
  have "takeWhile (\<lambda>c. c \<noteq> CHR ''?'') (w @ CHR ''?'' # q) = takeWhile (\<lambda>c. c \<noteq> CHR ''?'') w" for w q
    by (induction w) auto
  then show ?thesis by (simp add: ignores_query_def alias_env_def)
qed

section \<open>Properties\<close>

text \<open>C35: A device can outlive its revocation under a second name. When the L3 service does not look at
  the query of a URL and has an entry for the asset \<open>u\<close>, then the username \<open>u?q\<close> is admitted with the
  credential of \<open>u\<close> and gets a session under the name \<open>u?q\<close>; the entry is cached under that name, so
  an invalidation of \<open>u\<close>, even with \<open>u\<close> gone from L2 and L3, leaves it, and until the TTL is over the
  same credential is admitted again.\<close>

theorem alias_survives_revocation:
  assumes "parseUsername u = Some u" "CHR '':'' \<notin> set q" "CHR ''/'' \<notin> set q"
    and pebble: "pebble_reliable (se_pebble env) contents ok" "pebbleDB s = Some db" "ok db"
      "MarshalTime (se_writeNow env) \<noteq> None" "readL1 env s (u @ ''?'' @ q) = None"
    and L3: "readL2 env s (u @ ''?'' @ q) = Inr None" "L3Client (ts_cfg s) = Some client" "ignores_query (se_http env)"
      "newRequestError (se_http env) (rq_url (lookupRequest client (u @ ''?'' @ q))) = None"
      "http_Do (se_http env) (lookupRequest client u) = Response 200 body" "DecodeReadModelEnvelopeToAuthEntry body = Inr e"
    and revoked: "se_pebble env1 = se_pebble env" "se_pebble env2 = se_pebble env"
      "time_Sub (se_readNow env2) (se_writeNow env) \<le> L1TTL (ts_cfg s)"
    and rt: "rt_Store r = Some s" "credential_ok bcrypt sf (rt_Auth r) password serial e"
  shows "\<exists>r1 s1 s2 r2.
    Authenticate (store_Get env) bcrypt sf (u @ ''?'' @ q) password c serial r = Inr (r1, AuthAllow) \<and>
    rt_Store r1 = Some s1 \<and> store_Invalidate env1 s1 u = (s2, None) \<and>
    Authenticate (store_Get env2) bcrypt sf (u @ ''?'' @ q) password c serial (r1\<lparr>rt_Store := Some s2\<rparr>) = Inr (r2, AuthAllow) \<and>
    (c \<noteq> '''' \<longrightarrow> LookupSession c r2 = Some \<lparr>si_OrgID = OrgId e, si_AssetUUID = u @ ''?'' @ q\<rparr>)"
proof -
  let ?a = "u @ ''?'' @ q"
  have user: "ResolveUsername ?a = Some ?a"
    using assms(1-3) by (simp add: ResolveUsername_def parseUsername_Some_iff)
  obtain s1 where s1: "store_Get env s ?a = (s1, Inr (Some e))" by (rule alias_Get[OF pebble(5) L3])
  let ?r1 = "rememberSession c (OrgId e) ?a (r\<lparr>rt_Store := Some s1\<rparr>)"
  have r1: "Authenticate (store_Get env) bcrypt sf ?a password c serial r = Inr (?r1, AuthAllow)"
    unfolding Authenticate_found[where get = "store_Get env", OF user rt(1) s1] using rt(2) by (simp add: Let_def)
  have db1: "pebbleDB s1 = pebbleDB (writeL1 env s ?a (Some e))" using store_Get_db[OF s1] pebble(5) by simp
  have ttl: "L1TTL (ts_cfg s1) = L1TTL (ts_cfg s)" using store_Get_frame(1)[OF s1] by auto
  obtain db1' where ok1: "pebbleDB s1 = Some db1'" "ok db1'" using writeL1_ok[OF pebble(1-3)] db1 by metis
  have "?a \<noteq> u" by simp
  then obtain s2 where s2: "store_Invalidate env1 s1 u = (s2, None)" "readL1 env2 s2 ?a = readL1 env2 s1 ?a"
    using Invalidate_other[OF pebble(1) ok1 _ revoked(1,2)] by metis
  have "readL1 env2 s1 ?a = Some e"
    by (rule writeL1_readL1[OF pebble(1) _ store_Get_valid[OF s1 pebble(5)] pebble(4) revoked(2,3) db1 ttl])
       (use pebble in simp)
  with s2(2) have s3: "store_Get env2 s2 ?a = (s2\<lparr>l1Hits := l1Hits s2 + 1\<rparr>, Inr (Some e))" by (simp add: store_Get_def)
  let ?r2 = "rememberSession c (OrgId e) ?a (?r1\<lparr>rt_Store := Some (s2\<lparr>l1Hits := l1Hits s2 + 1\<rparr>)\<rparr>)"
  have "rt_Store (?r1\<lparr>rt_Store := Some s2\<rparr>) = Some s2" "rt_Auth (?r1\<lparr>rt_Store := Some s2\<rparr>) = rt_Auth r"
    by (simp_all add: rememberSession_def)
  then have "Authenticate (store_Get env2) bcrypt sf ?a password c serial (?r1\<lparr>rt_Store := Some s2\<rparr>) = Inr (?r2, AuthAllow)"
    using Authenticate_found[where get = "store_Get env2", OF user _ s3] rt(2) by (simp add: Let_def)
  moreover have "c \<noteq> '''' \<longrightarrow> LookupSession c ?r2 = Some \<lparr>si_OrgID = OrgId e, si_AssetUUID = ?a\<rparr>"
    by (simp add: LookupSession_def rememberSession_def)
  ultimately show ?thesis using r1 s2(1) by (intro exI[of _ ?r1] exI[of _ s1] exI[of _ s2] exI[of _ ?r2]) simp
qed

theorem alias_survives_revocation_witness:
  "\<exists>r1 s1 s2 r2. Authenticate (store_Get alias_env) demo_bcrypt (\<lambda>_ _. False) ''a1?x'' ''pw'' ''c1'' '''' demo_rt = Inr (r1, AuthAllow) \<and>
     rt_Store r1 = Some s1 \<and> store_Invalidate (demo_env 0) s1 ''a1'' = (s2, None) \<and>
     Authenticate (store_Get (demo_env (30 * Second))) demo_bcrypt (\<lambda>_ _. False) ''a1?x'' ''pw'' ''c1'' ''''
       (r1\<lparr>rt_Store := Some s2\<rparr>) = Inr (r2, AuthAllow)"
proof -
  have user: "parseUsername ''a1'' = Some ''a1''" "CHR '':'' \<notin> set ''x''" "CHR ''/'' \<notin> set ''x''"
    by (simp_all add: parseUsername_Some_iff)
  have peb: "pebble_reliable (se_pebble alias_env) mem_map (\<lambda>db. \<not> mem_fails db)" "MarshalTime (se_writeNow alias_env) \<noteq> None"
    using demo_reliable demo_time(1) by (simp_all add: alias_env_def)
  have L1: "readL1 alias_env demo_store (''a1'' @ ''?'' @ ''x'') = None"
    by (simp add: readL1_def alias_env_def demo_env_def demo_store_def mem_api_def)
  have L2: "readL2 alias_env demo_store (''a1'' @ ''?'' @ ''x'') = Inr None"
    by (simp add: readL2_def alias_env_def demo_env_def demo_store_def Let_def)
  have L3: "L3Client (ts_cfg demo_store) = Some demo_client" by (simp add: demo_store_defs)
  have http: "newRequestError (se_http alias_env) url = None"
    "http_Do (se_http alias_env) (lookupRequest demo_client ''a1'') =
       Response 200 (json_text (envelope_json 200 demo_projection))" for url
    by (simp_all add: alias_env_def lookupRequest_def demo_client_def)
  have dec: "DecodeReadModelEnvelopeToAuthEntry (json_text (envelope_json 200 demo_projection)) = Inr demo_entry"
    using DecodeReadModel_text(2)[OF demo_valid(1)] demo_valid(2) by simp
  have later: "se_pebble (demo_env t) = se_pebble alias_env" for t by (simp add: alias_env_def demo_env_def)
  have ttl: "time_Sub (se_readNow (demo_env (30 * Second))) (se_writeNow alias_env) \<le> L1TTL (ts_cfg demo_store)"
    using demo_time(2) by (simp add: alias_env_def)
  have rt: "rt_Store demo_rt = Some demo_store" "credential_ok demo_bcrypt (\<lambda>_ _. False) (rt_Auth demo_rt) ''pw'' '''' demo_entry"
    by (simp_all add: demo_rt_def credential_ok_def demo_entry_def demo_bcrypt_def)
  from alias_survives_revocation[OF user peb(1) conjunct1[OF demo_db] conjunct2[OF demo_db] peb(2) L1 L2 L3
      alias_env_ignores http dec later later ttl rt, of "''c1''"]
  show ?thesis by (simp only: append.simps) blast
qed

end
