(* ===== verification/Spec2Isabelle.thy ===== *)
theory Spec2Isabelle
  imports PublisherTrace Revocation BrokerSpec Trampolines LogText Aliases
begin

text \<open>
  Verification of the MapexOS Mosquitto plugin (\<^verbatim>\<open>mapexMQTTBroker\<close>, Go sources under
  \<^verbatim>\<open>src/src\<close>): a shared library that Mosquitto loads, which decides who may connect and which
  topics a client may use, and forwards connects, disconnects and device messages to NATS.

  \<^bold>\<open>The program and the theories.\<close> Mosquitto calls the entry points of \<^verbatim>\<open>plugin/main.go\<close>
  (theory PluginMain). Initialisation loads the options (\<^verbatim>\<open>config.go\<close>, PluginConfig), opens the NATS
  connection (\<^verbatim>\<open>connect.go\<close>, Connect) and builds the runtime (\<^verbatim>\<open>runtime_init.go\<close>, RuntimeInit) out
  of an asynchronous publisher, an auth client, a tiered auth store and a fanout consumer. The
  callbacks work on that runtime (\<^verbatim>\<open>plugin.go\<close>, Plugin):
  \<^item> basic auth asks the store (\<^verbatim>\<open>auth_store.go\<close>, AuthStore) for the entry of the username
    (\<^verbatim>\<open>auth_entry.go\<close>, AuthEntry): L1 is Pebble, L2 is MinIO, L3 the HTTP service of the auth client
    (\<^verbatim>\<open>http_auth.go\<close>, HttpAuth); on success it remembers the session and sends a connect advisory;
  \<^item> the access check is a pure function of username, topic and access (\<^verbatim>\<open>acl.go\<close>, Acl);
  \<^item> disconnects and messages look the session up and send a payload (\<^verbatim>\<open>payloads.go\<close> and
    \<^verbatim>\<open>format.go\<close>, Payloads) through the publisher (\<^verbatim>\<open>nats_publisher.go\<close>, NatsPublisher and
    PublisherConc), whose workers hand it to NATS;
  \<^item> the fanout consumer (\<^verbatim>\<open>fanout_consumer.go\<close>, Fanout) drops the L1 record of an asset when the
    assets service says that it changed.
  \<^verbatim>\<open>log.go\<close> is Logging, the log calls and their texts LogCalls, LogLifecycle and LogText. Between the broker and \<^verbatim>\<open>main.go\<close> stands C code that reads the client
  certificate (\<^verbatim>\<open>trampolines.c\<close> and \<^verbatim>\<open>plugin_version.c\<close>, Trampolines). Prelude, GoStrings, GoTime, GoFmt and Json
  model what the code uses of Go: panics and error values, UTF-8 strings and \<^verbatim>\<open>strings\<close>/\<^verbatim>\<open>strconv\<close>,
  \<^verbatim>\<open>time.Time\<close> in RFC 3339, \<^verbatim>\<open>fmt.Sprintf\<close> with the texts of errors, durations and quoted strings,
  and \<^verbatim>\<open>encoding/json\<close> in both directions.

  \<^bold>\<open>How the code is rendered.\<close> A struct is a record with the fields of the code, an error
  return the left of a sum, a Go panic the left of the outer sum (\<open>go_panic +\<close>), so that "does not
  panic" is a theorem and not an assumption. Counters are 64-bit words and wrap; durations and
  \<^verbatim>\<open>int\<close> are integers with the 64-bit wrap-around written out where the code multiplies. Strings are
  byte strings. Stateful operations take and return the state. The log
  calls of an operation are a definition of their own, its name with \<open>_log\<close> (LogCalls for the
  callbacks, the fanout handler and the workers, LogLifecycle for initialisation and clean-up).

  What is outside the repository is a parameter: Pebble (\<open>pebble_api\<close>, with \<open>pebble_spec\<close> for what a
  key-value store promises although its calls may fail, and \<open>pebble_reliable\<close> when they do not),
  MinIO (its constructor gets all options, keys included), HTTP, bcrypt, the tables of Unicode (case folding, printable code points), the NATS client, timers, the clock, and
  Mosquitto's own functions. \<open>mem_api\<close> is a concrete Pebble for the witnesses. One environment
  record per call holds their answers, so theorems quantify over everything they may do.

  Interfaces are locales: \<open>auth_store\<close> (what a lookup may answer; the plugin's lemmas about
  \<open>Authenticate\<close> are proved in it) is interpreted as \<open>tiered\<close> on the tiered store, and \<open>event_sink\<close>
  (sending does not panic and keeps the sink in good state) as \<open>async\<close> on the publisher.
  \<open>run_system\<close> (actions, their runs, and invariants of runs) is interpreted as \<open>sequential\<close> on the
  calls of the store, as \<open>conc\<close> on the atomic actions of its threads and as \<open>schedule\<close> on those of the
  publisher's, and \<open>logger\<close> (a call writes
  one line or none) as \<open>plugin_log\<close> on the two loggers of \<^verbatim>\<open>log.go\<close>.

  \<^bold>\<open>What is shown.\<close>
  \<^item> Acl: exactly which topics are granted, isolation of devices, and how far a granted wildcard
    subscription reaches.
  \<^item> AuthStore, HttpAuth, AuthEntry: where an answer comes from and how fresh an L1 answer is in any
    run with a failing Pebble, fail-closed error answers, L1 warming, invalidation, counters; both
    wire formats decode to what was encoded. StoreConc: the same operations cut into atomic actions
    of any number of threads: staleness stays bounded and, without a \<open>Close\<close>, nothing panics; an
    invalidation that overtakes a running lookup is lost, and a \<open>Close\<close> can pull the pointer away
    from a running invalidation; a lookup that runs alone refines to the sequential \<open>Get\<close>.
  \<^item> Revocation: L1 from a successful invalidation on. As long as no lookup brings an enabled entry up
    from L2 or L3, L1 never holds one again, over runs of the whole process, where a CONNECT of the
    asset is refused from then on, and over interleavings of the store's atomic actions.
  \<^item> Payloads, PluginConfig, Logging, Connect: round trips of the two event payloads, exact for valid
    UTF-8 and with U+FFFD for ill-formed bytes, what a loaded
    configuration guarantees, and the bounds where it wraps.
  \<^item> NatsPublisher: construction and \<open>Start\<close> with the sizes at which \<^verbatim>\<open>make(chan)\<close> and the wait
    group panic, the sequential contract of \<open>Enqueue\<close> and \<open>Drain\<close>, and the two halves of a worker's
    turn: it takes a job off the channel, holds it, and publishes it later. PublisherConc: the same code
    cut into atomic actions of producers, workers and drainers that interleave freely: no send on
    a closed channel, accounts that add up, a successful drain means drained, draining makes
    progress, and a call that runs alone refines to the sequential operation. PublisherTrace: the
    histories of these runs, computed from schedules: the channel is first in, first out, and each
    accepted job is handed to NATS once, all of them when \<open>Drain\<close> finds the pool done.
  \<^item> Fanout, Plugin, RuntimeInit: an invalidation forces a refresh, who is let in, fail closed,
    where a message goes, and when construction succeeds, fails or panics.
  \<^item> PluginMain, BrokerRuns: the callbacks and entry points as a whole, runs of arbitrary events, the
    invariant of a ready process, where sessions come from, and clean-up, which panics exactly when
    it catches a fanout handler inside an invalidation.
  \<^item> BrokerSpec: an abstract broker (sessions, waiting jobs, jobs held by workers, jobs handed over)
    which the process implements event by event; jobs are taken in the order of their acceptance and
    handed over once, in any order, and each stems from an event of an admitted client and carries
    that client's organisation and asset.
  \<^item> Trampolines: a client with a certificate whose serial can be read is admitted by that serial
    alone; one whose serial cannot be read falls back to its password; the common name is read only
    up to its first zero byte.
  \<^item> LogCalls, LogLifecycle: the lines at the plugin's level do not depend on the password, the log of
    initialisation not on the API key and the MinIO keys; a CONNECT that fails closed, a message
    that is dropped for another reason than a full queue, and a failed initialisation are logged.
    LogText: every log call fits its format, and the error of a failed lookup brings the whole
    username into the log.
  \<^item> Aliases: a username with a query string is a second name of an asset, and as such survives an
    invalidation in the cache.
  \<^item> This theory: properties across components: a published message is attributed to the device its
    granted topic names when its client identifier was admitted under one username, and the life
    cycle from initialisation to clean-up.

  \<^bold>\<open>Bounds and fuel.\<close> The JSON scanner has fuel \<open>2 * length + 1\<close>, and \<open>scanVal_enough_fuel\<close> shows
  that more fuel changes nothing; its nesting limit of 10000 is Go's. \<open>enqueue_alone\<close> runs with fuel 7
  and \<open>get_alone\<close> with fuel 11; \<open>Enqueue_refines\<close> and \<open>Get_refines\<close> show that this is enough. Every
  other recursion has a termination proof.

  \<^bold>\<open>Not modelled.\<close> The wording of the errors of \<^verbatim>\<open>encoding/json\<close> (two fixed texts stand for them), the
  flags and widths of \<^verbatim>\<open>fmt\<close> that no format of the code uses, the general \<^verbatim>\<open>time.Parse\<close> for texts that
  are not RFC 3339 (a parameter), the allocation of C memory beyond whether \<^verbatim>\<open>malloc\<close> succeeds,
  and the exhaustion of memory in Go: a channel or a pool below the limits of the Go runtime counts
  as made, whatever it takes. Callbacks do not overlap each other, since Mosquitto calls them from one
  thread. In BrokerRuns fanout deliveries, receives and publishes of workers interleave with callbacks,
  each as one whole action. For the publisher this is the granularity of the shared channel, and
  PublisherConc has the finer one. A fanout delivery that overlaps a lookup is the subject of
  StoreConc and Revocation, and one that overlaps clean-up is a case of \<open>mosquitto_plugin_cleanup\<close>
  (\<open>handler_caught\<close>). The unused type \<^verbatim>\<open>authCachePolicy\<close> has no
  operations.
\<close>

section \<open>Lemmas\<close>


lemma publish_rejected:
  "publish subject data rt = Inr (rt', False) \<Longrightarrow> queue (rt_Async rt') = queue (rt_Async rt)"
  by (auto simp: queue_defs split: sum.splits if_splits)

lemma PublishIngress_rejected:
  "PublishIngress orgID assetUUID clientID topic payload qos retain ts rt = Inr (rt', False) \<Longrightarrow>
   queue (rt_Async rt') = queue (rt_Async rt)"
  by (auto simp: PublishIngress_def count_dropped_def dest: publish_rejected split: if_splits)

text \<open>A message callback that changes the queue has accepted a message of a session.\<close>

lemma goOnMessage_publishes:
  assumes "runtime p = Some rt" "goOnMessage env (Some m) p = Inr (p', rc)" "runtime p' = Some rt'"
    and "queue (rt_Async rt') \<noteq> queue (rt_Async rt)"
  obtains info where "LookupSession (GoString (me_clientID m)) rt = Some info"
    "PublishIngress (si_OrgID info) (si_AssetUUID info) (GoString (me_clientID m)) (GoString (me_topic m))
       (Some (me_payload m)) (me_qos m) (me_retain m) (ce_now env) rt = Inr (rt', True)"
proof (cases "LookupSession (GoString (me_clientID m)) rt")
  case None
  with assms show thesis by (auto simp: goOnMessage_def)
next
  case (Some info)
  with assms(1-3) obtain acc where "PublishIngress (si_OrgID info) (si_AssetUUID info) (GoString (me_clientID m))
      (GoString (me_topic m)) (Some (me_payload m)) (me_qos m) (me_retain m) (ce_now env) rt = Inr (rt', acc)"
    by (auto simp: goOnMessage_def Let_def split: sum.splits)
  moreover from this have acc using PublishIngress_rejected assms(4) by (metis (full_types))
  ultimately show thesis using Some that by simp
qed

lemma PublishConnect_room:
  assumes "PublishConnect orgID assetUUID clientID sourceIP ts rt = Inr (rt', acc)"
  shows "length (queue (rt_Async rt')) \<le> Suc (length (queue (rt_Async rt))) \<and>
    queue_cap (rt_Async rt') = queue_cap (rt_Async rt) \<and> rt_Config rt' = rt_Config rt"
  using assms by (auto simp: PublishConnect_def queue_defs
      split: sum.splits if_splits)

text \<open>A device that connects and publishes, in the example world.\<close>

definition demo_message :: message_event where
  "demo_message = \<lparr>me_clientID = Some ''c1'', me_topic = Some ''events/a1/t'', me_payload = ''hi'', me_qos = 0, me_retain = False\<rparr>"

lemma demo_publish:
  obtains q rt q' rt' where
    "process_run [(demo_call (demo_env 0), EvBasicAuth demo_password_event)] demo_process = Inr q" "runtime q = Some rt"
    "goOnMessage (demo_call (demo_env 0)) (Some demo_message) q = Inr (q', MOSQ_ERR_SUCCESS)" "runtime q' = Some rt'"
    "queue (rt_Async rt') \<noteq> queue (rt_Async rt)"
proof -
  let ?env = "demo_call (demo_env 0)"
  obtain info rt where a: "admitted ?env demo_password_event demo_rt info"
    "goOnBasicAuth ?env (Some demo_password_event) demo_process = Inr (demo_process\<lparr>runtime := Some rt\<rparr>, MOSQ_ERR_SUCCESS)"
    "runtime_ready rt" "sessions rt = (sessions demo_rt)(''c1'' \<mapsto> info)"
    "length (queue (rt_Async rt)) < queue_cap (rt_Async rt)"
    using demo_process_runtime demo_ready
  proof (cases rule: goOnBasicAuth_cases[where env = ?env and ed = demo_password_event])
    case (admit info rt')
    from admit(5,6) have "sessions rt' = (sessions demo_rt)(''c1'' \<mapsto> info)"
      by (simp add: demo_password_event_def)
    moreover have "length (queue (rt_Async rt')) < queue_cap (rt_Async rt')"
      using admit(6) by (auto simp: demo_password_event_def demo_rt_def demo_publisher_def dest!: PublishConnect_room)
    ultimately show thesis using that admit(1-3) by blast
  next
    case refuse
    with demo_admitted show thesis by blast
  qed
  have info: "info = \<lparr>si_OrgID = ''o1'', si_AssetUUID = ''a1''\<rparr>" using admitted_unique[OF a(1) demo_admitted] .
  have tok: "validSubjectToken ''o1''" "validSubjectToken ''a1''" by (simp_all add: validSubjectToken_iff)
  obtain data where "marshalIngress \<lparr>im_OrgID = ''o1'', im_AssetUUID = ''a1'', im_ClientID = ''c1'',
      im_Topic = ''events/a1/t'', im_Payload = Some ''hi'', im_QoS = 0, im_Retain = False, im_Timestamp = 0\<rparr> = Inr data"
    using MarshalTime_epoch by (auto simp: marshalIngress_def)
  with tok a(3,5) obtain rt' where
    "PublishIngress ''o1'' ''a1'' ''c1'' ''events/a1/t'' (Some ''hi'') 0 False 0 rt = Inr (rt', True)"
    "queue (rt_Async rt') \<noteq> queue (rt_Async rt)"
    by (auto simp: PublishIngress_def MaxIngressPayloadBytes_def queue_defs runtime_ready_def publisher_ok_def)
  with a(4) info have "goOnMessage ?env (Some demo_message) (demo_process\<lparr>runtime := Some rt\<rparr>) =
      Inr (demo_process\<lparr>runtime := Some rt'\<rparr>, MOSQ_ERR_SUCCESS)"
    by (simp add: goOnMessage_def demo_message_def LookupSession_def demo_call_def)
  with a(2) \<open>queue (rt_Async rt') \<noteq> queue (rt_Async rt)\<close> that show thesis by simp
qed

section \<open>Properties\<close>

text \<open>C8: What reaches the event bus is attributed to the device that the topic names, provided that
  the client identifier was admitted under one username only. Sessions are kept by client
  identifier and the access check goes by username, so nothing in the code ties the two together
  when an identifier is admitted under different usernames. When every admitted CONNECT of the
  identifier carried one username, the access check grants that username a write on a topic, and a
  message of the identifier on the topic is accepted, then the topic is one of the username's event
  topics, and the job goes out under the subject of exactly that asset, with the topic and the
  asset in its text.\<close>

theorem ingress_matches_acl:
  assumes "process_ok p" "runtime p = Some rt0" "sessions rt0 = Map.empty" "process_run evs p = Inr q"
    and user: "\<forall>before env ed after q1 rt1 info. evs = before @ (env, EvBasicAuth ed) # after \<and>
      process_run before p = Inr q1 \<and> runtime q1 = Some rt1 \<and> GoString (ae_clientID ed) = c \<and> admitted env ed rt1 info \<longrightarrow>
      GoString (ae_username ed) = u"
    and acl: "goOnAclCheck (Some \<lparr>xe_username = cu, xe_topic = ct, xe_access = AccessWrite\<rparr>) q = MOSQ_ERR_SUCCESS"
      "GoString cu = u" "GoString ct = t"
    and msg: "goOnMessage env (Some m) q = Inr (q', rc)" "GoString (me_clientID m) = c" "GoString (me_topic m) = t"
    and rt: "runtime q = Some rt" "runtime q' = Some rt'" "queue (rt_Async rt') \<noteq> queue (rt_Async rt)"
  shows "device_topic ''events'' u t \<and>
    (\<exists>org data. queue (rt_Async rt') = queue (rt_Async rt) @
         [\<lparr>job_subject = ingressSubject (rt_Config rt) org u, job_data = data\<rparr>] \<and>
       marshalIngress \<lparr>im_OrgID = org, im_AssetUUID = u, im_ClientID = c, im_Topic = t, im_Payload = Some (me_payload m),
         im_QoS = me_qos m, im_Retain = me_retain m, im_Timestamp = ce_now env\<rparr> = Inr data)"
proof -
  from acl rt(1) have "CheckACL u t AccessWrite" by (auto simp: goOnAclCheck_def split: if_splits)
  then have topic: "device_topic ''events'' u t" and u: "u \<noteq> ''''"
    by (auto simp: CheckACL_iff_device_topic TopicPrefixEvents_def AccessWrite_def AccessRead_def
        AccessSubscribe_def)
  from msg rt obtain info where info: "LookupSession c rt = Some info"
    "PublishIngress (si_OrgID info) (si_AssetUUID info) c t (Some (me_payload m)) (me_qos m) (me_retain m) (ce_now env) rt =
      Inr (rt', True)"
    by (auto elim: goOnMessage_publishes)
  then have "session_origin evs p c info"
    using sessions_traced[OF assms(1-4)] rt(1) by (auto simp: LookupSession_def split: if_splits)
  then obtain before env1 ed after q1 rt1 where o: "evs = before @ (env1, EvBasicAuth ed) # after"
    "process_run before p = Inr q1" "runtime q1 = Some rt1" "GoString (ae_clientID ed) = c" "admitted env1 ed rt1 info"
    unfolding session_origin_def by blast
  then have "GoString (ae_username ed) = u" using user by blast
  with u o(5) have "si_AssetUUID info = u" by (simp add: auth_username_def admitted_asset)
  moreover have "publisher_ok (rt_Async rt)"
    using process_run_ok[OF assms(1), of evs] assms(4) rt(1) by (auto simp: process_ok_def runtime_ready_def)
  ultimately show ?thesis using topic info(2) by (auto elim!: PublishIngress_accepted)
qed

theorem ingress_matches_acl_witness:
  "\<exists>q q' rt' job. process_run [(demo_call (demo_env 0), EvBasicAuth demo_password_event)] demo_process = Inr q \<and>
     goOnMessage (demo_call (demo_env 0)) (Some demo_message) q = Inr (q', MOSQ_ERR_SUCCESS) \<and> runtime q' = Some rt' \<and>
     job \<in> set (queue (rt_Async rt')) \<and> (\<exists>org. job_subject job = ''d.'' @ org @ ''.a1'')"
proof -
  let ?evs = "[(demo_call (demo_env 0), EvBasicAuth demo_password_event)]"
  obtain q rt q' rt' where d: "process_run ?evs demo_process = Inr q" "runtime q = Some rt"
    "goOnMessage (demo_call (demo_env 0)) (Some demo_message) q = Inr (q', MOSQ_ERR_SUCCESS)" "runtime q' = Some rt'"
    "queue (rt_Async rt') \<noteq> queue (rt_Async rt)" by (rule demo_publish)
  have user: "\<forall>before env ed after q1 rt1 info. ?evs = before @ (env, EvBasicAuth ed) # after \<and>
      process_run before demo_process = Inr q1 \<and> runtime q1 = Some rt1 \<and> GoString (ae_clientID ed) = ''c1'' \<and>
      admitted env ed rt1 info \<longrightarrow> GoString (ae_username ed) = ''a1''"
    by (auto simp: Cons_eq_append_conv demo_password_event_def)
  have "CheckACL ''a1'' ''events/a1/t'' AccessWrite"
    by (simp add: CheckACL_iff_device_topic device_topic_def TopicPrefixEvents_def)
  then have acl: "goOnAclCheck (Some \<lparr>xe_username = Some ''a1'', xe_topic = Some ''events/a1/t'', xe_access = AccessWrite\<rparr>) q = MOSQ_ERR_SUCCESS"
    using d(2) by (simp add: goOnAclCheck_def)
  have m: "GoString (Some ''a1'') = ''a1''" "GoString (Some ''events/a1/t'') = ''events/a1/t''"
    "GoString (me_clientID demo_message) = ''c1''" "GoString (me_topic demo_message) = ''events/a1/t''"
    by (simp_all add: demo_message_def)
  have cfg: "rt_Config rt = demo_config"
    using process_run_ok[OF demo_process_ok(1), of ?evs] d(1,2) by (auto simp: same_setting_def demo_rt_def)
  from ingress_matches_acl[OF demo_process_ok(1) demo_process_runtime demo_process_ok(2) d(1) user acl m(1,2) d(3) m(3,4) d(2,4,5)]
  obtain org data where "queue (rt_Async rt') = queue (rt_Async rt) @
       [\<lparr>job_subject = ingressSubject (rt_Config rt) org ''a1'', job_data = data\<rparr>]" by blast
  with d(1,3,4) show ?thesis
    by (intro exI[of _ q] exI[of _ q'] exI[of _ rt'] exI[of _ "\<lparr>job_subject = ingressSubject (rt_Config rt) org ''a1'', job_data = data\<rparr>"])
       (auto simp: cfg ingressSubject_def demo_config_def)
qed



end
